(* ===== verification/Ranges.thy ===== *)
theory Ranges
  imports Prelude "HOL-Library.Product_Lexorder"
begin

text \<open>
  The range encoding of \<^verbatim>\<open>src/state.py\<close>: sets of sequence numbers stored as inclusive
  \<open>[start, end]\<close> pairs. \<open>to_ranges\<close>, \<open>merge_ranges\<close>, \<open>iter_ranges\<close> and \<open>count_ranges\<close> are the
  module's functions; a Python generator is the list of what it yields. The specification is the
  set of integers a range list covers (\<open>cover\<close>) and the canonical form the code stores
  (\<open>canonical\<close>: non-empty ranges in ascending order, separated by at least one missing number).
  The locale \<open>int_set_encoding\<close> is what the users of the encoding rely on.
\<close>

type_synonym range = "int \<times> int"

subsection \<open>The functions\<close>

fun to_ranges_loop :: "int \<Rightarrow> int \<Rightarrow> int list \<Rightarrow> range list" where
  "to_ranges_loop start stop [] = [(start, stop)]"
| "to_ranges_loop start stop (seq # seqs) =
     (if seq = stop + 1 then to_ranges_loop start seq seqs
      else (start, stop) # to_ranges_loop seq seq seqs)"

definition to_ranges :: "int list \<Rightarrow> range list" where
  "to_ranges seqs =
     (case sort (remdups seqs) of [] \<Rightarrow> [] | seq # rest \<Rightarrow> to_ranges_loop seq seq rest)"

fun merge_step :: "range list \<Rightarrow> range \<Rightarrow> range list" where
  "merge_step merged (lo, hi) =
     (if merged \<noteq> [] \<and> lo \<le> snd (last merged) + 1
      then butlast merged @ [(fst (last merged), max (snd (last merged)) hi)]
      else merged @ [(lo, hi)])"

definition merge_ranges :: "range list \<Rightarrow> range list" where
  "merge_ranges ranges = foldl merge_step [] (sort (filter (\<lambda>(lo, hi). lo \<le> hi) ranges))"

definition iter_ranges :: "range list \<Rightarrow> int list" where
  "iter_ranges ranges = concat (map (\<lambda>(lo, hi). [lo..hi]) (merge_ranges ranges))"

definition count_ranges :: "range list \<Rightarrow> int" where
  "count_ranges ranges = sum_list (map (\<lambda>(lo, hi). hi - lo + 1) (merge_ranges ranges))"

subsection \<open>What a range list means\<close>

definition cover :: "range list \<Rightarrow> int set" where
  "cover ranges = (\<Union>(lo, hi) \<in> set ranges. {lo..hi})"

definition apart :: "range \<Rightarrow> range \<Rightarrow> bool" where
  "apart r r' \<longleftrightarrow> snd r + 1 < fst r'"

definition canonical :: "range list \<Rightarrow> bool" where
  "canonical ranges \<longleftrightarrow> sorted_wrt apart ranges \<and> (\<forall>(lo, hi) \<in> set ranges. lo \<le> hi)"

lemma cover_simps [simp]:
  "cover [] = {}"
  "cover ((lo, hi) # rs) = {lo..hi} \<union> cover rs"
  "cover (rs @ rs') = cover rs \<union> cover rs'"
  by (auto simp: cover_def)

lemma cover_filter [simp]: "cover (filter (\<lambda>(lo, hi). lo \<le> hi) rs) = cover rs"
  by (auto simp: cover_def)

lemma cover_cong_set: "set rs = set rs' \<Longrightarrow> cover rs = cover rs'"
  by (simp add: cover_def)

lemma finite_cover [simp]: "finite (cover rs)"
  by (induction rs) auto

lemma canonical_Nil [simp]: "canonical []"
  by (simp add: canonical_def)

lemma canonical_Cons:
  "canonical ((lo, hi) # rs) \<longleftrightarrow> lo \<le> hi \<and> (\<forall>r \<in> set rs. hi + 1 < fst r) \<and> canonical rs"
  by (auto simp: canonical_def apart_def)

lemma canonical_snoc:
  "canonical (rs @ [(lo, hi)]) \<longleftrightarrow> canonical rs \<and> lo \<le> hi \<and> (\<forall>r \<in> set rs. snd r + 1 < lo)"
  by (auto simp: canonical_def apart_def sorted_wrt_append)

subsection \<open>\<open>to_ranges\<close>\<close>

lemma cover_to_ranges_loop:
  "lo \<le> hi \<Longrightarrow> cover (to_ranges_loop lo hi seqs) = {lo..hi} \<union> set seqs"
proof (induction lo hi seqs rule: to_ranges_loop.induct)
  case (2 lo hi seq seqs)
  from 2 have "{lo..hi + 1} = insert (hi + 1) {lo..hi}" by force
  with 2 show ?case by (cases "seq = hi + 1") simp_all
qed simp

lemma fst_to_ranges_loop: "r \<in> set (to_ranges_loop lo hi seqs) \<Longrightarrow> fst r \<in> insert lo (set seqs)"
proof (induction lo hi seqs rule: to_ranges_loop.induct)
  case (2 lo hi seq seqs)
  then show ?case by (cases "seq = hi + 1") auto
qed simp

lemma canonical_to_ranges_loop:
  "lo \<le> hi \<Longrightarrow> sorted_wrt (<) (hi # seqs) \<Longrightarrow> canonical (to_ranges_loop lo hi seqs)"
proof (induction lo hi seqs rule: to_ranges_loop.induct)
  case (1 lo hi)
  then show ?case by (simp add: canonical_Cons)
next
  case (2 lo hi seq seqs)
  show ?case
  proof (cases "seq = hi + 1")
    case True
    with 2 show ?thesis by simp
  next
    case False
    with 2 have "\<forall>r \<in> set (to_ranges_loop seq seq seqs). hi + 1 < fst r"
      by (auto dest!: fst_to_ranges_loop)
    with False 2 show ?thesis by (simp add: canonical_Cons)
  qed
qed

lemma strict_sorted_sort_remdups: "sorted_wrt (<) (sort (remdups xs))"
  by (simp add: strict_sorted_iff)

lemma cover_to_ranges: "cover (to_ranges seqs) = set seqs"
proof (cases "sort (remdups seqs)")
  case Nil
  then have "set seqs = {}" by (metis set_remdups set_sort set_empty)
  with Nil show ?thesis by (simp add: to_ranges_def)
next
  case (Cons x xs)
  then have "set seqs = insert x (set xs)" by (metis set_remdups set_sort list.simps(15))
  with Cons show ?thesis by (simp add: to_ranges_def cover_to_ranges_loop)
qed

lemma canonical_to_ranges: "canonical (to_ranges seqs)"
proof (cases "sort (remdups seqs)")
  case Nil
  then show ?thesis by (simp add: to_ranges_def)
next
  case (Cons x xs)
  then have "sorted_wrt (<) (x # xs)" by (metis strict_sorted_sort_remdups)
  with Cons show ?thesis by (simp add: to_ranges_def canonical_to_ranges_loop)
qed

subsection \<open>\<open>merge_ranges\<close>\<close>

definition merging :: "range list \<Rightarrow> range list \<Rightarrow> bool" where
  "merging merged rest \<longleftrightarrow>
     canonical merged \<and> (\<forall>r \<in> set merged. \<forall>r' \<in> set rest. fst r \<le> fst r')"

lemma merging_step:
  assumes "merging merged ((lo, hi) # rest)" and "lo \<le> hi" and "\<forall>r \<in> set rest. lo \<le> fst r"
  shows "merging (merge_step merged (lo, hi)) rest"
    and "cover (merge_step merged (lo, hi)) = cover merged \<union> {lo..hi}"
proof -
  have "merging (merge_step merged (lo, hi)) rest \<and>
        cover (merge_step merged (lo, hi)) = cover merged \<union> {lo..hi}"
  proof (cases merged rule: rev_cases)
    case Nil
    with assms show ?thesis by (auto simp: merging_def canonical_Cons)
  next
    case (snoc rs r)
    obtain a b where r: "r = (a, b)" by (cases r)
    from assms(1) snoc r have ab: "a \<le> b" "a \<le> lo" "\<forall>r \<in> set rs. snd r + 1 < a" "canonical rs"
      and le: "\<forall>r \<in> set rs. \<forall>r' \<in> set rest. fst r \<le> fst r'" "\<forall>r' \<in> set rest. a \<le> fst r'"
      by (auto simp: merging_def canonical_snoc)
    show ?thesis
    proof (cases "lo \<le> b + 1")
      case True
      with ab have "{a..max b hi} = {a..b} \<union> {lo..hi}" by (auto simp: max_def)
      with True ab le snoc r show ?thesis
        by (auto simp: merging_def canonical_snoc)
    next
      case False
      with ab have "\<forall>r \<in> set rs. snd r + 1 < lo" by force
      with False ab le snoc r assms(2,3) show ?thesis
        using canonical_snoc [of "rs @ [(a, b)]" lo hi]
        by (auto simp: merging_def canonical_snoc)
    qed
  qed
  then show "merging (merge_step merged (lo, hi)) rest"
    and "cover (merge_step merged (lo, hi)) = cover merged \<union> {lo..hi}"
    by blast+
qed

lemma merge_loop:
  assumes "merging merged rs" and "sorted rs" and "\<forall>(lo, hi) \<in> set rs. lo \<le> hi"
  shows "canonical (foldl merge_step merged rs) \<and>
         cover (foldl merge_step merged rs) = cover merged \<union> cover rs"
  using assms
proof (induction rs arbitrary: merged)
  case Nil
  then show ?case by (simp add: merging_def)
next
  case (Cons r rs)
  obtain lo hi where r: "r = (lo, hi)" by (cases r)
  have first: "\<forall>r \<in> set rs. lo \<le> fst r"
    using Cons.prems(2) r by (auto simp: less_eq_prod_def)
  from Cons.prems r have "lo \<le> hi" by simp
  note step = merging_step [OF Cons.prems(1) [unfolded r] this first]
  show ?case
    using Cons.IH [OF step(1)] Cons.prems step(2) r
    by (auto simp del: merge_step.simps)
qed

lemma merge_ranges_correct:
  "canonical (merge_ranges rs)" "cover (merge_ranges rs) = cover rs"
proof -
  let ?rs = "sort (filter (\<lambda>(lo, hi). lo \<le> hi) rs)"
  have "merging [] ?rs" by (simp add: merging_def)
  moreover have "\<forall>(lo, hi) \<in> set ?rs. lo \<le> hi" by auto
  moreover have "sorted ?rs" by simp
  ultimately have "canonical (foldl merge_step [] ?rs)"
    and "cover (foldl merge_step [] ?rs) = cover [] \<union> cover ?rs"
    using merge_loop by blast+
  moreover have "cover ?rs = cover (filter (\<lambda>(lo, hi). lo \<le> hi) rs)"
    by (rule cover_cong_set) (simp only: set_sort)
  ultimately show "canonical (merge_ranges rs)" "cover (merge_ranges rs) = cover rs"
    by (simp_all only: merge_ranges_def cover_filter cover_simps Un_empty_left)
qed

subsection \<open>\<open>iter_ranges\<close> and \<open>count_ranges\<close>\<close>

lemma expand_canonical:
  assumes "canonical rs"
  shows "sorted_wrt (<) (concat (map (\<lambda>(lo, hi). [lo..hi]) rs))"
    and "set (concat (map (\<lambda>(lo, hi). [lo..hi]) rs)) = cover rs"
  using assms
proof (induction rs)
  case (Cons r rs)
  obtain lo hi where r: "r = (lo, hi)" by (cases r)
  case 1
  have "\<forall>x \<in> cover rs. hi < x"
    using 1 r by (fastforce simp: canonical_Cons cover_def)
  moreover have "sorted_wrt (<) [lo..hi]" by (simp add: strict_sorted_iff)
  ultimately show ?case using Cons.IH 1 r by (auto simp: canonical_Cons sorted_wrt_append)
  case 2
  then show ?case using Cons.IH r by (auto simp: canonical_Cons)
qed auto

lemma iter_ranges_props: "sorted_wrt (<) (iter_ranges rs)" "set (iter_ranges rs) = cover rs"
  using expand_canonical [OF merge_ranges_correct(1) [of rs]] merge_ranges_correct(2) [of rs]
  by (simp_all add: iter_ranges_def)

lemma strict_sorted_determined:
  "sorted_wrt (<) xs \<Longrightarrow> sorted_wrt (<) ys \<Longrightarrow> set xs = set ys \<Longrightarrow> xs = (ys :: 'a :: linorder list)"
  by (metis strict_sorted_iff sorted_distinct_set_unique)

lemma iter_ranges_eq: "iter_ranges rs = sorted_list_of_set (cover rs)"
  by (rule strict_sorted_determined) (simp_all add: iter_ranges_props)

lemma count_canonical: "canonical rs \<Longrightarrow> sum_list (map (\<lambda>(lo, hi). hi - lo + 1) rs) = int (card (cover rs))"
proof (induction rs)
  case (Cons r rs)
  obtain lo hi where r: "r = (lo, hi)" by (cases r)
  have "{lo..hi} \<inter> cover rs = {}"
    using Cons.prems r by (fastforce simp: canonical_Cons cover_def)
  then have "card (cover (r # rs)) = card {lo..hi} + card (cover rs)"
    using r by (simp add: card_Un_disjoint)
  then show ?case using Cons r by (simp add: canonical_Cons)
qed simp

lemma count_ranges_card: "count_ranges rs = int (card (cover rs))"
  using count_canonical [OF merge_ranges_correct(1) [of rs]] merge_ranges_correct(2) [of rs]
  by (simp add: count_ranges_def)

subsection \<open>The canonical form is unique\<close>

lemma to_ranges_loop_run:
  "m \<le> hi \<Longrightarrow> to_ranges_loop lo m ([m + 1..hi] @ rest) = to_ranges_loop lo hi rest"
proof (induction "nat (hi - m)" arbitrary: m)
  case (Suc n)
  then have "n = nat (hi - (m + 1))" and "m + 1 \<le> hi" by simp_all
  with Suc.hyps(1) [of "m + 1"] show ?case by (simp add: upto_rec1)
qed simp

lemma to_ranges_loop_expand:
  "canonical ((lo, hi) # rs) \<Longrightarrow>
   to_ranges_loop lo hi (concat (map (\<lambda>(lo, hi). [lo..hi]) rs)) = (lo, hi) # rs"
proof (induction rs arbitrary: lo hi)
  case (Cons r rs)
  obtain a b where r: "r = (a, b)" by (cases r)
  with Cons.prems have "a \<noteq> hi + 1" "a \<le> b" "canonical ((a, b) # rs)"
    by (auto simp: canonical_Cons)
  with r Cons.IH [of a b] show ?case
    by (simp add: upto_rec1 [of a b] to_ranges_loop_run)
qed simp

lemma to_ranges_of_strict_sorted:
  "sorted_wrt (<) xs \<Longrightarrow>
   to_ranges xs = (case xs of [] \<Rightarrow> [] | x # rest \<Rightarrow> to_ranges_loop x x rest)"
  by (simp add: to_ranges_def strict_sorted_iff sorted_sort_id distinct_remdups_id)

lemma to_ranges_expand:
  assumes "canonical rs"
  shows "to_ranges (concat (map (\<lambda>(lo, hi). [lo..hi]) rs)) = rs"
proof (cases rs)
  case (Cons r rest)
  obtain lo hi where r: "r = (lo, hi)" by (cases r)
  with assms Cons have "lo \<le> hi" by (simp add: canonical_Cons)
  with r Cons have expand: "concat (map (\<lambda>(lo, hi). [lo..hi]) rs) =
      lo # [lo + 1..hi] @ concat (map (\<lambda>(lo, hi). [lo..hi]) rest)"
    by (simp add: upto_rec1)
  with expand_canonical(1) [OF assms] r Cons \<open>lo \<le> hi\<close> assms show ?thesis
    by (simp add: to_ranges_of_strict_sorted to_ranges_loop_run to_ranges_loop_expand
        del: append_assoc)
qed (simp add: to_ranges_def)

lemma canonical_unique:
  assumes "canonical rs" and "canonical rs'" and "cover rs = cover rs'"
  shows "rs = rs'"
proof -
  let ?expand = "\<lambda>rs. concat (map (\<lambda>(lo, hi). [lo..hi]) rs)"
  have "?expand rs = ?expand rs'"
    using assms by (intro strict_sorted_determined) (simp_all only: expand_canonical)
  then show ?thesis using assms(1,2) by (metis to_ranges_expand)
qed

lemma merge_ranges_canonical_id: "canonical rs \<Longrightarrow> merge_ranges rs = rs"
  by (rule canonical_unique) (simp_all add: merge_ranges_correct)

lemma to_ranges_eq_merge: "set seqs = cover rs \<Longrightarrow> to_ranges seqs = merge_ranges rs"
  by (rule canonical_unique) (simp_all add: merge_ranges_correct cover_to_ranges canonical_to_ranges)

subsection \<open>What the users of the encoding rely on\<close>

text \<open>
  The pending set, the committer and the peeked groups use range lists only through these laws:
  the covered set is what was put in, iteration is its ascending enumeration, the count is its
  cardinality, and merging keeps it.
\<close>

locale int_set_encoding =
  fixes encode :: "int list \<Rightarrow> 'r"
    and join :: "'r \<Rightarrow> 'r \<Rightarrow> 'r"
    and iter :: "'r \<Rightarrow> int list"
    and count :: "'r \<Rightarrow> int"
    and members :: "'r \<Rightarrow> int set"
  assumes members_encode: "members (encode xs) = set xs"
    and members_join: "members (join r r') = members r \<union> members r'"
    and iter_ascending: "sorted_wrt (<) (iter r)"
    and set_iter: "set (iter r) = members r"
    and count_members: "count r = int (card (members r))"
begin

lemma iter_members: "iter r = sorted_list_of_set (members r)"
  using iter_ascending [of r] set_iter [of r]
  by (metis List.finite_set sorted_list_of_set.idem_if_sorted_distinct strict_sorted_iff)

lemma count_iter: "count r = int (length (iter r))"
  using iter_ascending [of r] by (simp add: count_members set_iter [symmetric] distinct_card strict_sorted_iff)

lemma count_zero_iff: "count r = 0 \<longleftrightarrow> members r = {}"
  by (simp add: count_iter set_iter [symmetric])

lemma finite_members: "finite (members r)"
  by (metis set_iter List.finite_set)

lemma count_join_disjoint:
  "members r \<inter> members r' = {} \<Longrightarrow> count (join r r') = count r + count r'"
  by (simp add: count_members members_join card_Un_disjoint finite_members)

lemma iter_encode: "iter (encode xs) = sort (remdups xs)"
  by (simp add: iter_members members_encode sorted_list_of_set_sort_remdups)

end

interpretation rng: int_set_encoding to_ranges "\<lambda>r r'. merge_ranges (r @ r')" iter_ranges count_ranges cover
  by unfold_locales
    (simp_all add: cover_to_ranges merge_ranges_correct iter_ranges_props count_ranges_card)

subsection \<open>Properties\<close>

text \<open>C30: \<open>iter_ranges\<close> inverts \<open>to_ranges\<close>: iterating the encoded set yields exactly the given
  sequence numbers, each once, in ascending order.\<close>

theorem to_ranges_roundtrip: "iter_ranges (to_ranges seqs) = sort (remdups seqs)"
  by (rule rng.iter_encode)

text \<open>C29: \<open>merge_ranges\<close> computes the normal form of a range list, and only that: for any list \<open>rs\<close>
  (unsorted, overlapping, with empty ranges) a range list is the result exactly when its ranges are
  non-empty, ascending and separated by a gap and it covers the same numbers as \<open>rs\<close>; and the
  count computed without expanding the ranges is the number of values the iteration yields.\<close>

theorem merge_ranges_normal_form:
  "(rs' = merge_ranges rs \<longleftrightarrow> canonical rs' \<and> cover rs' = cover rs) \<and>
   count_ranges rs = int (length (iter_ranges rs))"
  using canonical_unique [of rs' "merge_ranges rs"]
  by (auto simp: merge_ranges_correct rng.count_iter)

end
