(* ===== verification/Config.thy ===== *)
theory Config
  imports Prelude
begin

text \<open>
  \<^verbatim>\<open>src/configuration.py\<close>: the enumerations, the validated sections of a configuration row and the
  validators that run on it. Pydantic's parsing of the raw parameters into typed fields is library
  code; the model starts from the typed fields and applies what the source declares about them: the
  numeric bounds of the fields and, after them, the \<^verbatim>\<open>after\<close> validators in the order the classes
  declare them (\<open>AuthConfiguration\<close>, \<open>EntityConfiguration\<close>, \<open>Configuration\<close>).
\<close>

subsection \<open>Enumerations\<close>

datatype auth_type = CONNECTION_STRING | SERVICE_PRINCIPAL

datatype entity_type = QUEUE | SUBSCRIPTION

datatype sub_queue = SQ_NONE | SQ_DEAD_LETTER | SQ_TRANSFER_DEAD_LETTER

datatype settlement_mode = COMPLETE | DEFER_COMMIT | RECEIVE_AND_DELETE | PEEK

datatype fetch_mode = INCREMENTAL_FETCH | FULL_FETCH

datatype body_format = TEXT | BASE64 | JSON_FLATTEN

datatype unreadable_policy = POLICY_DEAD_LETTER | POLICY_LEAVE | POLICY_FAIL

datatype load_type = INCREMENTAL_LOAD | FULL_LOAD

datatype primary_key = SEQUENCE_NUMBER | MESSAGE_ID | SOURCE_ENTITY_SEQUENCE_NUMBER

definition is_destructive :: "settlement_mode \<Rightarrow> bool" where
  "is_destructive m \<longleftrightarrow> m \<noteq> PEEK"

fun auth_type_value :: "auth_type \<Rightarrow> string" where
  "auth_type_value CONNECTION_STRING = ''connection_string''"
| "auth_type_value SERVICE_PRINCIPAL = ''service_principal''"

fun entity_type_value :: "entity_type \<Rightarrow> string" where
  "entity_type_value QUEUE = ''queue''"
| "entity_type_value SUBSCRIPTION = ''subscription''"

fun sub_queue_value :: "sub_queue \<Rightarrow> string" where
  "sub_queue_value SQ_NONE = ''none''"
| "sub_queue_value SQ_DEAD_LETTER = ''dead_letter''"
| "sub_queue_value SQ_TRANSFER_DEAD_LETTER = ''transfer_dead_letter''"

fun settlement_mode_value :: "settlement_mode \<Rightarrow> string" where
  "settlement_mode_value COMPLETE = ''complete''"
| "settlement_mode_value DEFER_COMMIT = ''defer_commit''"
| "settlement_mode_value RECEIVE_AND_DELETE = ''receive_and_delete''"
| "settlement_mode_value PEEK = ''peek''"

text \<open>\<open>AuthType(s)\<close>, \<open>EntityType(s)\<close>, \<open>SubQueue(s)\<close>: \<open>None\<close> is Python's \<open>ValueError\<close>.\<close>

definition parse_auth_type :: "string \<Rightarrow> auth_type option" where
  "parse_auth_type s = find (\<lambda>t. auth_type_value t = s) [CONNECTION_STRING, SERVICE_PRINCIPAL]"

definition parse_entity_type :: "string \<Rightarrow> entity_type option" where
  "parse_entity_type s = find (\<lambda>t. entity_type_value t = s) [QUEUE, SUBSCRIPTION]"

definition parse_sub_queue :: "string \<Rightarrow> sub_queue option" where
  "parse_sub_queue s =
     find (\<lambda>t. sub_queue_value t = s) [SQ_NONE, SQ_DEAD_LETTER, SQ_TRANSFER_DEAD_LETTER]"

lemma parse_entity_type_value [simp]: "parse_entity_type (entity_type_value t) = Some t"
  by (cases t) (simp_all add: parse_entity_type_def)

lemma parse_sub_queue_value [simp]: "parse_sub_queue (sub_queue_value t) = Some t"
  by (cases t) (simp_all add: parse_sub_queue_def)

fun primary_key_columns :: "primary_key \<Rightarrow> string list" where
  "primary_key_columns SOURCE_ENTITY_SEQUENCE_NUMBER = [''source_entity'', ''sequence_number'']"
| "primary_key_columns SEQUENCE_NUMBER = [''sequence_number'']"
| "primary_key_columns MESSAGE_ID = [''message_id'']"

subsection \<open>The sections\<close>

record auth_configuration =
  auth_type :: auth_type
  connection_string :: string
  tenant_id :: string
  client_id :: string
  client_secret :: string
  fully_qualified_namespace :: string
  row_connection_string :: string

record source_config =
  entity_type :: entity_type
  queue_name :: "string option"
  topic_name :: "string option"
  subscription_name :: "string option"
  sub_queue :: sub_queue
  session_enabled :: bool
  settlement_mode :: settlement_mode
  fetch_mode :: fetch_mode
  idle_timeout_seconds :: int

record limits_config =
  max_messages :: int
  stop_at_job_start :: bool

record body_config =
  body_format :: body_format
  unreadable_body :: unreadable_policy

record destination_config =
  table_name :: string
  load_type :: load_type
  primary_key :: primary_key

record advanced_config =
  max_duration_seconds :: int
  batch_size :: int
  prefetch_count :: int
  recovery_wait_seconds :: int

record entity_configuration = auth_configuration +
  source :: source_config

record configuration = entity_configuration +
  limits :: limits_config
  body :: body_config
  destination :: destination_config
  advanced :: advanced_config
  advanced_options :: bool

definition default_advanced :: advanced_config where
  "default_advanced =
     \<lparr>max_duration_seconds = 3000, batch_size = 100, prefetch_count = 1, recovery_wait_seconds = 0\<rparr>"

definition incremental :: "destination_config \<Rightarrow> bool" where
  "incremental d \<longleftrightarrow> load_type d = INCREMENTAL_LOAD"

subsection \<open>Credentials\<close>

definition uses_row_connection_string :: "'a auth_configuration_scheme \<Rightarrow> bool" where
  "uses_row_connection_string a \<longleftrightarrow> row_connection_string a \<noteq> ''''"

definition effective_auth_type :: "'a auth_configuration_scheme \<Rightarrow> auth_type" where
  "effective_auth_type a = (if uses_row_connection_string a then CONNECTION_STRING else auth_type a)"

definition effective_connection_string :: "'a auth_configuration_scheme \<Rightarrow> string" where
  "effective_connection_string a =
     (if uses_row_connection_string a then row_connection_string a else connection_string a)"

text \<open>\<open>str.strip()\<close> on the characters a HOL \<open>char\<close> has (code points 0-255).\<close>

definition py_space :: "char \<Rightarrow> bool" where
  "py_space c \<longleftrightarrow>
     (let n = (of_char c :: nat) in (9 \<le> n \<and> n \<le> 13) \<or> (28 \<le> n \<and> n \<le> 32) \<or> n = 133 \<or> n = 160)"

definition strip_by :: "('a \<Rightarrow> bool) \<Rightarrow> 'a list \<Rightarrow> 'a list" where
  "strip_by p s = rev (dropWhile p (rev (dropWhile p s)))"

text \<open>A raw parameter value, before pydantic: \<open>PNone\<close> is null, \<open>POther b\<close> any value that is neither
  null nor a string, with its truth value.\<close>

datatype param = PNone | PStr string | POther bool

definition normalise_row_connection_string :: "param \<Rightarrow> param" where
  "normalise_row_connection_string v =
     (case v of PNone \<Rightarrow> PStr [] | PStr s \<Rightarrow> PStr (strip_by py_space s) | POther b \<Rightarrow> POther b)"

definition filled :: "(string \<rightharpoonup> param) \<Rightarrow> string \<Rightarrow> bool" where
  "filled parameters key =
     (case parameters key of
        None \<Rightarrow> False
      | Some PNone \<Rightarrow> False
      | Some (PStr s) \<Rightarrow> strip_by py_space s \<noteq> []
      | Some (POther _) \<Rightarrow> True)"

fun root_credential_fields :: "auth_type \<Rightarrow> string list" where
  "root_credential_fields CONNECTION_STRING = [''#connection_string'']"
| "root_credential_fields SERVICE_PRINCIPAL =
     [''tenant_id'', ''client_id'', ''#client_secret'', ''fully_qualified_namespace'']"

definition selected_auth_type :: "(string \<rightharpoonup> param) \<Rightarrow> auth_type option" where
  "selected_auth_type parameters =
     (case parameters ''auth_type'' of
        None \<Rightarrow> Some CONNECTION_STRING
      | Some PNone \<Rightarrow> Some CONNECTION_STRING
      | Some (PStr s) \<Rightarrow> if s = [] then Some CONNECTION_STRING else parse_auth_type s
      | Some (POther truthy) \<Rightarrow> if truthy then None else Some CONNECTION_STRING)"

definition has_no_credentials :: "(string \<rightharpoonup> param) \<Rightarrow> bool" where
  "has_no_credentials parameters =
     (if filled parameters ''#row_connection_string'' then False
      else case selected_auth_type parameters of
        None \<Rightarrow> False
      | Some t \<Rightarrow> \<not> list_ex (filled parameters) (root_credential_fields t))"

subsection \<open>Validation\<close>

datatype config_error =
    OutOfBounds "string list"
  | MissingConnectionString
  | ServicePrincipalMissing "string list"
  | QueueNameRequired
  | SubscriptionFieldRequired string
  | ReceiveAndDeletePrefetch
  | PeekIncrementalUnsupported
  | BadTableName

definition validate_auth :: "'a auth_configuration_scheme \<Rightarrow> config_error + 'a auth_configuration_scheme" where
  "validate_auth a =
     (if uses_row_connection_string a then Inr a
      else if auth_type a = CONNECTION_STRING \<and> connection_string a = [] then Inl MissingConnectionString
      else if auth_type a = SERVICE_PRINCIPAL then
        (let required = [(''tenant_id'', tenant_id a), (''client_id'', client_id a),
                         (''#client_secret'', client_secret a),
                         (''fully_qualified_namespace'', fully_qualified_namespace a)];
             missing = map fst (filter (\<lambda>(name, value). value = []) required)
         in if missing \<noteq> [] then Inl (ServicePrincipalMissing missing) else Inr a)
      else Inr a)"

definition truthy_str :: "string option \<Rightarrow> bool" where
  "truthy_str v \<longleftrightarrow> v \<noteq> None \<and> v \<noteq> Some []"

definition normalise_source :: "source_config \<Rightarrow> config_error + source_config" where
  "normalise_source src =
     (case (if entity_type src = QUEUE then
              (if \<not> truthy_str (queue_name src) then Inl QueueNameRequired
               else Inr (src\<lparr>topic_name := None, subscription_name := None\<rparr>))
            else
              (let missing = map fst (filter (\<lambda>(name, value). \<not> truthy_str value)
                   [(''topic_name'', topic_name src), (''subscription_name'', subscription_name src)])
               in case missing of
                    name # _ \<Rightarrow> Inl (SubscriptionFieldRequired name)
                  | [] \<Rightarrow> Inr (src\<lparr>queue_name := None\<rparr>))) of
        Inl e \<Rightarrow> Inl e
      | Inr src1 \<Rightarrow>
          (let src2 = (if settlement_mode src1 \<noteq> PEEK then src1\<lparr>fetch_mode := INCREMENTAL_FETCH\<rparr> else src1);
               src3 = (if sub_queue src2 \<noteq> SQ_NONE then src2\<lparr>session_enabled := False\<rparr> else src2)
           in Inr src3))"

definition apply_advanced_gate :: "configuration \<Rightarrow> configuration" where
  "apply_advanced_gate c = (if \<not> advanced_options c then c\<lparr>advanced := default_advanced\<rparr> else c)"

definition refuse_unsafe :: "configuration \<Rightarrow> config_error + configuration" where
  "refuse_unsafe c =
     (let src = source c in
      if settlement_mode src = RECEIVE_AND_DELETE \<and> prefetch_count (advanced c) > 1
      then Inl ReceiveAndDeletePrefetch
      else if settlement_mode src = PEEK \<and> fetch_mode src = INCREMENTAL_FETCH
              \<and> (session_enabled src \<or> sub_queue src \<noteq> SQ_NONE)
      then Inl PeekIncrementalUnsupported
      else Inr c)"

text \<open>
  \<open>_TABLE_NAME_RE.match\<close>: the pattern ends in \<open>$\<close>, which Python's \<open>re\<close> also lets match just
  before a newline that ends the string; the model keeps that.
\<close>

definition ascii_alnum :: "nat \<Rightarrow> bool" where
  "ascii_alnum n \<longleftrightarrow> (48 \<le> n \<and> n \<le> 57) \<or> (65 \<le> n \<and> n \<le> 90) \<or> (97 \<le> n \<and> n \<le> 122)"

definition table_char :: "char \<Rightarrow> bool" where
  "table_char c \<longleftrightarrow> ascii_alnum (of_char c) \<or> c = CHR ''_'' \<or> c = CHR ''-''"

definition plain_table_name :: "string \<Rightarrow> bool" where
  "plain_table_name s \<longleftrightarrow>
     s \<noteq> [] \<and> ascii_alnum (of_char (hd s)) \<and> ascii_alnum (of_char (last s)) \<and> list_all table_char s"

definition table_name_re_match :: "string \<Rightarrow> bool" where
  "table_name_re_match s \<longleftrightarrow>
     plain_table_name s \<or> (s \<noteq> [] \<and> last s = CHR 0x0A \<and> plain_table_name (butlast s))"

definition validate_table_name :: "configuration \<Rightarrow> config_error + configuration" where
  "validate_table_name c =
     (let name = table_name (destination c) in
      if name \<noteq> [] \<and> \<not> table_name_re_match name then Inl BadTableName else Inr c)"

text \<open>The numeric bounds declared on the fields; pydantic reports every violated one. They are checked
  before any \<open>after\<close> validator runs, so also for an \<open>advanced\<close> section that the gate then ignores.\<close>

definition out_of_bounds :: "(string \<times> int \<times> int \<times> int option) list \<Rightarrow> string list" where
  "out_of_bounds decl =
     map fst (filter (\<lambda>(name, value, lo, hi). value < lo \<or> (case hi of None \<Rightarrow> False | Some h \<Rightarrow> h < value)) decl)"

definition source_bounds :: "source_config \<Rightarrow> (string \<times> int \<times> int \<times> int option) list" where
  "source_bounds src = [(''source.idle_timeout_seconds'', idle_timeout_seconds src, 1, Some 300)]"

definition limits_bounds :: "limits_config \<Rightarrow> (string \<times> int \<times> int \<times> int option) list" where
  "limits_bounds l = [(''limits.max_messages'', max_messages l, 0, None)]"

definition advanced_bounds :: "advanced_config \<Rightarrow> (string \<times> int \<times> int \<times> int option) list" where
  "advanced_bounds a =
     [(''advanced.max_duration_seconds'', max_duration_seconds a, 60, Some 43200),
      (''advanced.batch_size'', batch_size a, 1, Some 5000),
      (''advanced.prefetch_count'', prefetch_count a, 1, Some 1000),
      (''advanced.recovery_wait_seconds'', recovery_wait_seconds a, 0, Some 330)]"

definition check_fields :: "(string \<times> int \<times> int \<times> int option) list \<Rightarrow> 'c \<Rightarrow> config_error + 'c" where
  "check_fields decl c =
     (case out_of_bounds decl of [] \<Rightarrow> Inr c | bad \<Rightarrow> Inl (OutOfBounds bad))"

definition validate_source ::
    "'a entity_configuration_scheme \<Rightarrow> config_error + 'a entity_configuration_scheme" where
  "validate_source c = sbind (normalise_source (source c)) (\<lambda>src. Inr (c\<lparr>source := src\<rparr>))"

definition validate_entity_configuration :: "entity_configuration \<Rightarrow> config_error + entity_configuration" where
  "validate_entity_configuration c =
     sbind (check_fields (source_bounds (source c)) c) (\<lambda>c.
     sbind (validate_auth c) validate_source)"

definition validate_configuration :: "configuration \<Rightarrow> config_error + configuration" where
  "validate_configuration c =
     sbind (check_fields (source_bounds (source c) @ limits_bounds (limits c) @ advanced_bounds (advanced c)) c) (\<lambda>c.
     sbind (validate_auth c) (\<lambda>c.
     sbind (validate_source c) (\<lambda>c.
     sbind (refuse_unsafe (apply_advanced_gate c)) validate_table_name)))"

subsection \<open>What a validated configuration satisfies\<close>

definition in_bounds :: "(string \<times> int \<times> int \<times> int option) list \<Rightarrow> bool" where
  "in_bounds decl \<longleftrightarrow> out_of_bounds decl = []"

lemma in_bounds_simps [simp]:
  "in_bounds []"
  "in_bounds ((n, v, lo, Some hi) # fs) \<longleftrightarrow> lo \<le> v \<and> v \<le> hi \<and> in_bounds fs"
  "in_bounds ((n, v, lo, None) # fs) \<longleftrightarrow> lo \<le> v \<and> in_bounds fs"
  "in_bounds (fs @ fs') \<longleftrightarrow> in_bounds fs \<and> in_bounds fs'"
  by (auto simp: in_bounds_def out_of_bounds_def)

lemma check_fields_Inr [simp]: "check_fields fs c = Inr c' \<longleftrightarrow> in_bounds fs \<and> c' = c"
  by (auto simp: check_fields_def in_bounds_def split: list.split)

lemmas bounds_defs = source_bounds_def limits_bounds_def advanced_bounds_def

text \<open>The source block after normalisation: one kind of name, no fetch mode outside peek, no sessions
  on a sub-queue.\<close>

definition source_ok :: "source_config \<Rightarrow> bool" where
  "source_ok src \<longleftrightarrow>
     (case entity_type src of
        QUEUE \<Rightarrow> truthy_str (queue_name src) \<and> topic_name src = None \<and> subscription_name src = None
      | SUBSCRIPTION \<Rightarrow> truthy_str (topic_name src) \<and> truthy_str (subscription_name src) \<and> queue_name src = None) \<and>
     (settlement_mode src \<noteq> PEEK \<longrightarrow> fetch_mode src = INCREMENTAL_FETCH) \<and>
     (sub_queue src \<noteq> SQ_NONE \<longrightarrow> \<not> session_enabled src)"

definition credentials_ok :: "'a auth_configuration_scheme \<Rightarrow> bool" where
  "credentials_ok a \<longleftrightarrow>
     row_connection_string a \<noteq> [] \<or>
     (case auth_type a of
        CONNECTION_STRING \<Rightarrow> connection_string a \<noteq> []
      | SERVICE_PRINCIPAL \<Rightarrow> tenant_id a \<noteq> [] \<and> client_id a \<noteq> [] \<and> client_secret a \<noteq> []
          \<and> fully_qualified_namespace a \<noteq> [])"

definition configuration_ok :: "configuration \<Rightarrow> bool" where
  "configuration_ok c \<longleftrightarrow>
     credentials_ok c \<and> source_ok (source c) \<and>
     in_bounds (source_bounds (source c) @ limits_bounds (limits c) @ advanced_bounds (advanced c)) \<and>
     (\<not> advanced_options c \<longrightarrow> advanced c = default_advanced) \<and>
     (settlement_mode (source c) = RECEIVE_AND_DELETE \<longrightarrow> prefetch_count (advanced c) = 1) \<and>
     (settlement_mode (source c) = PEEK \<and> fetch_mode (source c) = INCREMENTAL_FETCH \<longrightarrow>
        \<not> session_enabled (source c) \<and> sub_queue (source c) = SQ_NONE) \<and>
     (table_name (destination c) = [] \<or> table_name_re_match (table_name (destination c)))"

lemma validate_auth_Inr: "validate_auth a = Inr a' \<longleftrightarrow> credentials_ok a \<and> a' = a"
  by (cases "auth_type a")
    (auto simp: validate_auth_def credentials_ok_def uses_row_connection_string_def Let_def)

lemma normalise_source_ok: "normalise_source src = Inr src' \<Longrightarrow> source_ok src'"
  by (cases "entity_type src")
    (auto simp: normalise_source_def source_ok_def Let_def split: if_splits)

lemma normalise_source_id: "source_ok src \<Longrightarrow> normalise_source src = Inr src"
  by (cases "entity_type src")
    (auto simp: normalise_source_def source_ok_def Let_def)

lemma normalise_source_bounds: "normalise_source src = Inr src' \<Longrightarrow> source_bounds src' = source_bounds src"
  by (cases "entity_type src")
    (auto simp: normalise_source_def source_bounds_def Let_def split: if_splits)

lemma advanced_gate_bounds: "in_bounds (advanced_bounds (advanced c)) \<Longrightarrow>
   in_bounds (advanced_bounds (advanced (apply_advanced_gate c)))"
  by (simp add: apply_advanced_gate_def default_advanced_def advanced_bounds_def)

lemma refuse_unsafe_Inr:
  "refuse_unsafe c = Inr c' \<longleftrightarrow> c' = c \<and>
     \<not> (settlement_mode (source c) = RECEIVE_AND_DELETE \<and> prefetch_count (advanced c) > 1) \<and>
     \<not> (settlement_mode (source c) = PEEK \<and> fetch_mode (source c) = INCREMENTAL_FETCH
        \<and> (session_enabled (source c) \<or> sub_queue (source c) \<noteq> SQ_NONE))"
  by (auto simp: refuse_unsafe_def Let_def)

lemma validate_table_name_Inr:
  "validate_table_name c = Inr c' \<longleftrightarrow>
     c' = c \<and> (table_name (destination c) = [] \<or> table_name_re_match (table_name (destination c)))"
  by (auto simp: validate_table_name_def Let_def)

lemma validate_source_Inr:
  "validate_source c = Inr c' \<longleftrightarrow> (\<exists>src. normalise_source (source c) = Inr src \<and> c' = c\<lparr>source := src\<rparr>)"
  by (auto simp: validate_source_def sbind_Inr_iff)

lemma credentials_ok_update [simp]:
  "credentials_ok (c\<lparr>source := src\<rparr>) = credentials_ok (c :: 'a entity_configuration_scheme)"
  "credentials_ok (d\<lparr>advanced := a\<rparr>) = credentials_ok (d :: 'b configuration_scheme)"
  by (simp_all add: credentials_ok_def split: auth_type.split)

lemma gate_frame [simp]:
  "credentials_ok (apply_advanced_gate c) = credentials_ok c"
  "source (apply_advanced_gate c) = source c" "limits (apply_advanced_gate c) = limits c"
  "destination (apply_advanced_gate c) = destination c"
  "advanced_options (apply_advanced_gate c) = advanced_options c"
  by (simp_all add: apply_advanced_gate_def)

lemma gate_default: "\<not> advanced_options c \<Longrightarrow> advanced (apply_advanced_gate c) = default_advanced"
  by (simp add: apply_advanced_gate_def)

lemma gate_id: "\<not> advanced_options c \<longrightarrow> advanced c = default_advanced \<Longrightarrow> apply_advanced_gate c = c"
  by (simp add: apply_advanced_gate_def)

lemma validate_configuration_ok:
  assumes "validate_configuration c = Inr c'"
  shows "configuration_ok c'"
proof -
  from assms obtain src where
    bounds: "in_bounds (source_bounds (source c) @ limits_bounds (limits c) @ advanced_bounds (advanced c))"
    and cred: "credentials_ok c"
    and src: "normalise_source (source c) = Inr src"
    and c': "c' = apply_advanced_gate (c\<lparr>source := src\<rparr>)"
    and unsafe: "refuse_unsafe c' = Inr c'" and name: "validate_table_name c' = Inr c'"
    by (auto simp: validate_configuration_def sbind_Inr_iff validate_auth_Inr validate_source_Inr
        refuse_unsafe_Inr validate_table_name_Inr)
  have "in_bounds (advanced_bounds (advanced c'))"
    using bounds advanced_gate_bounds [of "c\<lparr>source := src\<rparr>"] c' by simp
  moreover have "\<not> advanced_options c' \<longrightarrow> advanced c' = default_advanced"
    using c' gate_default by force
  moreover have "prefetch_count (advanced c') \<le> 1 \<longrightarrow> prefetch_count (advanced c') = 1"
    using calculation(1) by (simp add: advanced_bounds_def)
  ultimately show ?thesis
    using bounds cred src unsafe name normalise_source_ok [OF src] normalise_source_bounds [OF src] c'
    by (auto simp: configuration_ok_def refuse_unsafe_Inr validate_table_name_Inr)
qed

lemma validate_configuration_id:
  assumes "configuration_ok c"
  shows "validate_configuration c = Inr c"
proof -
  have "validate_auth c = Inr c" "validate_source c = Inr c" "apply_advanced_gate c = c"
    "refuse_unsafe c = Inr c" "validate_table_name c = Inr c"
    using assms
    by (auto simp: configuration_ok_def validate_auth_Inr validate_source_Inr normalise_source_id
        gate_id refuse_unsafe_Inr validate_table_name_Inr)
  moreover have "check_fields (source_bounds (source c) @ limits_bounds (limits c)
      @ advanced_bounds (advanced c)) c = Inr c"
    using assms unfolding configuration_ok_def check_fields_Inr by simp
  ultimately show ?thesis by (simp add: validate_configuration_def del: check_fields_Inr)
qed

subsection \<open>Properties\<close>

text \<open>C32: every configuration the validators accept is safe to run: its numeric fields are within the
  declared bounds, one entity name is set, advanced options left off mean the defaults, a
  receive-and-delete row buffers at most one message, incremental peek is never combined with
  sessions or a sub-queue; and validating the result again accepts it unchanged.\<close>

theorem validated_configuration_ok:
  assumes "validate_configuration c = Inr c'"
  shows "configuration_ok c' \<and> validate_configuration c' = Inr c'"
  using assms by (simp add: validate_configuration_ok validate_configuration_id)

definition sample_configuration :: configuration where
  "sample_configuration =
     \<lparr>auth_type = CONNECTION_STRING, connection_string = ''Endpoint=sb://x'', tenant_id = [],
      client_id = [], client_secret = [], fully_qualified_namespace = [], row_connection_string = [],
      source = \<lparr>entity_type = QUEUE, queue_name = Some ''orders'', topic_name = Some ''old'',
        subscription_name = None, sub_queue = SQ_NONE, session_enabled = False,
        settlement_mode = COMPLETE, fetch_mode = FULL_FETCH, idle_timeout_seconds = 10\<rparr>,
      limits = \<lparr>max_messages = 0, stop_at_job_start = True\<rparr>,
      body = \<lparr>body_format = TEXT, unreadable_body = POLICY_DEAD_LETTER\<rparr>,
      destination = \<lparr>table_name = ''orders'', load_type = INCREMENTAL_LOAD,
        primary_key = SEQUENCE_NUMBER\<rparr>,
      advanced = \<lparr>max_duration_seconds = 60, batch_size = 10, prefetch_count = 5,
        recovery_wait_seconds = 0\<rparr>,
      advanced_options = False\<rparr>"

theorem validated_configuration_ok_witness:
  "\<exists>c'. validate_configuration sample_configuration = Inr c' \<and> configuration_ok c' \<and>
        advanced c' = default_advanced \<and> topic_name (source c') = None"
proof -
  define c' where "c' = sample_configuration\<lparr>source := (source sample_configuration)\<lparr>topic_name := None,
    fetch_mode := INCREMENTAL_FETCH\<rparr>, advanced := default_advanced\<rparr>"
  have valid: "validate_configuration sample_configuration = Inr c'"
    unfolding c'_def sample_configuration_def validate_configuration_def
    by (simp add: bounds_defs sbind_def check_fields_def out_of_bounds_def validate_auth_def
        uses_row_connection_string_def validate_source_def normalise_source_def truthy_str_def
        apply_advanced_gate_def default_advanced_def refuse_unsafe_def validate_table_name_def
        table_name_re_match_def plain_table_name_def table_char_def ascii_alnum_def Let_def)
  from validated_configuration_ok [OF valid] valid show ?thesis
    by (auto simp: c'_def sample_configuration_def)
qed

text \<open>a gate that comes too late for the bounds: although the section is documented as ignored
  unless \<open>advanced_options\<close> is on, a configuration that leaves it off is rejected when a field of the
  ignored section is out of bounds.\<close>

theorem ignored_advanced_section_still_checked:
  "validate_configuration (sample_configuration\<lparr>advanced := default_advanced\<lparr>batch_size := 0\<rparr>\<rparr>) =
     Inl (OutOfBounds [''advanced.batch_size''])"
  by (simp add: validate_configuration_def sample_configuration_def bounds_defs check_fields_def
      out_of_bounds_def default_advanced_def)

text \<open>the table-name check lets a trailing newline through: \<open>orders\<close> followed by a newline is
  accepted although the rule it states allows only letters, digits, \<open>-\<close> and \<open>_\<close>.\<close>

theorem table_name_newline_accepted:
  "let c = sample_configuration\<lparr>destination := (destination sample_configuration)
             \<lparr>table_name := ''orders'' @ [CHR 0x0A]\<rparr>\<rparr> in
   validate_table_name c = Inr c \<and> \<not> list_all table_char (table_name (destination c))"
  by (simp add: validate_table_name_def sample_configuration_def table_name_re_match_def
      plain_table_name_def table_char_def ascii_alnum_def Let_def)

end
