(* ===== verification/Pyvalues.thy ===== *)
theory Pyvalues
  imports Prelude
begin

text \<open>
  The Python values a message body can hold and the text operations of the standard library that the
  source applies to them: decimal rendering, UTF-8 encoding (which rejects lone surrogates), base64,
  calendar rendering of a timestamp and the string escaping of \<^verbatim>\<open>json.dumps\<close>.

  A dictionary is an association list whose keys are scalars; lists and tuples are one constructor,
  as every function of the source that meets them treats them alike. A float or a Decimal is carried
  by its Python text; a datetime by its instant, microseconds since 0001-01-01 in UTC (a naive
  datetime is UTC for every function of the source). Python's recursion limit is not modelled.
\<close>

subsection \<open>Values\<close>

type_synonym datetime = int

datatype scalar =
    SNone
  | SBool bool
  | SInt int
  | SFloat pystr
  | SDecimal pystr
  | SStr pystr
  | SBytes "nat list"
  | SDatetime datetime
  | SUuid pystr
  | SOther pystr

datatype pyval =
    Sc scalar
  | PyList "pyval list"
  | PyDict "(scalar \<times> pyval) list"

subsection \<open>Numbers as text\<close>

fun digits_of :: "nat \<Rightarrow> pystr" where
  "digits_of n = (if n < 10 then [48 + n] else digits_of (n div 10) @ [48 + n mod 10])"

declare digits_of.simps [simp del]

definition str_of_int :: "int \<Rightarrow> pystr" where
  "str_of_int i = (if i < 0 then u ''-'' @ digits_of (nat (- i)) else digits_of (nat i))"

definition pad_left :: "nat \<Rightarrow> pystr \<Rightarrow> pystr" where
  "pad_left w s = replicate (w - length s) 48 @ s"

lemma digits_of_digits: "\<forall>d \<in> set (digits_of n). 48 \<le> d \<and> d < 58"
proof (induction n rule: digits_of.induct)
  case (1 n)
  then show ?case by (subst digits_of.simps) auto
qed

lemma digits_of_ne [simp]: "digits_of n \<noteq> []"
  by (subst digits_of.simps) simp

fun undigits :: "pystr \<Rightarrow> nat \<Rightarrow> nat" where
  "undigits [] acc = acc"
| "undigits (d # ds) acc = undigits ds (10 * acc + (d - 48))"

lemma undigits_append: "undigits (xs @ ys) acc = undigits ys (undigits xs acc)"
  by (induction xs acc rule: undigits.induct) auto

lemma undigits_digits_of [simp]: "undigits (digits_of n) 0 = n"
proof (induction n rule: digits_of.induct)
  case (1 n)
  then show ?case by (subst digits_of.simps) (auto simp: undigits_append)
qed

lemma digits_of_inject [simp]: "digits_of m = digits_of n \<longleftrightarrow> m = n"
  by (metis undigits_digits_of)

subsection \<open>UTF-8 and base64\<close>

definition surrogate :: "nat \<Rightarrow> bool" where
  "surrogate c \<longleftrightarrow> 0xD800 \<le> c \<and> c \<le> 0xDFFF"

definition utf8_char :: "nat \<Rightarrow> nat list" where
  "utf8_char c =
     (if c < 0x80 then [c]
      else if c < 0x800 then [0xC0 + c div 64, 0x80 + c mod 64]
      else if c < 0x10000 then [0xE0 + c div 4096, 0x80 + c div 64 mod 64, 0x80 + c mod 64]
      else [0xF0 + c div 262144, 0x80 + c div 4096 mod 64, 0x80 + c div 64 mod 64, 0x80 + c mod 64])"

datatype text_error = UnicodeEncodeError

definition utf8_encode :: "pystr \<Rightarrow> text_error + nat list" where
  "utf8_encode s = (if list_ex surrogate s then Inl UnicodeEncodeError else Inr (concat (map utf8_char s)))"

definition encodable :: "pystr \<Rightarrow> bool" where
  "encodable s \<longleftrightarrow> \<not> list_ex surrogate s"

lemma utf8_encode_Inr: "encodable s \<Longrightarrow> utf8_encode s = Inr (concat (map utf8_char s))"
  by (simp add: utf8_encode_def encodable_def)

lemma utf8_char_length: "1 \<le> length (utf8_char c) \<and> length (utf8_char c) \<le> 4"
  by (simp add: utf8_char_def)

definition b64_digit :: "nat \<Rightarrow> nat" where
  "b64_digit n =
     (if n < 26 then 65 + n else if n < 52 then 71 + n else if n < 62 then n - 4
      else if n = 62 then 43 else 47)"

fun b64encode :: "nat list \<Rightarrow> pystr" where
  "b64encode [] = []"
| "b64encode [a] = [b64_digit (a div 4), b64_digit (a mod 4 * 16), 61, 61]"
| "b64encode [a, b] =
     [b64_digit (a div 4), b64_digit (a mod 4 * 16 + b div 16), b64_digit (b mod 16 * 4), 61]"
| "b64encode (a # b # c # rest) =
     b64_digit (a div 4) # b64_digit (a mod 4 * 16 + b div 16) #
     b64_digit (b mod 16 * 4 + c div 64) # b64_digit (c mod 64) # b64encode rest"

definition b64_value :: "nat \<Rightarrow> nat" where
  "b64_value c =
     (if 65 \<le> c \<and> c \<le> 90 then c - 65 else if 97 \<le> c \<and> c \<le> 122 then c - 71
      else if 48 \<le> c \<and> c \<le> 57 then c + 4 else if c = 43 then 62 else 63)"

text \<open>The reader's side, used only to state that the encoding loses nothing.\<close>

fun b64decode :: "pystr \<Rightarrow> nat list" where
  "b64decode (p # q # r # s # rest) =
     (let a = b64_value p * 4 + b64_value q div 16;
          b = b64_value q mod 16 * 16 + b64_value r div 4;
          c = b64_value r mod 4 * 64 + b64_value s
      in if r = 61 then [a] else if s = 61 then [a, b] else a # b # c # b64decode rest)"
| "b64decode _ = []"

lemma b64_value_digit [simp]: "n < 64 \<Longrightarrow> b64_value (b64_digit n) = n"
  by (auto simp: b64_value_def b64_digit_def)

lemma b64_digit_pad [simp]: "b64_digit n = 61 \<longleftrightarrow> False"
  by (auto simp: b64_digit_def)

lemma b64_digit_ascii: "b64_digit n < 128 \<or> 64 \<le> n"
  by (auto simp: b64_digit_def)

lemma digit_bounds:
  fixes a b :: nat
  assumes "a < 256" and "b < 256"
  shows "a div 4 < 64" "a mod 4 * 16 < 64" "a mod 4 * 16 + b div 16 < 64" "b mod 16 * 4 < 64"
    "a mod 16 * 4 + b div 64 < 64" "a mod 64 < 64"
proof -
  have "b div 16 < 16" "b div 64 < 4" using assms by simp_all
  moreover have "a mod 4 < 4" "a mod 16 < 16" "b mod 16 < 16" by simp_all
  ultimately show "a mod 4 * 16 < 64" "a mod 4 * 16 + b div 16 < 64" "b mod 16 * 4 < 64"
    "a mod 16 * 4 + b div 64 < 64" by linarith+
qed (use assms in simp_all)

lemma digit_split:
  fixes a b :: nat
  assumes "b < 256"
  shows "a div 4 * 4 + (a mod 4 * 16 + b div 16) div 16 = a" "a div 4 * 4 + a mod 4 * 16 div 16 = a"
    "(a mod 4 * 16 + b div 16) mod 16 * 16 + (b mod 16 * 4) div 4 = b"
    "(a mod 16 * 4 + b div 64) mod 4 * 64 + b mod 64 = b"
    "(a mod 16 * 4 + b div 64) div 4 = a mod 16"
proof -
  have *: "b div 16 < 16" "b div 64 < 4" using assms by simp_all
  show "a div 4 * 4 + (a mod 4 * 16 + b div 16) div 16 = a" "a div 4 * 4 + a mod 4 * 16 div 16 = a"
    "(a mod 4 * 16 + b div 16) mod 16 * 16 + (b mod 16 * 4) div 4 = b"
    "(a mod 16 * 4 + b div 64) mod 4 * 64 + b mod 64 = b"
    "(a mod 16 * 4 + b div 64) div 4 = a mod 16"
    using * by (simp_all add: mod_less)
qed

lemma b64decode_group:
  assumes "p < 64" "q < 64" "r < 64" "s < 64"
  shows "b64decode (b64_digit p # b64_digit q # b64_digit r # b64_digit s # rest) =
    (p * 4 + q div 16) # (q mod 16 * 16 + r div 4) # (r mod 4 * 64 + s) # b64decode rest"
  using assms by (simp add: Let_def)

lemma b64decode_encode:
  "\<forall>x \<in> set bs. x < 256 \<Longrightarrow> b64decode (b64encode bs) = bs"
proof (induction bs rule: b64encode.induct)
  case (2 a)
  then show ?case by (simp add: Let_def digit_bounds digit_split(2))
next
  case (3 a b)
  then show ?case
    using digit_split [of b a] digit_bounds [of a b] by (simp add: Let_def)
next
  case (4 a b c rest)
  then have bound: "a < 256" "b < 256" "c < 256" and IH: "b64decode (b64encode rest) = rest" by simp_all
  have mid: "(a mod 4 * 16 + b div 16) mod 16 * 16 + (b mod 16 * 4 + c div 64) div 4 = b"
    using digit_split(3) [OF bound(2), of a] digit_split(5) [OF bound(3), of b] by simp
  note group = b64decode_group [OF digit_bounds(1) [OF bound(1,2)] digit_bounds(3) [OF bound(1,2)]
    digit_bounds(5) [OF bound(2,3)] digit_bounds(6) [OF bound(3,3)]]
  show ?case
    by (simp only: b64encode.simps group mid digit_split(1) [OF bound(2)] digit_split(4) [OF bound(3)] IH)
qed simp

subsection \<open>Timestamps\<close>

text \<open>The proleptic Gregorian calendar of \<^verbatim>\<open>datetime\<close>: the date of a day number, day 0 being
  0001-01-01.\<close>

definition leap_year :: "nat \<Rightarrow> bool" where
  "leap_year y \<longleftrightarrow> y mod 4 = 0 \<and> (y mod 100 \<noteq> 0 \<or> y mod 400 = 0)"

definition month_lengths :: "nat \<Rightarrow> nat list" where
  "month_lengths y = [31, if leap_year y then 29 else 28, 31, 30, 31, 30, 31, 31, 30, 31, 30, 31]"

fun month_of :: "nat list \<Rightarrow> nat \<Rightarrow> nat \<Rightarrow> nat \<times> nat" where
  "month_of [] m n = (m, n + 1)"
| "month_of (l # ls) m n = (if n < l then (m, n + 1) else month_of ls (m + 1) (n - l))"

definition date_of_day :: "nat \<Rightarrow> nat \<times> nat \<times> nat" where
  "date_of_day n =
     (let n400 = n div 146097; r400 = n mod 146097;
          n100 = r400 div 36524; r100 = r400 mod 36524;
          n4 = r100 div 1461; r4 = r100 mod 1461;
          n1 = r4 div 365; r1 = r4 mod 365;
          year = 400 * n400 + 100 * n100 + 4 * n4 + n1 + 1
      in if n1 = 4 \<or> n100 = 4 then (year - 1, 12, 31)
         else (year, month_of (month_lengths year) 1 r1))"

definition iso_datetime :: "datetime \<Rightarrow> pystr" where
  "iso_datetime t =
     (let us = nat (t mod 1000000); sec = nat (t div 1000000); day_sec = sec mod 86400
      in case date_of_day (sec div 86400) of (y, m, d) \<Rightarrow>
        pad_left 4 (digits_of y) @ u ''-'' @ pad_left 2 (digits_of m) @ u ''-'' @ pad_left 2 (digits_of d) @
        u ''T'' @ pad_left 2 (digits_of (day_sec div 3600)) @ u '':'' @
        pad_left 2 (digits_of (day_sec div 60 mod 60)) @ u '':'' @ pad_left 2 (digits_of (day_sec mod 60)) @
        u ''.'' @ pad_left 6 (digits_of us))"

definition format_utc :: "datetime \<Rightarrow> pystr" where
  "format_utc t = iso_datetime t @ u ''Z''"

subsection \<open>JSON strings\<close>

definition hex_digit :: "nat \<Rightarrow> nat" where
  "hex_digit n = (if n < 10 then 48 + n else 87 + n)"

definition json_u_escape :: "nat \<Rightarrow> pystr" where
  "json_u_escape c =
     u [CHR 0x5C, CHR ''u''] @
     [hex_digit (c div 4096 mod 16), hex_digit (c div 256 mod 16), hex_digit (c div 16 mod 16), hex_digit (c mod 16)]"

definition json_escape_char :: "nat \<Rightarrow> pystr" where
  "json_escape_char c =
     (if c = 0x22 then [0x5C, 0x22] else if c = 0x5C then [0x5C, 0x5C]
      else if c = 10 then [0x5C, 110] else if c = 13 then [0x5C, 114] else if c = 9 then [0x5C, 116]
      else if c = 12 then [0x5C, 102] else if c = 8 then [0x5C, 98]
      else if c < 32 then json_u_escape c else [c])"

definition json_escape_char_ascii :: "nat \<Rightarrow> pystr" where
  "json_escape_char_ascii c =
     (if c < 127 then json_escape_char c
      else if c < 0x10000 then json_u_escape c
      else json_u_escape (0xD800 + (c - 0x10000) div 1024) @ json_u_escape (0xDC00 + (c - 0x10000) mod 1024))"

definition json_string :: "pystr \<Rightarrow> pystr" where
  "json_string s = 0x22 # concat (map json_escape_char s) @ [0x22]"

definition json_string_ascii :: "pystr \<Rightarrow> pystr" where
  "json_string_ascii s = 0x22 # concat (map json_escape_char_ascii s) @ [0x22]"

lemma surrogate_ascii: "c < 128 \<Longrightarrow> \<not> surrogate c"
  by (simp add: surrogate_def)

lemma hex_digit_plain: "\<not> surrogate (hex_digit (n mod 16))"
proof -
  have "m < 16 \<Longrightarrow> \<not> surrogate (hex_digit m)" for m by (simp add: hex_digit_def surrogate_def)
  then show ?thesis by simp
qed

lemma json_u_escape_plain: "list_ex surrogate (json_u_escape c) = False"
  by (simp add: json_u_escape_def hex_digit_plain u_def) (simp add: surrogate_def)

lemma json_escape_surrogate: "list_ex surrogate (json_escape_char c) \<longleftrightarrow> surrogate c"
  using json_u_escape_plain [of c] by (simp add: json_escape_char_def) (auto simp: surrogate_def)

text \<open>\<^verbatim>\<open>json.dumps(..., ensure_ascii=False)\<close> lets a lone surrogate through, the ASCII form never does.\<close>

lemma json_string_encodable [simp]: "encodable (json_string s) = encodable s"
  by (induction s) (simp_all add: json_string_def encodable_def json_escape_surrogate surrogate_ascii)

lemma json_escape_ascii_plain: "list_ex surrogate (json_escape_char_ascii c) = False"
proof (cases "c < 127")
  case True
  then show ?thesis
    by (simp add: json_escape_char_ascii_def json_escape_surrogate) (simp add: surrogate_def)
qed (simp add: json_escape_char_ascii_def json_u_escape_plain)

lemma json_string_ascii_encodable [simp]: "encodable (json_string_ascii s)"
  by (induction s) (simp_all add: json_string_ascii_def encodable_def json_escape_ascii_plain surrogate_ascii)

end
