(* ===== verification/Json.thy ===== *)
theory Json
  imports Pyvalues
begin

text \<open>
  JSON values and the text \<^verbatim>\<open>json.dumps\<close> makes of them with its default \<^verbatim>\<open>ensure_ascii\<close>, for given
  separators. The row state is written in this form. The text is ASCII, and it determines the value: a value is read off
  the front of a text in one way only (\<open>json_det\<close>), which is what the lemmas are about. A float is carried by its text
  and is left out of that.
\<close>

subsection \<open>Values and their text\<close>

datatype json =
    JNull
  | JBool bool
  | JInt int
  | JFloat pystr
  | JStr pystr
  | JArr "json list"
  | JObj "(pystr \<times> json) list"

fun json_text :: "pystr \<Rightarrow> pystr \<Rightarrow> json \<Rightarrow> pystr"
  and json_texts :: "pystr \<Rightarrow> pystr \<Rightarrow> json list \<Rightarrow> pystr list"
  and json_members :: "pystr \<Rightarrow> pystr \<Rightarrow> (pystr \<times> json) list \<Rightarrow> pystr list" where
  "json_text item key JNull = u ''null''"
| "json_text item key (JBool b) = (if b then u ''true'' else u ''false'')"
| "json_text item key (JInt n) = str_of_int n"
| "json_text item key (JFloat t) = t"
| "json_text item key (JStr s) = json_string_ascii s"
| "json_text item key (JArr vs) = [91] @ join_with item (json_texts item key vs) @ [93]"
| "json_text item key (JObj d) = [123] @ join_with item (json_members item key d) @ [125]"
| "json_texts item key [] = []"
| "json_texts item key (v # vs) = json_text item key v # json_texts item key vs"
| "json_members item key [] = []"
| "json_members item key ((k, v) # d) = (json_string_ascii k @ key @ json_text item key v) # json_members item key d"

subsection \<open>Strings\<close>

text \<open>A code point that is not a surrogate; its escaped form can be read back.\<close>

definition scalar_value :: "nat \<Rightarrow> bool" where
  "scalar_value c \<longleftrightarrow> c < 0x110000 \<and> \<not> surrogate c"

definition unhex :: "nat \<Rightarrow> nat" where
  "unhex d = (if d < 58 then d - 48 else d - 87)"

definition unhex4 :: "pystr \<Rightarrow> nat" where
  "unhex4 ds = fold (\<lambda>d n. 16 * n + unhex d) (take 4 ds) 0"

definition unescape :: "pystr \<Rightarrow> nat \<times> pystr" where
  "unescape t =
     (if hd t \<noteq> 0x5C then (hd t, tl t)
      else let c = t ! 1; rest = drop 2 t in
        if c = 110 then (10, rest) else if c = 114 then (13, rest) else if c = 116 then (9, rest)
        else if c = 102 then (12, rest) else if c = 98 then (8, rest)
        else if c \<noteq> 117 then (c, rest)
        else let n = unhex4 rest in
          if surrogate n then (0x10000 + (n - 0xD800) * 1024 + (unhex4 (drop 6 rest) - 0xDC00), drop 10 rest)
          else (n, drop 4 rest))"

lemma unhex_hex [simp]: "n < 16 \<Longrightarrow> unhex (hex_digit n) = n"
  by (simp add: unhex_def hex_digit_def)

definition hex4 :: "nat \<Rightarrow> pystr" where
  "hex4 c = [hex_digit (c div 4096 mod 16), hex_digit (c div 256 mod 16), hex_digit (c div 16 mod 16), hex_digit (c mod 16)]"

lemma u_escape_eq: "json_u_escape c = 0x5C # 117 # hex4 c"
  by (simp add: json_u_escape_def u_def hex4_def)

lemma length_hex4 [simp]: "length (hex4 c) = 4"
  by (simp add: hex4_def)

lemma hex_value:
  fixes c :: nat
  assumes "c < 0x10000"
  shows "16 * (16 * (16 * (c div 4096 mod 16) + c div 256 mod 16) + c div 16 mod 16) + c mod 16 = c"
proof -
  have "c div 4096 = c div 16 div 16 div 16" "c div 256 = c div 16 div 16" by (simp_all flip: div_mult2_eq)
  moreover have "c div 16 div 16 div 16 < 16" using assms by (simp flip: div_mult2_eq)
  ultimately show ?thesis using div_mult_mod_eq [of c 16] div_mult_mod_eq [of "c div 16" 16] div_mult_mod_eq [of "c div 16 div 16" 16]
    by simp
qed

lemma unhex4_hex4 [simp]: "c < 0x10000 \<Longrightarrow> unhex4 (hex4 c @ x) = c"
  using hex_value [of c] by (simp add: unhex4_def hex4_def del: mod_less)

lemma unescape_simple:
  assumes "c < 127"
  shows "unescape (json_escape_char c @ x) = (c, x)"
proof -
  consider "c \<in> {0x22, 0x5C, 10, 13, 9, 12, 8}" | "c \<notin> {0x22, 0x5C, 10, 13, 9, 12, 8}" "c < 32"
    | "c \<notin> {0x22, 0x5C, 10, 13, 9, 12, 8}" "32 \<le> c" by linarith
  then show ?thesis
  proof cases
    case 1
    then show ?thesis by (elim insertE) (simp_all add: json_escape_char_def unescape_def)
  next
    case 2
    then have "json_escape_char c = json_u_escape c" by (simp add: json_escape_char_def)
    then show ?thesis using 2 by (simp add: unescape_def u_escape_eq surrogate_def Let_def)
  next
    case 3
    then have "json_escape_char c = [c]" by (simp add: json_escape_char_def)
    then show ?thesis using 3 by (simp add: unescape_def)
  qed
qed

lemma unescape_pair:
  assumes "surrogate a" and "a < 0x10000" and "b < 0x10000"
  shows "unescape (json_u_escape a @ json_u_escape b @ x) = (0x10000 + (a - 0xD800) * 1024 + (b - 0xDC00), x)"
  using assms by (simp add: unescape_def u_escape_eq Let_def)

lemma unescape_escape:
  assumes "scalar_value c"
  shows "unescape (json_escape_char_ascii c @ x) = (c, x)"
proof -
  consider "c < 127" | "127 \<le> c" "c < 0x10000" | "0x10000 \<le> c" by linarith
  then show ?thesis
  proof cases
    case 1
    then show ?thesis by (simp add: json_escape_char_ascii_def unescape_simple)
  next
    case 2
    then have "json_escape_char_ascii c = json_u_escape c" by (simp add: json_escape_char_ascii_def)
    then show ?thesis using 2 assms by (simp add: u_escape_eq unescape_def scalar_value_def Let_def)
  next
    case 3
    then obtain n where c: "c = 0x10000 + n" using le_Suc_ex by blast
    then have n: "n < 0x100000" using assms by (simp add: scalar_value_def)
    have "n div 1024 < 1024" "n mod 1024 < 1024" using n by (simp_all add: div_less_iff_less_mult)
    then have "surrogate (0xD800 + n div 1024)" by (simp add: surrogate_def)
    moreover have "json_escape_char_ascii c = json_u_escape (0xD800 + n div 1024) @ json_u_escape (0xDC00 + n mod 1024)"
      by (simp add: json_escape_char_ascii_def c)
    ultimately show ?thesis
      using unescape_pair [of "0xD800 + n div 1024" "0xDC00 + n mod 1024" x] \<open>n div 1024 < 1024\<close> \<open>n mod 1024 < 1024\<close> c
      by simp
  qed
qed

lemma escape_not_quote: "hd (json_escape_char_ascii c @ x) \<noteq> 0x22"
  by (simp add: json_escape_char_ascii_def json_escape_char_def u_escape_eq)

lemma escapes_det:
  assumes "\<forall>c \<in> set s. scalar_value c" and "\<forall>c \<in> set s'. scalar_value c"
    and "concat (map json_escape_char_ascii s) @ 0x22 # t = concat (map json_escape_char_ascii s') @ 0x22 # t'"
  shows "s = s' \<and> t = t'"
  using assms
proof (induction s arbitrary: s')
  case Nil
  then show ?case using escape_not_quote by (cases s') (simp_all, metis list.sel(1))
next
  case (Cons c s)
  show ?case
  proof (cases s')
    case Nil
    then show ?thesis using Cons.prems(3) escape_not_quote by simp (metis list.sel(1))
  next
    case s': (Cons c' s2)
    then have "unescape (json_escape_char_ascii c @ concat (map json_escape_char_ascii s) @ 0x22 # t) =
        unescape (json_escape_char_ascii c' @ concat (map json_escape_char_ascii s2) @ 0x22 # t')"
      using Cons.prems(3) by simp
    then have "c = c'" "concat (map json_escape_char_ascii s) @ 0x22 # t = concat (map json_escape_char_ascii s2) @ 0x22 # t'"
      using Cons.prems(1,2) s' by (simp_all add: unescape_escape)
    with Cons.IH [of s2] Cons.prems(1,2) s' show ?thesis by simp
  qed
qed

lemma string_det:
  assumes "\<forall>c \<in> set s. scalar_value c" and "\<forall>c \<in> set s'. scalar_value c"
    and "json_string_ascii s @ t = json_string_ascii s' @ t'"
  shows "s = s' \<and> t = t'"
  using escapes_det [OF assms(1,2), of t t'] assms(3) by (simp add: json_string_ascii_def)

subsection \<open>The text determines the value\<close>

fun plain_json :: "json \<Rightarrow> bool"
  and plain_jsons :: "json list \<Rightarrow> bool"
  and plain_members :: "(pystr \<times> json) list \<Rightarrow> bool" where
  "plain_json JNull = True"
| "plain_json (JBool b) = True"
| "plain_json (JInt n) = True"
| "plain_json (JFloat t) = False"
| "plain_json (JStr s) = (\<forall>c \<in> set s. scalar_value c)"
| "plain_json (JArr vs) = plain_jsons vs"
| "plain_json (JObj d) = plain_members d"
| "plain_jsons [] = True"
| "plain_jsons (v # vs) = (plain_json v \<and> plain_jsons vs)"
| "plain_members [] = True"
| "plain_members ((k, v) # d) = ((\<forall>c \<in> set k. scalar_value c) \<and> plain_json v \<and> plain_members d)"

text \<open>What follows a value in a text.\<close>

definition ends_value :: "pystr \<Rightarrow> bool" where
  "ends_value t \<longleftrightarrow> t = [] \<or> hd t \<in> {44, 93, 125}"

definition number_char :: "nat \<Rightarrow> bool" where
  "number_char c \<longleftrightarrow> c = 45 \<or> (48 \<le> c \<and> c < 58)"

lemma int_chars: "str_of_int n \<noteq> []" "\<forall>c \<in> set (str_of_int n). number_char c"
  using digits_of_digits by (auto simp: str_of_int_def number_char_def u_def)

lemma str_of_int_inject [simp]: "str_of_int m = str_of_int n \<longleftrightarrow> m = n"
proof -
  have "digits_of k \<noteq> 45 # x" for k x using digits_of_digits [of k] by auto
  moreover have "45 # x \<noteq> digits_of k" for k x using digits_of_digits [of k] by (metis list.set_intros(1) linorder_not_le numeral_le_iff semiring_norm)
  ultimately show ?thesis by (auto simp: str_of_int_def u_def)
qed

lemma takeWhile_front: "\<forall>c \<in> set s. P c \<Longrightarrow> t = [] \<or> \<not> P (hd t) \<Longrightarrow> takeWhile P (s @ t) = s"
  by (cases t) (simp_all add: takeWhile_tail)

lemma int_det:
  assumes "ends_value t" and "ends_value t'" and "str_of_int n @ t = str_of_int n' @ t'"
  shows "n = n' \<and> t = t'"
proof -
  have stop: "x = [] \<or> \<not> number_char (hd x)" if "ends_value x" for x
    using that by (auto simp: ends_value_def number_char_def)
  have front: "takeWhile number_char (str_of_int k @ x) = str_of_int k" if "ends_value x" for k x
    by (rule takeWhile_front [OF int_chars(2) stop [OF that]])
  have "str_of_int n = str_of_int n'" using front [OF assms(1), of n] front [OF assms(2), of n'] assms(3) by simp
  with assms(3) show ?thesis by (simp add: str_of_int_inject)
qed

text \<open>The constructors are told apart by the first character.\<close>

fun json_kind :: "json \<Rightarrow> nat" where
  "json_kind JNull = 110"
| "json_kind (JBool b) = (if b then 116 else 102)"
| "json_kind (JInt n) = 45"
| "json_kind (JFloat t) = 0"
| "json_kind (JStr s) = 34"
| "json_kind (JArr vs) = 91"
| "json_kind (JObj d) = 123"

lemma int_head: "number_char (hd (str_of_int n @ t))"
  using int_chars [of n] by (cases "str_of_int n") auto

lemma json_head:
  assumes "plain_json v"
  shows "(if number_char (hd (json_text item key v @ t)) then 45 else hd (json_text item key v @ t)) = json_kind v"
proof (cases v)
  case (JInt n)
  then show ?thesis by (simp add: int_head)
qed (use assms in \<open>simp_all add: u_def json_string_ascii_def number_char_def\<close>)

lemma same_kind:
  assumes "plain_json v" and "plain_json v'" and "json_text item key v @ t = json_text item key v' @ t'"
  shows "json_kind v = json_kind v'"
  using json_head [OF assms(1), of item key t] json_head [OF assms(2), of item key t'] unfolding assms(3) by simp

text \<open>The elements of an array or an object, each after a separator, up to the closing bracket.\<close>

definition tail_text :: "pystr \<Rightarrow> pystr list \<Rightarrow> pystr" where
  "tail_text item ts = concat (map ((@) item) ts)"

lemma join_tail: "ts \<noteq> [] \<Longrightarrow> item @ join_with item ts = tail_text item ts"
  by (induction item ts rule: join_with.induct) (simp_all add: tail_text_def)

lemma tail_text_simps [simp]: "tail_text item [] = []" "tail_text item (x # xs) = item @ x @ tail_text item xs"
  by (simp_all add: tail_text_def)

lemma tail_ends: "item = 44 # i \<Longrightarrow> c \<in> {93, 125} \<Longrightarrow> ends_value (tail_text item ts @ c # t)"
  by (cases ts) (auto simp: ends_value_def)

lemma join_det:
  assumes "item = 44 # i" and "c \<in> {93, 125}"
    and "join_with item ts @ c # t = join_with item ts' @ c # t'"
    and "\<forall>x \<in> set ts \<union> set ts'. x \<noteq> [] \<and> hd x \<notin> {93, 125}"
  shows "tail_text item ts @ c # t = tail_text item ts' @ c # t'"
proof -
  have first: "hd (join_with item (x # xs) @ z) = hd x" if "x \<noteq> []" for x xs z using that by (cases xs) simp_all
  consider "ts = []" "ts' = []" | y ys where "ts = []" "ts' = y # ys" | x xs where "ts = x # xs" "ts' = []" | "ts \<noteq> []" "ts' \<noteq> []"
    by (cases ts; cases ts') auto
  then show ?thesis
  proof cases
    case 1
    then show ?thesis using assms(3) by simp
  next
    case 2
    then show ?thesis using assms first [of y ys "c # t'"] by (metis UnI2 append_Nil join_with.simps(1) list.sel(1) list.set_intros(1))
  next
    case 3
    then show ?thesis using assms first [of x xs "c # t"] by (metis UnI1 append_Nil join_with.simps(1) list.sel(1) list.set_intros(1))
  next
    case 4
    then show ?thesis using assms(3) by (simp flip: join_tail)
  qed
qed

lemma texts_heads:
  "plain_jsons vs \<Longrightarrow> x \<in> set (json_texts item key vs) \<Longrightarrow> x \<noteq> [] \<and> hd x \<notin> {93, 125}"
  "plain_members d \<Longrightarrow> x \<in> set (json_members item key d) \<Longrightarrow> x \<noteq> [] \<and> hd x \<notin> {93, 125}"
proof -
  have v: "json_text item key v \<noteq> [] \<and> hd (json_text item key v) \<notin> {93, 125}" if "plain_json v" for v
  proof -
    have "json_text item key v \<noteq> []" using that int_chars(1) by (cases v) (simp_all add: u_def json_string_ascii_def)
    moreover have "json_kind v \<notin> {93, 125}" by (cases v) simp_all
    ultimately show ?thesis using json_head [OF that, of item key "[]"] by (auto simp: number_char_def split: if_splits)
  qed
  show "plain_jsons vs \<Longrightarrow> x \<in> set (json_texts item key vs) \<Longrightarrow> x \<noteq> [] \<and> hd x \<notin> {93, 125}"
    by (induction vs) (auto dest: v)
  show "plain_members d \<Longrightarrow> x \<in> set (json_members item key d) \<Longrightarrow> x \<noteq> [] \<and> hd x \<notin> {93, 125}"
    by (induction d) (auto simp: json_string_ascii_def)
qed

lemma json_det:
  assumes "item = 44 # i"
  shows "plain_json v \<Longrightarrow> plain_json v' \<Longrightarrow> ends_value t \<Longrightarrow> ends_value t' \<Longrightarrow>
      json_text item key v @ t = json_text item key v' @ t' \<Longrightarrow> v = v' \<and> t = t'"
    and "plain_jsons vs \<Longrightarrow> plain_jsons vs' \<Longrightarrow>
      tail_text item (json_texts item key vs) @ 93 # t = tail_text item (json_texts item key vs') @ 93 # t' \<Longrightarrow> vs = vs' \<and> t = t'"
    and "plain_members d \<Longrightarrow> plain_members d' \<Longrightarrow>
      tail_text item (json_members item key d) @ 125 # t = tail_text item (json_members item key d') @ 125 # t' \<Longrightarrow> d = d' \<and> t = t'"
proof (induction v and vs and d arbitrary: v' t t' and vs' t t' and d' t t' rule: plain_json_plain_jsons_plain_members.induct)
  case (6 vs)
  obtain vs' where v': "v' = JArr vs'"
    using same_kind [OF 6(2,3,6)] by (cases v') (simp_all split: if_splits)
  have plain: "plain_jsons vs" "plain_jsons vs'" using 6(2,3) v' by simp_all
  have "join_with item (json_texts item key vs) @ 93 # t = join_with item (json_texts item key vs') @ 93 # t'"
    using 6(6) v' by simp
  from join_det [OF assms _ this] texts_heads(1) [OF plain(1)] texts_heads(1) [OF plain(2)]
  have "tail_text item (json_texts item key vs) @ 93 # t = tail_text item (json_texts item key vs') @ 93 # t'" by blast
  from 6(1) [OF plain this] v' show ?case by simp
next
  case (7 d)
  obtain d' where v': "v' = JObj d'"
    using same_kind [OF 7(2,3,6)] by (cases v') (simp_all split: if_splits)
  have plain: "plain_members d" "plain_members d'" using 7(2,3) v' by simp_all
  have "join_with item (json_members item key d) @ 125 # t = join_with item (json_members item key d') @ 125 # t'"
    using 7(6) v' by simp
  from join_det [OF assms _ this] texts_heads(2) [OF plain(1)] texts_heads(2) [OF plain(2)]
  have "tail_text item (json_members item key d) @ 125 # t = tail_text item (json_members item key d') @ 125 # t'" by blast
  from 7(1) [OF plain this] v' show ?case by simp
next
  case (5 s)
  obtain s' where v': "v' = JStr s'"
    using same_kind [OF 5(1,2,5)] by (cases v') (simp_all split: if_splits)
  show ?case using string_det [of s s' t t'] 5(1,2,5) v' by simp
next
  case 1
  show ?case
    using same_kind [OF 1(1,2,5)] 1(5) by (cases v') (simp_all split: if_splits)
next
  case (2 b)
  show ?case
    using same_kind [OF 2(1,2,5)] 2(5) by (cases v') (simp_all split: if_splits)
next
  case (3 n)
  obtain n' where v': "v' = JInt n'"
    using same_kind [OF 3(1,2,5)] by (cases v') (simp_all split: if_splits)
  show ?case using int_det [of t t' n n'] 3(3-5) v' by simp
next
  case (9 v vs)
  show ?case
  proof (cases vs')
    case Nil
    then show ?thesis using 9(5) assms by simp
  next
    case (Cons v2 vs2)
    have plain: "plain_json v" "plain_json v2" "plain_jsons vs" "plain_jsons vs2" using 9(3,4) Cons by simp_all
    have "json_text item key v @ tail_text item (json_texts item key vs) @ 93 # t =
        json_text item key v2 @ tail_text item (json_texts item key vs2) @ 93 # t'" using 9(5) Cons by simp
    from 9(1) [OF plain(1,2) _ _ this] tail_ends [OF assms]
    have v: "v = v2" and "tail_text item (json_texts item key vs) @ 93 # t = tail_text item (json_texts item key vs2) @ 93 # t'"
      by simp_all
    from 9(2) [OF plain(3,4) this(2)] v Cons show ?thesis by simp
  qed
next
  case (11 k v d)
  show ?case
  proof (cases d')
    case Nil
    then show ?thesis using 11(5) assms by simp
  next
    case (Cons m d2)
    obtain k2 v2 where m: "m = (k2, v2)" by fastforce
    have plain: "\<forall>c \<in> set k. scalar_value c" "\<forall>c \<in> set k2. scalar_value c" "plain_json v" "plain_json v2"
      "plain_members d" "plain_members d2" using 11(3,4) Cons m by simp_all
    have "json_string_ascii k @ key @ json_text item key v @ tail_text item (json_members item key d) @ 125 # t =
        json_string_ascii k2 @ key @ json_text item key v2 @ tail_text item (json_members item key d2) @ 125 # t'"
      using 11(5) Cons m by simp
    from string_det [OF plain(1,2) this] have k: "k = k2"
      and rest: "json_text item key v @ tail_text item (json_members item key d) @ 125 # t =
        json_text item key v2 @ tail_text item (json_members item key d2) @ 125 # t'" by simp_all
    from 11(1) [OF plain(3,4) _ _ rest] tail_ends [OF assms] have v: "v = v2"
      and "tail_text item (json_members item key d) @ 125 # t = tail_text item (json_members item key d2) @ 125 # t'" by simp_all
    from 11(2) [OF plain(5,6) this(2)] k v Cons m show ?thesis by simp
  qed
next
  case 8
  show ?case using 8(3) assms by (cases vs') simp_all
next
  case 10
  show ?case using 10(3) assms by (cases d') auto
qed simp

lemma json_text_inject:
  assumes "item = 44 # i" and "plain_json v" and "plain_json v'"
  shows "json_text item key v = json_text item key v' \<longleftrightarrow> v = v'"
  using json_det(1) [OF assms, of "[]" "[]"] by (auto simp: ends_value_def)

subsection \<open>The text is ASCII\<close>

definition ascii :: "pystr \<Rightarrow> bool" where
  "ascii s \<longleftrightarrow> (\<forall>c \<in> set s. c < 128)"

lemma ascii_simps [simp]: "ascii []" "ascii (c # s) \<longleftrightarrow> c < 128 \<and> ascii s" "ascii (s @ t) \<longleftrightarrow> ascii s \<and> ascii t"
  by (auto simp: ascii_def)

lemma ascii_hex4 [simp]: "ascii (hex4 n)"
proof -
  have "hex_digit (k mod 16) < 128" for k
    using mod_less_divisor [of 16 k] by (auto simp: hex_digit_def simp del: mod_less_divisor)
  then show ?thesis by (simp add: hex4_def)
qed

lemma ascii_escape [simp]: "ascii (json_u_escape c)" "ascii (json_escape_char_ascii c)"
  by (simp_all add: json_escape_char_ascii_def json_escape_char_def u_escape_eq)

lemma ascii_string [simp]: "ascii (json_string_ascii s)"
  by (induction s) (simp_all add: json_string_ascii_def)

lemma ascii_int [simp]: "ascii (str_of_int n)"
  using int_chars(2) by (fastforce simp: ascii_def number_char_def)

lemma ascii_join: "ascii sep \<Longrightarrow> \<forall>s \<in> set ss. ascii s \<Longrightarrow> ascii (join_with sep ss)"
  by (induction sep ss rule: join_with.induct) simp_all

lemma json_ascii:
  assumes "ascii item" and "ascii key"
  shows "plain_json v \<Longrightarrow> ascii (json_text item key v)"
    and "plain_jsons vs \<Longrightarrow> \<forall>s \<in> set (json_texts item key vs). ascii s"
    and "plain_members d \<Longrightarrow> \<forall>s \<in> set (json_members item key d). ascii s"
  by (induction v and vs and d rule: plain_json_plain_jsons_plain_members.induct)
    (use assms in \<open>simp_all add: ascii_join u_def\<close>)

end
