(* ===== verification/Entity.thy ===== *)
theory Entity
  imports Config Json
begin

text \<open>
  The pure part of \<^verbatim>\<open>src/entity.py\<close>: the entity reference (its paths, its table name, its stored
  form), the partition encoded in a sequence number and the entity metadata with the
  sequence-number heuristic. A stored entity is the dictionary \<open>to_dict\<close> builds; since the row state
  can be edited by hand, \<open>from_dict\<close> reads an arbitrary dictionary and fails the way Python does.
\<close>

subsection \<open>Sequence numbers\<close>

definition partition_of :: "int \<Rightarrow> int" where
  "partition_of sequence_number = sequence_number div 2 ^ 48"

lemma partition_of_mono: "a \<le> b \<Longrightarrow> partition_of a \<le> partition_of b"
  by (simp add: partition_of_def zdiv_mono1)

lemma partition_of_zero_iff: "partition_of n = 0 \<longleftrightarrow> 0 \<le> n \<and> n < 2 ^ 48"
  by (auto simp: partition_of_def div_pos_pos_trivial zdiv_eq_0_iff)

subsection \<open>\<open>EntityRef\<close>\<close>

record entity_ref =
  ref_entity_type :: entity_type
  ref_queue_name :: "string option"
  ref_topic_name :: "string option"
  ref_subscription_name :: "string option"
  ref_sub_queue :: sub_queue

definition from_source :: "source_config \<Rightarrow> entity_ref" where
  "from_source src =
     \<lparr>ref_entity_type = entity_type src, ref_queue_name = queue_name src, ref_topic_name = topic_name src,
      ref_subscription_name = subscription_name src, ref_sub_queue = sub_queue src\<rparr>"

text \<open>A value of the stored entity dictionary: null, a string, or anything else.\<close>

datatype dict_value = DNone | DStr string | DOther json

type_synonym entity_dict = "(string \<times> dict_value) list"

definition opt_value :: "string option \<Rightarrow> dict_value" where
  "opt_value v = (case v of None \<Rightarrow> DNone | Some s \<Rightarrow> DStr s)"

definition to_dict :: "entity_ref \<Rightarrow> entity_dict" where
  "to_dict e =
     [(''entity_type'', DStr (entity_type_value (ref_entity_type e))),
      (''queue_name'', opt_value (ref_queue_name e)),
      (''topic_name'', opt_value (ref_topic_name e)),
      (''subscription_name'', opt_value (ref_subscription_name e)),
      (''sub_queue'', DStr (sub_queue_value (ref_sub_queue e)))]"

datatype dict_error = KeyError string | ValueError string

text \<open>The dataclass does not check its field types, so a value that is neither null nor a string stays
  in the field; the model keeps such an entity apart as \<open>None\<close> (a name that names no entity).\<close>

definition name_of :: "dict_value option \<Rightarrow> string option" where
  "name_of v = (case v of Some (DStr s) \<Rightarrow> Some s | _ \<Rightarrow> None)"

definition from_dict :: "entity_dict \<Rightarrow> dict_error + entity_ref" where
  "from_dict d =
     (case map_of d ''entity_type'' of
        None \<Rightarrow> Inl (KeyError ''entity_type'')
      | Some v \<Rightarrow>
          (case (case v of DStr s \<Rightarrow> parse_entity_type s | _ \<Rightarrow> None) of
             None \<Rightarrow> Inl (ValueError ''EntityType'')
           | Some t \<Rightarrow>
               (case (case map_of d ''sub_queue'' of
                        None \<Rightarrow> Some SQ_NONE
                      | Some (DStr s) \<Rightarrow> parse_sub_queue s
                      | Some _ \<Rightarrow> None) of
                  None \<Rightarrow> Inl (ValueError ''SubQueue'')
                | Some q \<Rightarrow> Inr \<lparr>ref_entity_type = t,
                    ref_queue_name = name_of (map_of d ''queue_name''),
                    ref_topic_name = name_of (map_of d ''topic_name''),
                    ref_subscription_name = name_of (map_of d ''subscription_name''),
                    ref_sub_queue = q\<rparr>)))"

lemma name_of_opt_value [simp]: "name_of (Some (opt_value v)) = v"
  by (cases v) (simp_all add: name_of_def opt_value_def)

lemma from_dict_to_dict [simp]: "from_dict (to_dict e) = Inr e"
  by (simp add: from_dict_def to_dict_def)

lemma to_dict_inject [simp]: "to_dict e = to_dict e' \<longleftrightarrow> e = e'"
  by (metis from_dict_to_dict sum.inject(2))

text \<open>An f-string renders a missing name as \<open>None\<close>.\<close>

definition str_of_name :: "string option \<Rightarrow> string" where
  "str_of_name v = (case v of None \<Rightarrow> ''None'' | Some s \<Rightarrow> s)"

definition or_empty :: "string option \<Rightarrow> string" where
  "or_empty v = (case v of None \<Rightarrow> [] | Some s \<Rightarrow> s)"

definition main_path :: "entity_ref \<Rightarrow> string" where
  "main_path e =
     (if ref_entity_type e = QUEUE then or_empty (ref_queue_name e)
      else str_of_name (ref_topic_name e) @ ''/Subscriptions/'' @ str_of_name (ref_subscription_name e))"

definition is_sub_queue :: "entity_ref \<Rightarrow> bool" where
  "is_sub_queue e \<longleftrightarrow> ref_sub_queue e \<noteq> SQ_NONE"

fun sub_queue_suffix :: "sub_queue \<Rightarrow> string" where
  "sub_queue_suffix SQ_NONE = []"
| "sub_queue_suffix SQ_DEAD_LETTER = ''/$DeadLetterQueue''"
| "sub_queue_suffix SQ_TRANSFER_DEAD_LETTER = ''/$Transfer/$DeadLetterQueue''"

definition entity_path :: "entity_ref \<Rightarrow> string" where
  "entity_path e = main_path e @ sub_queue_suffix (ref_sub_queue e)"

fun sub_queue_table_suffix :: "sub_queue \<Rightarrow> string list" where
  "sub_queue_table_suffix SQ_NONE = []"
| "sub_queue_table_suffix SQ_DEAD_LETTER = [''dead_letter'']"
| "sub_queue_table_suffix SQ_TRANSFER_DEAD_LETTER = [''transfer_dead_letter'']"

definition default_table_name :: "entity_ref \<Rightarrow> string" where
  "default_table_name e =
     (let parts = (if ref_entity_type e = QUEUE then [or_empty (ref_queue_name e)]
                   else [or_empty (ref_topic_name e), or_empty (ref_subscription_name e)])
                  @ sub_queue_table_suffix (ref_sub_queue e);
          name = strip_by (\<lambda>c. c = CHR ''_'' \<or> c = CHR ''-'')
                   (map (\<lambda>c. if table_char c then c else CHR ''_'') (join_with ''_'' parts))
      in if name = [] then ''messages'' else name)"

subsection \<open>\<open>EntityInfo\<close>\<close>

record entity_counts =
  count_active :: int
  count_dead_letter :: int
  count_scheduled :: int
  count_transfer_dead_letter :: int

text \<open>The lock duration is in microseconds; it is kept for information, nothing in the source reads it.\<close>

record entity_info =
  requires_session :: "bool option"
  partitioned :: "bool option"
  lock_duration :: int
  max_delivery_count :: int
  counts :: "entity_counts option"
  seen_partitioned :: bool

definition default_entity_info :: entity_info where
  "default_entity_info =
     \<lparr>requires_session = None, partitioned = None, lock_duration = 60 * 1000000, max_delivery_count = 10, counts = None,
      seen_partitioned = False\<rparr>"

definition note_sequence_number :: "int \<Rightarrow> entity_info \<Rightarrow> entity_info" where
  "note_sequence_number seq info =
     (if partition_of seq \<noteq> 0 then info\<lparr>seen_partitioned := True\<rparr> else info)"

definition is_partitioned :: "entity_info \<Rightarrow> bool" where
  "is_partitioned info \<longleftrightarrow> partitioned info = Some True \<or> seen_partitioned info"

definition orphan_guard_threshold :: "entity_info \<Rightarrow> int" where
  "orphan_guard_threshold info = max_delivery_count info - 1"

lemma is_partitioned_note [simp]:
  "is_partitioned (note_sequence_number seq info) \<longleftrightarrow> is_partitioned info \<or> partition_of seq \<noteq> 0"
  by (auto simp: is_partitioned_def note_sequence_number_def)

subsection \<open>The derived table name is always valid\<close>

lemma strip_by_subset: "set (strip_by p s) \<subseteq> set s"
  by (auto simp: strip_by_def dest!: set_dropWhileD)

lemma strip_by_ends:
  assumes "strip_by p s \<noteq> []"
  shows "\<not> p (hd (strip_by p s))" and "\<not> p (last (strip_by p s))"
proof -
  define t where "t = dropWhile p s"
  from assms have ne: "dropWhile p (rev t) \<noteq> []" by (simp add: strip_by_def t_def)
  show "\<not> p (last (strip_by p s))"
    using hd_dropWhile [OF ne] ne by (simp add: strip_by_def t_def [symmetric] last_rev)
  obtain zs where "rev t = zs @ dropWhile p (rev t)"
    by (metis takeWhile_dropWhile_id)
  then have "t = rev (dropWhile p (rev t)) @ rev zs" by (metis rev_append rev_rev_ident)
  then have "hd (strip_by p s) = hd t"
    using ne by (metis strip_by_def t_def hd_append2 rev_is_Nil_conv)
  moreover have "t \<noteq> []" using ne by auto
  ultimately show "\<not> p (hd (strip_by p s))"
    using hd_dropWhile [of p s] by (simp add: t_def)
qed

lemma table_char_alnum: "table_char c \<Longrightarrow> c \<noteq> CHR ''_'' \<Longrightarrow> c \<noteq> CHR ''-'' \<Longrightarrow> ascii_alnum (of_char c)"
  by (simp add: table_char_def)

text \<open>Every entity -- whatever characters its queue, topic or subscription name has, even with
  empty names -- gets a derived table name that the table-name rule of the configuration accepts.\<close>

theorem default_table_name_valid: "plain_table_name (default_table_name e)"
proof -
  define raw where "raw = (if ref_entity_type e = QUEUE then [or_empty (ref_queue_name e)]
      else [or_empty (ref_topic_name e), or_empty (ref_subscription_name e)])
      @ sub_queue_table_suffix (ref_sub_queue e)"
  define chars where "chars = map (\<lambda>c. if table_char c then c else CHR ''_'') (join_with ''_'' raw)"
  let ?edge = "\<lambda>c. c = CHR ''_'' \<or> c = CHR ''-''"
  define name where "name = strip_by ?edge chars"
  have name: "default_table_name e = (if name = [] then ''messages'' else name)"
    by (simp add: default_table_name_def raw_def chars_def name_def Let_def)
  have "table_char (CHR ''_'')" by (simp add: table_char_def)
  then have "list_all table_char chars" by (auto simp: chars_def list_all_iff)
  then have chars_ok: "\<forall>c \<in> set name. table_char c"
    using strip_by_subset [of ?edge chars] by (auto simp: name_def list_all_iff)
  show ?thesis
  proof (cases "name = []")
    case True
    with name show ?thesis by (simp add: plain_table_name_def table_char_def ascii_alnum_def)
  next
    case False
    then have "\<not> ?edge (hd name)" "\<not> ?edge (last name)"
      using strip_by_ends [of ?edge chars] by (simp_all add: name_def)
    with False chars_ok name show ?thesis
      by (simp add: plain_table_name_def table_char_alnum list_all_iff)
  qed
qed

text \<open>The stored form of an entity reference loses nothing: reading back what \<open>to_dict\<close> wrote
  gives the same reference, so two references have the same stored form only if they are equal.\<close>

theorem entity_ref_roundtrip:
  "from_dict (to_dict e) = Inr e \<and> (to_dict e = to_dict e' \<longleftrightarrow> e = e')"
  by simp

end
