(* ===== verification/Row_State.thy ===== *)
theory Row_State
  imports Ranges Entity "HOL-Library.List_Lexorder" "HOL-Library.Char_ord" "HOL-Library.Multiset"
begin

text \<open>
  The rest of \<^verbatim>\<open>src/state.py\<close>: the row state with its pending-commit set, and
  \<open>PendingSetBuilder\<close>, which accumulates the deferrals of a run. The code keys the builder's groups
  by the sorted-key JSON of the entity's dictionary; that text and the dictionary determine each
  other (\<open>entity_key_inject\<close> of the theory \<open>State_Json\<close>), so the model uses the dictionary itself as the key.

  The specification of the builder is a map from (entity, session, partition) to the set of sequence
  numbers pending there (\<open>pending_of\<close>); the locale \<open>pending_store\<close> states it for the components that
  defer messages, and is interpreted on the builder.
\<close>

subsection \<open>The stored state\<close>

record pending_group =
  g_session_id :: "string option"
  g_partition :: int
  g_max_body_bytes :: int
  g_ranges :: "range list"

definition iter_sequence_numbers :: "pending_group \<Rightarrow> int list" where
  "iter_sequence_numbers g = iter_ranges (g_ranges g)"

definition group_count :: "pending_group \<Rightarrow> int" where
  "group_count g = count_ranges (g_ranges g)"

definition group_tail :: "int \<Rightarrow> pending_group \<Rightarrow> pending_group" where
  "group_tail first g =
     g\<lparr>g_ranges := map (\<lambda>(lo, hi). (max lo first, hi))
                     (filter (\<lambda>(lo, hi). first \<le> hi) (merge_ranges (g_ranges g)))\<rparr>"

record pending_entity =
  pe_entity :: entity_dict
  pe_groups :: "pending_group list"
  pe_deferred_at_utc :: pystr

definition pe_entity_ref :: "pending_entity \<Rightarrow> dict_error + entity_ref" where
  "pe_entity_ref pe = from_dict (pe_entity pe)"

record peek_cursor =
  cursor_entity_path :: string
  last_sequence_number :: int

record flatten_column =
  path_sha1 :: pystr
  column :: pystr

record extractor_state =
  version :: int
  pending_commit :: "pending_entity list"
  state_peek_cursor :: "peek_cursor option"
  flatten_columns :: "flatten_column list"

definition empty_state :: extractor_state where
  "empty_state =
     \<lparr>version = 1, pending_commit = [], state_peek_cursor = None, flatten_columns = []\<rparr>"

text \<open>
  \<open>ExtractorState.load\<close>. \<open>raw\<close> is the state file's dictionary (absent or empty on a first run),
  \<open>raw_version\<close> its \<open>version\<close> entry if it has one, and \<open>model_validate\<close> pydantic's validation, which
  returns the typed state or the details of a validation error.
\<close>

datatype load_error = UnsupportedStateVersion int | MalformedState string

definition load_state ::
    "('raw \<Rightarrow> int option) \<Rightarrow> ('raw \<Rightarrow> string + extractor_state) \<Rightarrow> 'raw option \<Rightarrow> load_error + extractor_state"
where
  "load_state raw_version model_validate raw =
     (case raw of
        None \<Rightarrow> Inr empty_state
      | Some r \<Rightarrow>
          (let v = (case raw_version r of None \<Rightarrow> 1 | Some v \<Rightarrow> v) in
           if v \<noteq> 1 then Inl (UnsupportedStateVersion v)
           else case model_validate r of
                  Inl details \<Rightarrow> Inl (MalformedState details)
                | Inr s \<Rightarrow> Inr s))"

subsection \<open>\<open>PendingSetBuilder\<close>\<close>

record group_draft =
  seqs :: "int set"
  carried :: "range list"
  draft_max_body_bytes :: int

definition empty_draft :: group_draft where
  "empty_draft = \<lparr>seqs = {}, carried = [], draft_max_body_bytes = 0\<rparr>"

definition draft_ranges :: "group_draft \<Rightarrow> range list" where
  "draft_ranges d = merge_ranges (carried d @ to_ranges (sorted_list_of_set (seqs d)))"

type_synonym group_key = "entity_dict \<times> string option \<times> int"

record pending_builder =
  b_entities :: "(entity_dict \<times> entity_dict) list"
  b_groups :: "(group_key \<times> group_draft) list"

definition empty_builder :: pending_builder where
  "empty_builder = \<lparr>b_entities = [], b_groups = []\<rparr>"

text \<open>\<open>dict.setdefault\<close>, and an update in place of the value a key (then) has.\<close>

definition setdefault :: "'k \<Rightarrow> 'v \<Rightarrow> ('k \<times> 'v) list \<Rightarrow> ('k \<times> 'v) list" where
  "setdefault k v d = (case map_of d k of None \<Rightarrow> AList.update k v d | Some _ \<Rightarrow> d)"

definition note_entity :: "entity_ref \<Rightarrow> pending_builder \<Rightarrow> entity_dict \<times> pending_builder" where
  "note_entity e b =
     (let key = to_dict e in (key, b\<lparr>b_entities := setdefault key (to_dict e) (b_entities b)\<rparr>))"

definition update_draft :: "group_key \<Rightarrow> (group_draft \<Rightarrow> group_draft) \<Rightarrow> pending_builder \<Rightarrow> pending_builder" where
  "update_draft key f b = b\<lparr>b_groups := AList.update key (f (dget (b_groups b) key empty_draft)) (b_groups b)\<rparr>"

definition builder_add ::
    "entity_ref \<Rightarrow> int \<Rightarrow> string option \<Rightarrow> int \<Rightarrow> pending_builder \<Rightarrow> pending_builder" where
  "builder_add entity sequence_number session_id body_bytes b =
     (case note_entity entity b of (entity_key, b) \<Rightarrow>
        update_draft (entity_key, session_id, partition_of sequence_number)
          (\<lambda>draft. draft\<lparr>seqs := insert sequence_number (seqs draft),
                         draft_max_body_bytes := max (draft_max_body_bytes draft) body_bytes\<rparr>) b)"

definition carry_group :: "entity_dict \<Rightarrow> pending_group \<Rightarrow> pending_builder \<Rightarrow> pending_builder" where
  "carry_group entity_key grp b =
     update_draft (entity_key, g_session_id grp, g_partition grp)
       (\<lambda>draft. draft\<lparr>carried := merge_ranges (carried draft @ g_ranges grp),
                      draft_max_body_bytes := max (draft_max_body_bytes draft) (g_max_body_bytes grp)\<rparr>) b"

definition carry_entity :: "pending_entity \<Rightarrow> pending_builder \<Rightarrow> dict_error + pending_builder" where
  "carry_entity pe b =
     sbind (pe_entity_ref pe) (\<lambda>entity.
       (case note_entity entity b of (entity_key, b) \<Rightarrow>
          Inr (fold (carry_group entity_key) (pe_groups pe) b)))"

fun builder_carry :: "pending_entity list \<Rightarrow> pending_builder \<Rightarrow> dict_error + pending_builder" where
  "builder_carry [] b = Inr b"
| "builder_carry (pe # pes) b = sbind (carry_entity pe b) (builder_carry pes)"

definition group_of_draft :: "group_key \<Rightarrow> group_draft \<Rightarrow> pending_group" where
  "group_of_draft key draft =
     \<lparr>g_session_id = fst (snd key), g_partition = snd (snd key),
      g_max_body_bytes = draft_max_body_bytes draft, g_ranges = draft_ranges draft\<rparr>"

definition by_entity :: "pending_builder \<Rightarrow> (entity_dict \<times> pending_group list) list" where
  "by_entity b =
     foldl (\<lambda>acc (key, draft). AList.update (fst key) (dget acc (fst key) [] @ [group_of_draft key draft]) acc)
       [] (b_groups b)"

definition group_order :: "pending_group \<Rightarrow> string \<times> int" where
  "group_order g = (or_empty (g_session_id g), g_partition g)"

definition builder_build :: "pystr \<Rightarrow> pending_builder \<Rightarrow> pending_entity list" where
  "builder_build deferred_at_utc b =
     map (\<lambda>(entity_key, groups).
            \<lparr>pe_entity = dget (b_entities b) entity_key [], pe_groups = sort_key group_order groups,
             pe_deferred_at_utc = deferred_at_utc\<rparr>)
       (by_entity b)"

definition builder_count :: "pending_builder \<Rightarrow> int" where
  "builder_count b = sum_list (map (\<lambda>(key, draft). count_ranges (draft_ranges draft)) (b_groups b))"

subsection \<open>What the builder holds\<close>

definition draft_members :: "group_draft \<Rightarrow> int set" where
  "draft_members d = seqs d \<union> cover (carried d)"

definition pending_of :: "pending_builder \<Rightarrow> group_key \<Rightarrow> int set" where
  "pending_of b key = draft_members (dget (b_groups b) key empty_draft)"

definition largest_body :: "pending_builder \<Rightarrow> group_key \<Rightarrow> int" where
  "largest_body b key = draft_max_body_bytes (dget (b_groups b) key empty_draft)"

definition stored_pending :: "pending_entity list \<Rightarrow> group_key \<Rightarrow> int set" where
  "stored_pending pes key =
     (\<Union>pe \<in> set pes. \<Union>g \<in> set (pe_groups pe).
        if (pe_entity pe, g_session_id g, g_partition g) = key then cover (g_ranges g) else {})"

definition stored_count :: "pending_entity list \<Rightarrow> int" where
  "stored_count pes = sum_list (map (\<lambda>pe. sum_list (map group_count (pe_groups pe))) pes)"

definition builder_ok :: "pending_builder \<Rightarrow> bool" where
  "builder_ok b \<longleftrightarrow>
     distinct (map fst (b_groups b)) \<and>
     (\<forall>(key, d) \<in> set (b_groups b). finite (seqs d) \<and> fst key \<in> fst ` set (b_entities b)) \<and>
     (\<forall>(key, d) \<in> set (b_entities b). d = key \<and> (\<exists>e. key = to_dict e))"

lemma draft_members_empty [simp]: "draft_members empty_draft = {}"
  by (simp add: draft_members_def empty_draft_def)

lemma cover_draft_ranges: "finite (seqs d) \<Longrightarrow> cover (draft_ranges d) = draft_members d"
  by (auto simp: draft_ranges_def draft_members_def merge_ranges_correct cover_to_ranges)

lemma dget_update [simp]: "dget (AList.update k v d) k' w = (if k' = k then v else dget d k' w)"
  by (simp add: dget_def update_conv)

lemma setdefault_simps [simp]:
  "map_of (setdefault k v d) k' = (if k' = k \<and> map_of d k = None then Some v else map_of d k')"
  by (auto simp: setdefault_def update_conv split: option.split)

lemma note_entity_simps [simp]:
  "fst (note_entity e b) = to_dict e"
  "b_groups (snd (note_entity e b)) = b_groups b"
  "b_entities (snd (note_entity e b)) = setdefault (to_dict e) (to_dict e) (b_entities b)"
  by (simp_all add: note_entity_def Let_def)

lemma update_draft_simps [simp]:
  "b_entities (update_draft key f b) = b_entities b"
  "dget (b_groups (update_draft key f b)) k empty_draft =
     (if k = key then f (dget (b_groups b) key empty_draft) else dget (b_groups b) k empty_draft)"
  by (simp_all add: update_draft_def)

lemma builder_ok_empty [simp]: "builder_ok empty_builder"
  by (simp add: builder_ok_def empty_builder_def)

lemma set_AList_update_subset: "set (AList.update k v d) \<subseteq> insert (k, v) (set d)"
  by (induction d) auto

lemma set_setdefault: "set (setdefault k v d) = (if k \<in> fst ` set d then set d else insert (k, v) (set d))"
proof (cases "map_of d k")
  case None
  then have "AList.update k v d = d @ [(k, v)]" by (induction d) (auto split: if_splits)
  with None have "setdefault k v d = d @ [(k, v)]" by (simp add: setdefault_def)
  moreover have "k \<notin> fst ` set d" using None by (rule map_of_eq_None_iff [THEN iffD1])
  ultimately show ?thesis by simp
next
  case (Some w)
  then show ?thesis by (auto simp: setdefault_def dest: map_of_SomeD intro: rev_image_eqI)
qed

lemma builder_ok_dget: "builder_ok b \<Longrightarrow> finite (seqs (dget (b_groups b) key empty_draft))"
  by (auto simp: builder_ok_def dget_def empty_draft_def dest: map_of_SomeD split: option.split)

lemma builder_ok_update_draft:
  assumes ok: "builder_ok b" and "fst key \<in> fst ` set (b_entities b)"
    and "\<And>d. finite (seqs d) \<Longrightarrow> finite (seqs (f d))"
  shows "builder_ok (update_draft key f b)"
proof -
  let ?d = "f (dget (b_groups b) key empty_draft)"
  have "finite (seqs ?d)" using assms(3) builder_ok_dget [OF ok] .
  moreover have "set (AList.update key ?d (b_groups b)) \<subseteq> insert (key, ?d) (set (b_groups b))"
    by (rule set_AList_update_subset)
  ultimately show ?thesis
    using ok assms(2) by (auto simp: builder_ok_def update_draft_def distinct_update)
qed

lemma builder_ok_note_entity: "builder_ok b \<Longrightarrow> builder_ok (snd (note_entity e b))"
  by (auto simp: builder_ok_def set_setdefault)

lemma noted_entity: "to_dict e \<in> fst ` set (b_entities (snd (note_entity e b)))"
  by (auto simp: set_setdefault)

subsection \<open>The operations on what the builder holds\<close>

lemma pending_of_empty [simp]: "pending_of empty_builder key = {}"
  by (simp add: pending_of_def empty_builder_def dget_def)

lemma builder_add_eq:
  "builder_add entity n sid bytes b =
     update_draft (to_dict entity, sid, partition_of n)
       (\<lambda>draft. draft\<lparr>seqs := insert n (seqs draft),
                      draft_max_body_bytes := max (draft_max_body_bytes draft) bytes\<rparr>)
       (snd (note_entity entity b))"
  by (simp add: builder_add_def split_beta)

lemma builder_ok_add: "builder_ok b \<Longrightarrow> builder_ok (builder_add entity n sid bytes b)"
  unfolding builder_add_eq
  by (rule builder_ok_update_draft) (auto intro: builder_ok_note_entity simp: noted_entity [simplified])

lemma pending_of_add:
  "pending_of (builder_add entity n sid bytes b) key =
     (if key = (to_dict entity, sid, partition_of n) then insert n (pending_of b key) else pending_of b key)"
  by (simp add: builder_add_eq pending_of_def draft_members_def)

lemma largest_body_add:
  "largest_body (builder_add entity n sid bytes b) key =
     (if key = (to_dict entity, sid, partition_of n) then max (largest_body b key) bytes else largest_body b key)"
  by (simp add: builder_add_eq largest_body_def)

lemma pending_of_carry_group:
  "pending_of (carry_group ek g b) key =
     pending_of b key \<union> (if key = (ek, g_session_id g, g_partition g) then cover (g_ranges g) else {})"
  by (auto simp: carry_group_def pending_of_def draft_members_def merge_ranges_correct)

lemma largest_body_carry_group: "largest_body b key \<le> largest_body (carry_group ek g b) key"
  by (simp add: carry_group_def largest_body_def)

lemma builder_ok_carry_group:
  "builder_ok b \<Longrightarrow> ek \<in> fst ` set (b_entities b) \<Longrightarrow> builder_ok (carry_group ek g b)"
  unfolding carry_group_def by (rule builder_ok_update_draft) simp_all

lemma entities_carry_group [simp]: "b_entities (carry_group ek g b) = b_entities b"
  by (simp add: carry_group_def)

lemma fold_carry_group:
  assumes "builder_ok b" and "ek \<in> fst ` set (b_entities b)"
  shows "builder_ok (fold (carry_group ek) gs b) \<and>
    pending_of (fold (carry_group ek) gs b) key = pending_of b key \<union>
      (\<Union>g \<in> set gs. if (ek, g_session_id g, g_partition g) = key then cover (g_ranges g) else {})"
  using assms
proof (induction gs arbitrary: b)
  case (Cons g gs)
  have "builder_ok (carry_group ek g b)" using Cons.prems by (rule builder_ok_carry_group)
  with Cons.IH [of "carry_group ek g b"] Cons.prems(2) show ?case
    by (simp add: pending_of_carry_group Un_assoc eq_commute [of key])
qed simp

lemma carry_entity_Inr:
  "carry_entity pe b = Inr b' \<longleftrightarrow>
     (\<exists>e. pe_entity_ref pe = Inr e \<and>
          b' = fold (carry_group (to_dict e)) (pe_groups pe) (snd (note_entity e b)))"
  by (auto simp: carry_entity_def sbind_Inr_iff split_beta)

text \<open>The dictionaries a run stores are the ones \<open>to_dict\<close> writes.\<close>

definition well_stored :: "pending_entity \<Rightarrow> bool" where
  "well_stored pe \<longleftrightarrow> (\<exists>e. pe_entity pe = to_dict e)"

lemma carry_entity_correct:
  assumes "builder_ok b" and "well_stored pe"
  shows "\<exists>b'. carry_entity pe b = Inr b' \<and> builder_ok b' \<and>
    (\<forall>key. pending_of b' key = pending_of b key \<union> stored_pending [pe] key)"
proof -
  from assms(2) obtain e where e: "pe_entity pe = to_dict e" by (auto simp: well_stored_def)
  let ?b = "snd (note_entity e b)"
  have "pending_of ?b = pending_of b" by (simp add: pending_of_def fun_eq_iff)
  then show ?thesis
    using fold_carry_group [OF builder_ok_note_entity [OF assms(1)] noted_entity, of e "pe_groups pe"] e
    by (auto simp: carry_entity_Inr pe_entity_ref_def stored_pending_def)
qed

lemma stored_pending_Cons:
  "stored_pending (pe # pes) key = stored_pending [pe] key \<union> stored_pending pes key"
  by (simp add: stored_pending_def)

lemma builder_carry_correct:
  assumes "builder_ok b" and "list_all well_stored pes"
  shows "\<exists>b'. builder_carry pes b = Inr b' \<and> builder_ok b' \<and>
    (\<forall>key. pending_of b' key = pending_of b key \<union> stored_pending pes key)"
  using assms
proof (induction pes arbitrary: b)
  case Nil
  then show ?case by (simp add: stored_pending_def)
next
  case (Cons pe pes)
  then obtain b1 where b1: "carry_entity pe b = Inr b1" "builder_ok b1"
    "\<And>key. pending_of b1 key = pending_of b key \<union> stored_pending [pe] key"
    using carry_entity_correct [of b pe] by auto
  with Cons.IH [of b1] Cons.prems(2) obtain b2 where "builder_carry pes b1 = Inr b2" "builder_ok b2"
    "\<And>key. pending_of b2 key = pending_of b1 key \<union> stored_pending pes key" by auto
  with b1 show ?case using stored_pending_Cons [of pe pes] by (auto simp: Un_assoc)
qed

subsection \<open>The built list\<close>

definition entity_groups :: "(group_key \<times> group_draft) list \<Rightarrow> entity_dict \<Rightarrow> pending_group list" where
  "entity_groups gs ek = map (\<lambda>(key, d). group_of_draft key d) (filter (\<lambda>(key, d). fst key = ek) gs)"

lemma by_entity_fold:
  "distinct (map fst acc) \<Longrightarrow>
   distinct (map fst (foldl (\<lambda>acc (key, draft).
       AList.update (fst key) (dget acc (fst key) [] @ [group_of_draft key draft]) acc) acc gs)) \<and>
   (\<forall>ek. dget (foldl (\<lambda>acc (key, draft).
       AList.update (fst key) (dget acc (fst key) [] @ [group_of_draft key draft]) acc) acc gs) ek []
       = dget acc ek [] @ entity_groups gs ek)"
proof (induction gs arbitrary: acc)
  case Nil
  then show ?case by (simp add: entity_groups_def)
next
  case (Cons kd gs)
  obtain key d where kd: "kd = (key, d)" by (cases kd)
  let ?acc = "AList.update (fst key) (dget acc (fst key) [] @ [group_of_draft key d]) acc"
  have "distinct (map fst ?acc)" using Cons.prems by (simp add: distinct_update)
  with Cons.IH [of ?acc] kd show ?case by (auto simp: entity_groups_def)
qed

lemma by_entity_keys:
  "fst ` set (foldl (\<lambda>acc (key, draft).
       AList.update (fst key) (dget acc (fst key) [] @ [group_of_draft key draft]) acc) acc gs) =
   fst ` set acc \<union> (fst \<circ> fst) ` set gs"
proof (induction gs arbitrary: acc)
  case (Cons kd gs)
  then show ?case
    by (cases kd) (auto simp: update_conv simp flip: dom_map_of_conv_image_fst)
qed simp

lemma by_entity_entry:
  "(ek, groups) \<in> set (by_entity b) \<longleftrightarrow>
     groups = entity_groups (b_groups b) ek \<and> ek \<in> (fst \<circ> fst) ` set (b_groups b)"
proof -
  have d: "distinct (map fst (by_entity b))"
    and g: "dget (by_entity b) ek [] = entity_groups (b_groups b) ek"
    using by_entity_fold [of "[]" "b_groups b"] by (simp_all add: by_entity_def dget_def)
  have k: "ek \<in> fst ` set (by_entity b) \<longleftrightarrow> ek \<in> (fst \<circ> fst) ` set (b_groups b)"
    using by_entity_keys [of "[]" "b_groups b"] by (simp add: by_entity_def)
  show ?thesis
  proof (cases "map_of (by_entity b) ek")
    case None
    then have "ek \<notin> fst ` set (by_entity b)" by (rule map_of_eq_None_iff [THEN iffD1])
    with k show ?thesis by (force simp: image_iff)
  next
    case (Some w)
    with g have "w = entity_groups (b_groups b) ek" by (simp add: dget_def)
    moreover have "(ek, groups) \<in> set (by_entity b) \<longleftrightarrow> groups = w"
      using Some d by (metis eq_key_imp_eq_value map_of_SomeD)
    moreover have "ek \<in> fst ` set (by_entity b)" using Some by (force dest: map_of_SomeD)
    ultimately show ?thesis using k by simp
  qed
qed

lemma known_entities:
  assumes "builder_ok b" and "ek \<in> fst ` set (b_entities b)"
  shows "dget (b_entities b) ek [] = ek"
proof -
  have "map_of (b_entities b) ek \<noteq> None" using assms(2) by (simp add: map_of_eq_None_iff)
  then obtain v where "map_of (b_entities b) ek = Some v" by blast
  moreover from this have "v = ek" using assms(1) by (auto simp: builder_ok_def dest: map_of_SomeD)
  ultimately show ?thesis by (simp add: dget_def)
qed

definition built_entity :: "pystr \<Rightarrow> pending_builder \<Rightarrow> entity_dict \<Rightarrow> pending_entity" where
  "built_entity t b ek =
     \<lparr>pe_entity = ek, pe_groups = sort_key group_order (entity_groups (b_groups b) ek), pe_deferred_at_utc = t\<rparr>"

lemma set_build:
  assumes "builder_ok b"
  shows "set (builder_build t b) = built_entity t b ` (fst \<circ> fst) ` set (b_groups b)"
proof -
  let ?f = "\<lambda>(ek, groups). \<lparr>pe_entity = dget (b_entities b) ek [],
      pe_groups = sort_key group_order groups, pe_deferred_at_utc = t\<rparr>"
  have known: "dget (b_entities b) ek [] = ek" if "ek \<in> (fst \<circ> fst) ` set (b_groups b)" for ek
  proof (rule known_entities [OF assms])
    from that obtain key d where "(key, d) \<in> set (b_groups b)" "ek = fst key" by auto
    with assms show "ek \<in> fst ` set (b_entities b)" unfolding builder_ok_def by blast
  qed
  have "set (by_entity b) = (\<lambda>ek. (ek, entity_groups (b_groups b) ek)) ` (fst \<circ> fst) ` set (b_groups b)"
  proof (rule set_eqI)
    fix p
    show "p \<in> set (by_entity b) \<longleftrightarrow>
        p \<in> (\<lambda>ek. (ek, entity_groups (b_groups b) ek)) ` (fst \<circ> fst) ` set (b_groups b)"
      using by_entity_entry [of "fst p" "snd p" b] by (cases p) (auto simp: image_iff)
  qed
  then have "set (builder_build t b) =
      (\<lambda>ek. ?f (ek, entity_groups (b_groups b) ek)) ` (fst \<circ> fst) ` set (b_groups b)"
    by (simp add: builder_build_def image_image)
  also have "\<dots> = built_entity t b ` (fst \<circ> fst) ` set (b_groups b)"
    by (rule image_cong [OF refl]) (simp add: known built_entity_def)
  finally show ?thesis .
qed

lemma entity_groups_members:
  "g \<in> set (entity_groups gs ek) \<longleftrightarrow> (\<exists>key d. (key, d) \<in> set gs \<and> fst key = ek \<and> g = group_of_draft key d)"
  by (force simp: entity_groups_def)

lemma pending_of_entry:
  assumes "builder_ok b" and "(key, d) \<in> set (b_groups b)"
  shows "pending_of b key = cover (draft_ranges d)"
proof -
  have "map_of (b_groups b) key = Some d" using assms by (simp add: builder_ok_def)
  moreover have "finite (seqs d)" using assms by (auto simp: builder_ok_def)
  ultimately show ?thesis by (simp add: pending_of_def dget_def cover_draft_ranges)
qed

lemma stored_pending_build:
  assumes "builder_ok b"
  shows "stored_pending (builder_build t b) key = pending_of b key"
proof -
  have "x \<in> stored_pending (builder_build t b) key \<longleftrightarrow>
      (\<exists>d. (key, d) \<in> set (b_groups b) \<and> x \<in> cover (draft_ranges d))" for x
  proof -
    have "x \<in> stored_pending (builder_build t b) key \<longleftrightarrow>
        (\<exists>ek \<in> (fst \<circ> fst) ` set (b_groups b). \<exists>g \<in> set (entity_groups (b_groups b) ek).
           (ek, g_session_id g, g_partition g) = key \<and> x \<in> cover (g_ranges g))"
      unfolding stored_pending_def set_build [OF assms] by (simp add: built_entity_def) blast
    also have "\<dots> \<longleftrightarrow> (\<exists>key' d. (key', d) \<in> set (b_groups b) \<and>
           (fst key', g_session_id (group_of_draft key' d), g_partition (group_of_draft key' d)) = key \<and>
           x \<in> cover (g_ranges (group_of_draft key' d)))"
      (is "?lhs \<longleftrightarrow> ?rhs")
    proof
      assume ?lhs
      then obtain ek g where g: "g \<in> set (entity_groups (b_groups b) ek)"
        "(ek, g_session_id g, g_partition g) = key" "x \<in> cover (g_ranges g)" by blast
      then obtain key' d where "(key', d) \<in> set (b_groups b)" "fst key' = ek" "g = group_of_draft key' d"
        unfolding entity_groups_members by blast
      with g show ?rhs by blast
    next
      assume ?rhs
      then obtain key' d where entry: "(key', d) \<in> set (b_groups b)" and
        match: "(fst key', g_session_id (group_of_draft key' d), g_partition (group_of_draft key' d)) = key"
        "x \<in> cover (g_ranges (group_of_draft key' d))" by blast
      have "group_of_draft key' d \<in> set (entity_groups (b_groups b) (fst key'))"
        unfolding entity_groups_members using entry by blast
      moreover have "fst key' \<in> (fst \<circ> fst) ` set (b_groups b)"
        using imageI [OF entry, of "fst \<circ> fst"] by simp
      ultimately show ?lhs using match by (intro bexI conjI)
    qed
    finally show ?thesis by (cases key) (auto simp: group_of_draft_def)
  qed
  note members = this
  show ?thesis
  proof (cases "map_of (b_groups b) key")
    case None
    then have "key \<notin> fst ` set (b_groups b)" by (rule map_of_eq_None_iff [THEN iffD1])
    then have "stored_pending (builder_build t b) key = {}" using members by force
    with None show ?thesis by (simp add: pending_of_def dget_def)
  next
    case (Some d)
    have entry: "(key, d') \<in> set (b_groups b) \<longleftrightarrow> d' = d" for d'
      using assms map_of_SomeD [OF Some] eq_key_imp_eq_value [of "b_groups b" key]
      by (auto simp: builder_ok_def)
    then have "stored_pending (builder_build t b) key = cover (draft_ranges d)"
      by (auto simp: members)
    with pending_of_entry [OF assms, of key d] entry show ?thesis by simp
  qed
qed

subsection \<open>Counting\<close>

definition groups_total :: "(entity_dict \<times> pending_group list) list \<Rightarrow> int" where
  "groups_total acc = sum_list (map (\<lambda>(ek, gs). sum_list (map group_count gs)) acc)"

lemma dget_Cons: "dget ((k', v) # d) k w = (if k = k' then v else dget d k w)"
  by (simp add: dget_def)

lemma groups_total_append:
  "groups_total (AList.update k (dget acc k [] @ [g]) acc) = groups_total acc + group_count g"
  by (induction acc) (auto simp: groups_total_def dget_Cons dget_def)

lemma groups_total_by_entity:
  "groups_total (foldl (\<lambda>acc (key, draft).
       AList.update (fst key) (dget acc (fst key) [] @ [group_of_draft key draft]) acc) acc gs) =
   groups_total acc + sum_list (map (\<lambda>(key, d). group_count (group_of_draft key d)) gs)"
  by (induction gs arbitrary: acc) (auto simp: groups_total_append)

lemma sum_list_sort_key: "sum_list (map f (sort_key k xs)) = (sum_list (map f xs) :: int)"
  by (metis mset_map mset_sort sum_mset_sum_list)

lemma stored_count_build: "stored_count (builder_build t b) = builder_count b"
proof -
  have "stored_count (builder_build t b) = groups_total (by_entity b)"
    by (simp add: stored_count_def builder_build_def groups_total_def comp_def case_prod_unfold sum_list_sort_key)
  also have "\<dots> = builder_count b"
    by (simp add: by_entity_def groups_total_by_entity)
      (simp add: groups_total_def builder_count_def group_of_draft_def group_count_def)
  finally show ?thesis .
qed

subsection \<open>The interface the deferring components use\<close>

text \<open>
  The settler and the run orchestration see the builder only as a store of pending sequence numbers:
  adding one, carrying stored entities, and what is stored in the end.
\<close>

locale pending_store =
  fixes valid :: "'b \<Rightarrow> bool"
    and add :: "entity_ref \<Rightarrow> int \<Rightarrow> string option \<Rightarrow> int \<Rightarrow> 'b \<Rightarrow> 'b"
    and build :: "pystr \<Rightarrow> 'b \<Rightarrow> pending_entity list"
    and pending :: "'b \<Rightarrow> group_key \<Rightarrow> int set"
  assumes valid_add: "valid b \<Longrightarrow> valid (add e n sid bytes b)"
    and pending_add: "pending (add e n sid bytes b) key =
        (if key = (to_dict e, sid, partition_of n) then insert n (pending b key) else pending b key)"
    and stored_build: "valid b \<Longrightarrow> stored_pending (build t b) key = pending b key"
begin

lemma valid_add_all: "valid b \<Longrightarrow> valid (fold (\<lambda>(n, sid, bytes). add e n sid bytes) ms b)"
  by (induction ms arbitrary: b) (auto simp: valid_add)

lemma pending_add_all:
  "pending (fold (\<lambda>(n, sid, bytes). add e n sid bytes) ms b) key = pending b key \<union>
     {n. \<exists>sid bytes. (n, sid, bytes) \<in> set ms \<and> key = (to_dict e, sid, partition_of n)}"
  by (induction ms arbitrary: b) (auto simp: pending_add split: if_splits)

lemma stored_after_adds:
  "valid b \<Longrightarrow>
   stored_pending (build t (fold (\<lambda>(n, sid, bytes). add e n sid bytes) ms b)) key = pending b key \<union>
     {n. \<exists>sid bytes. (n, sid, bytes) \<in> set ms \<and> key = (to_dict e, sid, partition_of n)}"
  by (simp add: stored_build valid_add_all pending_add_all)

end

interpretation pending: pending_store builder_ok builder_add builder_build pending_of
  by unfold_locales (simp_all add: builder_ok_add pending_of_add stored_pending_build)

subsection \<open>The tail of a group\<close>

lemma cover_group_tail: "cover (g_ranges (group_tail first g)) = {n \<in> cover (g_ranges g). first \<le> n}"
proof -
  have "cover (map (\<lambda>(lo, hi). (max lo first, hi)) (filter (\<lambda>(lo, hi). first \<le> hi) rs)) =
      {n \<in> cover rs. first \<le> n}" for rs
    by (force simp: cover_def)
  then show ?thesis by (simp add: group_tail_def merge_ranges_correct)
qed

lemma iter_group_tail: "iter_sequence_numbers (group_tail first g) =
    filter (\<lambda>n. first \<le> n) (iter_sequence_numbers g)"
proof (rule strict_sorted_determined)
  show "sorted_wrt (<) (iter_sequence_numbers (group_tail first g))"
    by (simp add: iter_sequence_numbers_def iter_ranges_props)
  show "sorted_wrt (<) (filter (\<lambda>n. first \<le> n) (iter_sequence_numbers g))"
    by (simp add: iter_sequence_numbers_def iter_ranges_props sorted_wrt_filter)
  show "set (iter_sequence_numbers (group_tail first g)) =
      set (filter (\<lambda>n. first \<le> n) (iter_sequence_numbers g))"
    by (simp add: iter_sequence_numbers_def iter_ranges_props cover_group_tail)
qed

lemma group_count_iter: "group_count g = int (length (iter_sequence_numbers g))"
  by (simp add: group_count_def iter_sequence_numbers_def rng.count_iter)

lemma group_count_nonneg [simp]: "0 \<le> group_count g"
  by (simp add: group_count_iter)

lemma group_tail_frame [simp]:
  "g_session_id (group_tail n g) = g_session_id g"
  "g_partition (group_tail n g) = g_partition g"
  "g_max_body_bytes (group_tail n g) = g_max_body_bytes g"
  by (simp_all add: group_tail_def)

subsection \<open>Properties\<close>

text \<open>Deferring a list of messages of one entity, one \<open>add\<close> per message in order.\<close>

definition builder_add_all ::
    "entity_ref \<Rightarrow> (int \<times> string option \<times> int) list \<Rightarrow> pending_builder \<Rightarrow> pending_builder" where
  "builder_add_all e ms b = fold (\<lambda>(n, sid, bytes). builder_add e n sid bytes) ms b"


definition sample_ref :: entity_ref where
  "sample_ref = \<lparr>ref_entity_type = QUEUE, ref_queue_name = Some ''orders'', ref_topic_name = None,
     ref_subscription_name = None, ref_sub_queue = SQ_NONE\<rparr>"


lemma well_stored_build: "builder_ok b \<Longrightarrow> list_all well_stored (builder_build t b)"
  unfolding list_all_iff set_build
proof
  fix pe
  assume ok: "builder_ok b" and "pe \<in> built_entity t b ` (fst \<circ> fst) ` set (b_groups b)"
  then obtain key d where "(key, d) \<in> set (b_groups b)" and pe: "pe = built_entity t b (fst key)" by auto
  with ok have "fst key \<in> fst ` set (b_entities b)" unfolding builder_ok_def by blast
  with ok show "well_stored pe" by (auto simp: pe builder_ok_def well_stored_def built_entity_def)
qed

text \<open>C23: carrying a stored pending set into the next run's builder loses and invents nothing: the set
  a run built is read back without an error and merged key by key, so a chain of defer-commit runs
  keeps every sequence number that was not committed.\<close>

theorem carry_of_build:
  assumes "builder_ok b" and "builder_ok b'"
  shows "\<exists>b''. builder_carry (builder_build t b') b = Inr b'' \<and> builder_ok b'' \<and>
               (\<forall>key. pending_of b'' key = pending_of b key \<union> pending_of b' key)"
  using builder_carry_correct [OF assms(1) well_stored_build [OF assms(2), of t]]
  by (simp add: stored_pending_build [OF assms(2)])

theorem carry_of_build_witness:
  "\<exists>b''. builder_carry (builder_build [] (builder_add sample_ref 7 None 10 empty_builder)) empty_builder = Inr b'' \<and>
         pending_of b'' (to_dict sample_ref, None, 0) = {7}"
proof -
  have "builder_ok (builder_add sample_ref 7 None 10 empty_builder)"
    by (simp add: builder_ok_add)
  from carry_of_build [OF builder_ok_empty this, of "[]"] obtain b'' where
    "builder_carry (builder_build [] (builder_add sample_ref 7 None 10 empty_builder)) empty_builder = Inr b''"
    "pending_of b'' (to_dict sample_ref, None, 0) =
       pending_of empty_builder (to_dict sample_ref, None, 0) \<union>
       pending_of (builder_add sample_ref 7 None 10 empty_builder) (to_dict sample_ref, None, 0)"
    by blast
  moreover have "partition_of 7 = 0" by (simp add: partition_of_def)
  ultimately show ?thesis
    by (intro exI [of _ b'']) (simp add: pending_of_add)
qed

text \<open>C24: a group interrupted at \<open>first\<close> keeps exactly the numbers from \<open>first\<close> on, in the same order,
  and its count is how many are left.\<close>

theorem group_tail_correct:
  "iter_sequence_numbers (group_tail first g) = filter (\<lambda>n. first \<le> n) (iter_sequence_numbers g) \<and>
   group_count (group_tail first g) = int (length (filter (\<lambda>n. first \<le> n) (iter_sequence_numbers g)))"
  by (simp add: iter_group_tail group_count_iter)

text \<open>A state the loader accepts can still crash the run with an error that is not a user error: a
  stored pending entity without an \<open>entity_type\<close> raises \<open>KeyError\<close> when it is carried or committed,
  although the loader is documented to turn a malformed state into a user-fixable one.\<close>

theorem hand_edited_entity_key_error:
  "carry_entity \<lparr>pe_entity = [], pe_groups = gs, pe_deferred_at_utc = t\<rparr> b = Inl (KeyError ''entity_type'')"
  by (simp add: carry_entity_def pe_entity_ref_def from_dict_def)

end
