(* ===== verification/Message.thy ===== *)
theory Message
  imports Pyvalues Entity
begin

text \<open>
  What the source reads of a received or peeked Service Bus message, and the Python library functions
  it calls that are tables or third-party algorithms rather than code of the repository.

  \<^item> The record \<open>message\<close> has a field for every attribute the source reads. Reading \<^verbatim>\<open>body\<close>
    can raise, so it is a result: the left injection carries the class name of the exception.
  \<^item> The record \<open>pylib\<close> collects the codec registry, \<^verbatim>\<open>bytes.decode\<close>, NFKD normalisation,
    SHA-1, \<^verbatim>\<open>json.loads\<close> and \<^verbatim>\<open>str()\<close> of bytes and datetimes. Every definition that uses
    one of them takes the record as its argument. A failing library call is the class name of the
    exception it raises.
\<close>

record pylib =
  codec_lookup :: "pystr \<Rightarrow> string + bool"
  codec_decode :: "pystr \<Rightarrow> bool \<Rightarrow> nat list \<Rightarrow> string + pystr"
  utf8_replace :: "nat list \<Rightarrow> pystr"
  nfkd :: "pystr \<Rightarrow> pystr"
  combining :: "nat \<Rightarrow> bool"
  sha1_hex :: "nat list \<Rightarrow> pystr"
  json_loads :: "pystr \<Rightarrow> string + pyval"
  object_str :: "scalar \<Rightarrow> pystr"
  float_instant :: "pystr \<Rightarrow> string + int option"
  decimal_is_zero :: "pystr \<Rightarrow> bool"

text \<open>\<open>codec_lookup\<close> is \<^verbatim>\<open>codecs.lookup(name)\<close>, with the codec's \<^verbatim>\<open>_is_text_encoding\<close>;
  \<open>codec_decode cs True\<close> decodes with \<^verbatim>\<open>errors="strict"\<close>, \<open>codec_decode cs False\<close> with
  \<^verbatim>\<open>errors="replace"\<close>; \<open>json_loads\<close> parses with \<^verbatim>\<open>parse_float=Decimal\<close>;
  \<open>float_instant\<close> is \<open>Inr None\<close> for a float equal to 0, \<open>Inr (Some us)\<close> the microseconds of
  \<^verbatim>\<open>timedelta(milliseconds=value)\<close>, and \<open>Inl\<close> the class of the exception that call raises.\<close>

datatype message_state = ST_ACTIVE | ST_DEFERRED | ST_SCHEDULED

fun state_name :: "message_state \<Rightarrow> string" where
  "state_name ST_ACTIVE = ''ACTIVE''"
| "state_name ST_DEFERRED = ''DEFERRED''"
| "state_name ST_SCHEDULED = ''SCHEDULED''"

record amqp_header =
  hdr_durable :: "bool option"
  hdr_priority :: scalar
  hdr_first_acquirer :: "bool option"

record amqp_properties =
  prop_user_id :: scalar
  prop_content_encoding :: scalar
  prop_creation_time :: scalar
  prop_absolute_expiry_time :: scalar
  prop_group_sequence :: scalar
  prop_reply_to_group_id :: scalar

record message =
  m_seq :: int
  m_session_id :: "string option"
  m_delivery_count :: "int option"
  m_state :: message_state
  m_enqueued_time :: "datetime option"
  m_scheduled_time :: "datetime option"
  m_expires_at :: "datetime option"
  m_locked_until :: "datetime option"
  m_body_type :: string
  m_body :: "string + pyval"
  m_content_type :: "pystr option"
  m_message_id :: scalar
  m_enqueued_seq :: scalar
  m_partition_key :: scalar
  m_subject :: scalar
  m_correlation_id :: scalar
  m_reply_to :: scalar
  m_reply_to_session_id :: scalar
  m_to :: scalar
  m_application_properties :: pyval
  m_ttl_seconds :: "pystr option"
  m_dead_letter_reason :: scalar
  m_dead_letter_description :: scalar
  m_dead_letter_source :: scalar
  m_annotations :: pyval
  m_header :: "amqp_header option"
  m_properties :: "amqp_properties option"

text \<open>\<^verbatim>\<open>message.delivery_count or 0\<close>.\<close>

definition delivery_count :: "message \<Rightarrow> int" where
  "delivery_count m = (case m_delivery_count m of None \<Rightarrow> 0 | Some n \<Rightarrow> n)"

text \<open>\<^verbatim>\<open>str(value)\<close> of a scalar.\<close>

fun py_str :: "pylib \<Rightarrow> scalar \<Rightarrow> pystr" where
  "py_str lib SNone = u ''None''"
| "py_str lib (SBool b) = (if b then u ''True'' else u ''False'')"
| "py_str lib (SInt i) = str_of_int i"
| "py_str lib (SFloat t) = t"
| "py_str lib (SDecimal t) = t"
| "py_str lib (SStr s) = s"
| "py_str lib (SUuid t) = t"
| "py_str lib (SOther t) = t"
| "py_str lib s = object_str lib s"

text \<open>Messages and a library for the applied theorems: a plain active message, and a library whose
  codecs read bytes as code points.\<close>

definition sample_message :: message where
  "sample_message = \<lparr>m_seq = 7, m_session_id = None, m_delivery_count = Some 1, m_state = ST_ACTIVE,
     m_enqueued_time = Some 1000, m_scheduled_time = None, m_expires_at = None, m_locked_until = Some 60000000,
     m_body_type = ''DATA'', m_body = Inr (PyList [Sc (SBytes [104, 105])]), m_content_type = None,
     m_message_id = SStr (u ''m1''), m_enqueued_seq = SInt 0, m_partition_key = SNone, m_subject = SNone,
     m_correlation_id = SNone, m_reply_to = SNone, m_reply_to_session_id = SNone, m_to = SNone,
     m_application_properties = Sc SNone, m_ttl_seconds = None, m_dead_letter_reason = SNone,
     m_dead_letter_description = SNone, m_dead_letter_source = SNone, m_annotations = Sc SNone,
     m_header = None, m_properties = None\<rparr>"

definition sample_lib :: pylib where
  "sample_lib = \<lparr>codec_lookup = (\<lambda>c. Inr True), codec_decode = (\<lambda>c strict bs. Inr bs),
     utf8_replace = (\<lambda>bs. bs), nfkd = (\<lambda>s. s), combining = (\<lambda>c. False), sha1_hex = (\<lambda>bs. bs),
     json_loads = (\<lambda>s. Inr (Sc (SStr s))), object_str = (\<lambda>s. []),
     float_instant = (\<lambda>t. Inr None), decimal_is_zero = (\<lambda>t. False)\<rparr>"

end
