(* ===== verification/Body.thy ===== *)
theory Body
  imports Message
begin

text \<open>
  \<^verbatim>\<open>src/body.py\<close> up to the flatten registry: charset selection, the JSON encoder, flattening a
  JSON value into a map from leaf paths to cells, and \<open>encode_body\<close>.

  A failure of \<open>encode_body\<close> is either one of the three exceptions the unreadable-body policy
  handles, with the class name of its cause, or any other exception, which ends the batch.
  The spec of flattening is \<open>leaf_at\<close>: walk the keys of a path from the root.
\<close>

subsection \<open>Charset\<close>

definition CELL_LIMIT_BYTES :: nat where
  "CELL_LIMIT_BYTES = 16 * 1024 * 1024"

fun split_on :: "nat \<Rightarrow> pystr \<Rightarrow> pystr list" where
  "split_on c [] = [[]]"
| "split_on c (x # xs) =
     (if x = c then [] # split_on c xs
      else case split_on c xs of [] \<Rightarrow> [[x]] | p # ps \<Rightarrow> (x # p) # ps)"

definition space_cp :: "nat \<Rightarrow> bool" where
  "space_cp c \<longleftrightarrow> (9 \<le> c \<and> c \<le> 13) \<or> (28 \<le> c \<and> c \<le> 32) \<or> c = 0x85 \<or> c = 0xA0 \<or> c = 0x1680 \<or>
     (0x2000 \<le> c \<and> c \<le> 0x200A) \<or> c \<in> {0x2028, 0x2029, 0x202F, 0x205F, 0x3000}"

definition lower_cp :: "nat \<Rightarrow> nat" where
  "lower_cp c = (if 65 \<le> c \<and> c \<le> 90 then c + 32 else c)"

fun charset_param :: "pylib \<Rightarrow> pystr list \<Rightarrow> string + pystr" where
  "charset_param lib [] = Inr (u ''utf-8'')"
| "charset_param lib (part # parts) =
     (let key = takeWhile (\<lambda>c. c \<noteq> 0x3D) part; val = drop 1 (dropWhile (\<lambda>c. c \<noteq> 0x3D) part)
      in if map lower_cp (strip_by space_cp key) \<noteq> u ''charset'' then charset_param lib parts
         else let charset = strip_by (\<lambda>c. c = 0x27) (strip_by (\<lambda>c. c = 0x22) (strip_by space_cp val))
              in case codec_lookup lib charset of
                   Inl e \<Rightarrow> if e = ''LookupError'' then Inr (u ''utf-8'') else Inl e
                 | Inr is_text \<Rightarrow> if is_text then Inr charset else Inr (u ''utf-8''))"

definition charset_of :: "pylib \<Rightarrow> pystr option \<Rightarrow> string + pystr" where
  "charset_of lib content_type =
     (case content_type of None \<Rightarrow> Inr (u ''utf-8'')
      | Some t \<Rightarrow> if t = [] then Inr (u ''utf-8'') else charset_param lib (drop 1 (split_on 0x3B t)))"

subsection \<open>JSON\<close>

fun jsonable_scalar :: "pylib \<Rightarrow> scalar \<Rightarrow> scalar" where
  "jsonable_scalar lib (SBytes bs) = SStr (utf8_replace lib bs)"
| "jsonable_scalar lib (SDatetime t) = SStr (format_utc t)"
| "jsonable_scalar lib (SUuid t) = SStr t"
| "jsonable_scalar lib (SOther t) = SStr t"
| "jsonable_scalar lib s = s"

fun to_jsonable :: "pylib \<Rightarrow> pyval \<Rightarrow> pyval"
  and jsonable_list :: "pylib \<Rightarrow> pyval list \<Rightarrow> pyval list"
  and jsonable_items :: "pylib \<Rightarrow> (scalar \<times> pyval) list \<Rightarrow> (scalar \<times> pyval) list \<Rightarrow> (scalar \<times> pyval) list" where
  "to_jsonable lib (Sc s) = Sc (jsonable_scalar lib s)"
| "to_jsonable lib (PyList xs) = PyList (jsonable_list lib xs)"
| "to_jsonable lib (PyDict d) = PyDict (jsonable_items lib d [])"
| "jsonable_list lib [] = []"
| "jsonable_list lib (x # xs) = to_jsonable lib x # jsonable_list lib xs"
| "jsonable_items lib [] acc = acc"
| "jsonable_items lib ((k, v) # d) acc =
     jsonable_items lib d (AList.update (jsonable_scalar lib k) (to_jsonable lib v) acc)"

fun json_key :: "pylib \<Rightarrow> scalar \<Rightarrow> pystr" where
  "json_key lib (SStr s) = s"
| "json_key lib (SBool b) = (if b then u ''true'' else u ''false'')"
| "json_key lib SNone = u ''null''"
| "json_key lib s = py_str lib s"

definition json_float :: "pystr \<Rightarrow> pystr" where
  "json_float t =
     (if t = u ''nan'' then u ''NaN'' else if t = u ''inf'' then u ''Infinity''
      else if t = u ''-inf'' then u ''-Infinity'' else t)"

fun json_scalar :: "pylib \<Rightarrow> scalar \<Rightarrow> pystr" where
  "json_scalar lib SNone = u ''null''"
| "json_scalar lib (SBool b) = (if b then u ''true'' else u ''false'')"
| "json_scalar lib (SInt i) = str_of_int i"
| "json_scalar lib (SFloat t) = json_float t"
| "json_scalar lib (SDecimal t) = t"
| "json_scalar lib (SStr s) = json_string s"
| "json_scalar lib s = json_string (py_str lib s)"

fun encode_json :: "pylib \<Rightarrow> pyval \<Rightarrow> pystr"
  and encode_json_list :: "pylib \<Rightarrow> pyval list \<Rightarrow> pystr list"
  and encode_json_items :: "pylib \<Rightarrow> (scalar \<times> pyval) list \<Rightarrow> pystr list" where
  "encode_json lib (Sc s) = json_scalar lib s"
| "encode_json lib (PyList xs) = u ''['' @ join_with (u '','') (encode_json_list lib xs) @ u '']''"
| "encode_json lib (PyDict d) = [0x7B] @ join_with (u '','') (encode_json_items lib d) @ [0x7D]"
| "encode_json_list lib [] = []"
| "encode_json_list lib (x # xs) = encode_json lib x # encode_json_list lib xs"
| "encode_json_items lib [] = []"
| "encode_json_items lib ((k, v) # d) =
     (json_string (json_key lib k) @ u '':'' @ encode_json lib v) # encode_json_items lib d"

definition compact_json :: "pylib \<Rightarrow> pyval \<Rightarrow> pystr" where
  "compact_json lib v = encode_json lib (to_jsonable lib v)"

subsection \<open>Flattening\<close>

type_synonym path = "pystr list"
type_synonym field_map = "(path \<times> pystr) list"

fun leaf_cell :: "pylib \<Rightarrow> pyval \<Rightarrow> pystr" where
  "leaf_cell lib (Sc (SBool b)) = (if b then u ''true'' else u ''false'')"
| "leaf_cell lib (Sc SNone) = []"
| "leaf_cell lib (Sc (SStr s)) = s"
| "leaf_cell lib (Sc (SInt i)) = str_of_int i"
| "leaf_cell lib (Sc (SDecimal t)) = t"
| "leaf_cell lib v = compact_json lib v"

definition dict_update :: "('k \<times> 'v) list \<Rightarrow> ('k \<times> 'v) list \<Rightarrow> ('k \<times> 'v) list" where
  "dict_update d e = foldl (\<lambda>acc kv. AList.update (fst kv) (snd kv) acc) d e"

fun flatten_leaf :: "pylib \<Rightarrow> pyval \<Rightarrow> path \<Rightarrow> field_map"
  and flatten_items :: "pylib \<Rightarrow> (scalar \<times> pyval) list \<Rightarrow> path \<Rightarrow> field_map \<Rightarrow> field_map" where
  "flatten_leaf lib (PyDict []) p = [(p, [0x7B, 0x7D])]"
| "flatten_leaf lib (PyDict (kv # d)) p = flatten_items lib (kv # d) p []"
| "flatten_leaf lib (Sc s) p = [(p, leaf_cell lib (Sc s))]"
| "flatten_leaf lib (PyList xs) p = [(p, leaf_cell lib (PyList xs))]"
| "flatten_items lib [] p acc = acc"
| "flatten_items lib ((k, v) # d) p acc =
     flatten_items lib d p (dict_update acc (flatten_leaf lib v (p @ [py_str lib k])))"

fun flatten_value :: "pylib \<Rightarrow> pyval \<Rightarrow> field_map" where
  "flatten_value lib (PyDict d) = flatten_items lib d [] []"
| "flatten_value lib v = [([], compact_json lib v)]"

text \<open>The spec: the leaf found by walking the keys of a path. A dictionary whose keys have pairwise
  different texts, at every level, is well keyed; every value \<^verbatim>\<open>json.loads\<close> returns is.\<close>

fun leaf_at :: "pylib \<Rightarrow> pyval \<Rightarrow> path \<Rightarrow> pyval option"
  and leaf_in :: "pylib \<Rightarrow> (scalar \<times> pyval) list \<Rightarrow> pystr \<Rightarrow> path \<Rightarrow> pyval option" where
  "leaf_at lib (PyDict d) [] = (if d = [] then Some (PyDict d) else None)"
| "leaf_at lib (PyDict d) (k # p) = leaf_in lib d k p"
| "leaf_at lib (Sc s) p = (if p = [] then Some (Sc s) else None)"
| "leaf_at lib (PyList xs) p = (if p = [] then Some (PyList xs) else None)"
| "leaf_in lib [] k p = None"
| "leaf_in lib ((k', v) # d) k p = (if py_str lib k' = k then leaf_at lib v p else leaf_in lib d k p)"

fun well_keyed :: "pylib \<Rightarrow> pyval \<Rightarrow> bool" and well_keyed_items :: "pylib \<Rightarrow> (scalar \<times> pyval) list \<Rightarrow> bool" where
  "well_keyed lib (PyDict d) \<longleftrightarrow> well_keyed_items lib d"
| "well_keyed lib (Sc s) \<longleftrightarrow> True"
| "well_keyed lib (PyList xs) \<longleftrightarrow> True"
| "well_keyed_items lib [] \<longleftrightarrow> True"
| "well_keyed_items lib ((k, v) # d) \<longleftrightarrow>
     py_str lib k \<notin> (py_str lib \<circ> fst) ` set d \<and> well_keyed lib v \<and> well_keyed_items lib d"

lemma dict_update_simps [simp]:
  "dict_update d [] = d"
  "dict_update d (kv # e) = dict_update (AList.update (fst kv) (snd kv) d) e"
  by (simp_all add: dict_update_def)

lemma map_of_dict_update:
  "distinct (map fst e) \<Longrightarrow> map_of (dict_update d e) k = (map_of d ++ map_of e) k"
proof (induction e arbitrary: d)
  case (Cons kv e)
  then have "map_of e (fst kv) = None" by (simp add: map_of_eq_None_iff)
  then show ?case
    using Cons by (cases "k = fst kv") (auto simp: map_add_def split: option.split)
qed simp

lemma distinct_dict_update: "distinct (map fst d) \<Longrightarrow> distinct (map fst (dict_update d e))"
  by (induction e arbitrary: d) (auto simp: distinct_update)

lemma keys_dict_update: "fst ` set (dict_update d e) = fst ` set d \<union> fst ` set e"
  by (induction e arbitrary: d) (auto simp: dom_update)

lemma leaf_in_absent: "k \<notin> (py_str lib \<circ> fst) ` set d \<Longrightarrow> leaf_in lib d k p = None"
  by (induction d) (auto simp: image_iff)

lemma single_leaf:
  assumes "\<And>p. leaf_at lib v p = (if p = [] then Some v else None)"
  shows "(if take (length q) r = q \<and> length q \<le> length r
      then map_option f (leaf_at lib v (drop (length q) r)) else None) = (if r = q then Some (f v) else None)"
proof (cases "r = q")
  case False
  then have "take (length q) r = q \<Longrightarrow> drop (length q) r \<noteq> []"
    by (metis append_take_drop_id append_Nil2)
  then show ?thesis using False by (auto simp: assms)
qed (simp add: assms)

lemma leaf_at_empty: "leaf_at lib (PyDict []) p = (if p = [] then Some (PyDict []) else None)"
  by (cases p) auto

lemma dict_leaf:
  assumes "d \<noteq> []"
  shows "(if take (length q) r = q \<and> length q \<le> length r
      then map_option f (leaf_at lib (PyDict d) (drop (length q) r)) else None) =
    map_option f (if take (length q) r = q \<and> length q < length r
      then leaf_in lib d (r ! length q) (drop (Suc (length q)) r) else None)"
proof (cases "length q < length r")
  case True
  then have "drop (length q) r = r ! length q # drop (Suc (length q)) r"
    by (simp add: Cons_nth_drop_Suc)
  then have "leaf_at lib (PyDict d) (drop (length q) r) = leaf_in lib d (r ! length q) (drop (Suc (length q)) r)"
    by simp
  with True show ?thesis by simp
next
  case False
  then have "length q \<le> length r \<Longrightarrow> drop (length q) r = []" by simp
  moreover have "leaf_at lib (PyDict d) [] = None" using assms by simp
  ultimately show ?thesis using False by (metis option.map(1))
qed

lemma case_map_option: "(case w of None \<Rightarrow> None | Some x \<Rightarrow> Some (f x)) = map_option f w"
  by (cases w) auto

text \<open>What flattening produces below a prefix \<open>q\<close>, by mutual induction over the value.\<close>

lemma flatten_lookup:
  "well_keyed lib v \<Longrightarrow>
     distinct (map fst (flatten_leaf lib v q)) \<and>
     (\<forall>r. map_of (flatten_leaf lib v q) r =
        (if take (length q) r = q \<and> length q \<le> length r
         then map_option (leaf_cell lib) (leaf_at lib v (drop (length q) r)) else None))"
  "well_keyed_items lib d \<Longrightarrow> distinct (map fst acc) \<Longrightarrow>
     distinct (map fst (flatten_items lib d q acc)) \<and>
     (\<forall>r. map_of (flatten_items lib d q acc) r =
        (case (if take (length q) r = q \<and> length q < length r
               then leaf_in lib d (r ! length q) (drop (Suc (length q)) r) else None)
         of None \<Rightarrow> map_of acc r | Some w \<Rightarrow> Some (leaf_cell lib w)))"
proof (induction lib v q and lib d q acc rule: flatten_leaf_flatten_items.induct)
  case (1 lib p)
  have "leaf_cell lib (PyDict []) = [0x7B, 0x7D]" by (simp add: compact_json_def)
  then show ?case by (simp only: single_leaf [OF leaf_at_empty]) simp
next
  case (2 lib kv d p)
  have *: "kv # d \<noteq> []" by simp
  from 2 show ?case
    by (simp only: dict_leaf [OF *] flatten_leaf.simps well_keyed.simps map_of.simps case_map_option
        list.map distinct.simps simp_thms)
next
  case (3 lib s p)
  show ?case by (subst single_leaf) auto
next
  case (4 lib xs p)
  show ?case by (subst single_leaf) auto
next
  case (5 lib p acc)
  then show ?case by (simp split: option.split)
next
  case (6 lib k v d p acc)
  let ?k = "py_str lib k"
  let ?leaf = "flatten_leaf lib v (p @ [?k])"
  let ?acc = "dict_update acc ?leaf"
  have keyed: "py_str lib k \<notin> (py_str lib \<circ> fst) ` set d" "well_keyed lib v" "well_keyed_items lib d"
    using 6(3) by simp_all
  have IH1: "distinct (map fst ?leaf)" using 6(1) [OF keyed(2)] by (rule conjunct1)
  have "map_of ?leaf r = (if take (length (p @ [?k])) r = p @ [?k] \<and> length (p @ [?k]) \<le> length r
      then map_option (leaf_cell lib) (leaf_at lib v (drop (length (p @ [?k])) r)) else None)" for r
    using 6(1) [OF keyed(2)] by (rule conjunct2 [THEN spec])
  then have leaf: "map_of ?leaf r = (if take (length p) r = p \<and> length p < length r \<and> r ! length p = ?k
      then map_option (leaf_cell lib) (leaf_at lib v (drop (Suc (length p)) r)) else None)" for r
    by (simp add: take_Suc_conv_app_nth Suc_le_eq) (auto simp: take_Suc_conv_app_nth)
  have "distinct (map fst ?acc)" using 6(4) by (rule distinct_dict_update)
  note IH2 = 6(2) [OF keyed(3) this]
  have look: "map_of (flatten_items lib d p ?acc) r =
      (case (if take (length p) r = p \<and> length p < length r
             then leaf_in lib d (r ! length p) (drop (Suc (length p)) r) else None)
       of None \<Rightarrow> map_of ?acc r | Some w \<Rightarrow> Some (leaf_cell lib w))" for r
    using IH2 by (rule conjunct2 [THEN spec])
  have absent: "leaf_in lib d ?k q = None" for q
    using keyed(1) by (simp add: leaf_in_absent)
  have "distinct (map fst (flatten_items lib d p ?acc))" using IH2 by (rule conjunct1)
  moreover have "map_of (flatten_items lib d p ?acc) r =
      (case (if take (length p) r = p \<and> length p < length r
             then leaf_in lib ((k, v) # d) (r ! length p) (drop (Suc (length p)) r) else None)
       of None \<Rightarrow> map_of acc r | Some w \<Rightarrow> Some (leaf_cell lib w))" for r
  proof (cases "take (length p) r = p \<and> length p < length r")
    case True
    then show ?thesis
      by (cases "r ! length p = ?k")
        (auto simp: look leaf map_of_dict_update [OF IH1] absent map_add_def split: option.split)
  next
    case False
    then have "map_of ?leaf r = None" by (auto simp: leaf)
    with False show ?thesis by (simp only: look map_of_dict_update [OF IH1] map_add_def) auto
  qed
  ultimately show ?case by simp
qed

subsection \<open>Encoding a body\<close>

datatype unreadable_error =
    BodyDecodeError string
  | NotJsonError string
  | BodyTooLargeError

text \<open>The argument of the first two is the class name of the exception they wrap.
  \<open>Escaping e\<close> is any other exception of class \<open>e\<close>; the unreadable-body policy does not handle it.\<close>

datatype body_failure =
    Unreadable unreadable_error
  | Escaping string

record encoded_body =
  enc_body_type :: string
  enc_size_bytes :: nat
  enc_cell :: "pystr option"
  enc_fields :: "field_map option"

fun py_list :: "pyval \<Rightarrow> string + pyval list" where
  "py_list (PyList xs) = Inr xs"
| "py_list (PyDict d) = Inr (map (Sc \<circ> fst) d)"
| "py_list (Sc (SStr s)) = Inr (map (\<lambda>c. Sc (SStr [c])) s)"
| "py_list (Sc (SBytes bs)) = Inr (map (Sc \<circ> SInt \<circ> int) bs)"
| "py_list (Sc s) = Inl ''TypeError''"

fun join_bytes :: "pyval list \<Rightarrow> string + nat list" where
  "join_bytes [] = Inr []"
| "join_bytes (Sc (SBytes b) # xs) = sbind (join_bytes xs) (\<lambda>bs. Inr (b @ bs))"
| "join_bytes (x # xs) = Inl ''TypeError''"

text \<open>The bytes of a DATA body, or the JSON form of a VALUE or SEQUENCE body.\<close>

datatype consumed = Raw "nat list" | Value pyval

definition utf8_size :: "pystr \<Rightarrow> string + nat" where
  "utf8_size s = (case utf8_encode s of Inl e \<Rightarrow> Inl ''UnicodeEncodeError'' | Inr bs \<Rightarrow> Inr (length bs))"

definition consume_body :: "pylib \<Rightarrow> message \<Rightarrow> string + consumed \<times> nat" where
  "consume_body lib m =
     sbind (m_body m) (\<lambda>sections.
       if m_body_type m = ''DATA''
       then sbind (sbind (py_list sections) join_bytes) (\<lambda>raw. Inr (Raw raw, length raw))
       else sbind (if m_body_type m = ''SEQUENCE'' then sbind (py_list sections) (\<lambda>xs. Inr (PyList xs)) else Inr sections)
              (\<lambda>v. let w = to_jsonable lib v
                   in sbind (utf8_size (compact_json lib w)) (\<lambda>n. Inr (Value w, n))))"

fun check_field_sizes :: "field_map \<Rightarrow> body_failure option" where
  "check_field_sizes [] = None"
| "check_field_sizes ((p, cell) # fs) =
     (case utf8_size cell of
        Inl e \<Rightarrow> Some (Escaping e)
      | Inr n \<Rightarrow> if CELL_LIMIT_BYTES < n then Some (Unreadable BodyTooLargeError) else check_field_sizes fs)"

definition escaping :: "string + 'a \<Rightarrow> body_failure + 'a" where
  "escaping r = (case r of Inl e \<Rightarrow> Inl (Escaping e) | Inr x \<Rightarrow> Inr x)"

text \<open>The except clauses around the two decoding steps of \<^verbatim>\<open>json_flatten\<close>.\<close>

definition not_json_on :: "string list \<Rightarrow> string + 'a \<Rightarrow> body_failure + 'a" where
  "not_json_on caught r =
     (case r of Inl e \<Rightarrow> Inl (if e \<in> set caught then Unreadable (NotJsonError e) else Escaping e) | Inr x \<Rightarrow> Inr x)"

definition parse_json_body :: "pylib \<Rightarrow> pystr option \<Rightarrow> consumed \<Rightarrow> body_failure + pyval" where
  "parse_json_body lib content_type c =
     (case c of
        Value v \<Rightarrow> Inr v
      | Raw raw \<Rightarrow>
          sbind (escaping (charset_of lib content_type)) (\<lambda>charset.
          sbind (not_json_on [''UnicodeDecodeError''] (codec_decode lib charset True raw)) (\<lambda>txt.
            not_json_on [''ValueError'', ''JSONDecodeError'', ''RecursionError''] (json_loads lib txt))))"

definition body_cell :: "pylib \<Rightarrow> body_format \<Rightarrow> pystr option \<Rightarrow> consumed \<Rightarrow> string + pystr" where
  "body_cell lib fmt content_type c =
     (case c of
        Raw raw \<Rightarrow> if fmt = TEXT
          then sbind (charset_of lib content_type) (\<lambda>charset. codec_decode lib charset False raw)
          else Inr (b64encode raw)
      | Value v \<Rightarrow> if fmt = TEXT then Inr (compact_json lib v)
          else (case utf8_encode (compact_json lib v) of
                  Inl e \<Rightarrow> Inl ''UnicodeEncodeError'' | Inr bs \<Rightarrow> Inr (b64encode bs)))"

definition encode_body :: "pylib \<Rightarrow> message \<Rightarrow> body_format \<Rightarrow> body_failure + encoded_body" where
  "encode_body lib m fmt =
     (case consume_body lib m of
        Inl e \<Rightarrow> Inl (Unreadable (BodyDecodeError e))
      | Inr (c, sz) \<Rightarrow>
          if fmt = JSON_FLATTEN
          then sbind (parse_json_body lib (m_content_type m) c) (\<lambda>v.
                 let fields = flatten_value lib v
                 in case check_field_sizes fields of
                      Some e \<Rightarrow> Inl e
                    | None \<Rightarrow> Inr \<lparr>enc_body_type = m_body_type m, enc_size_bytes = sz,
                                   enc_cell = None, enc_fields = Some fields\<rparr>)
          else sbind (escaping (body_cell lib fmt (m_content_type m) c)) (\<lambda>cell.
               sbind (escaping (utf8_size cell)) (\<lambda>n.
                 if CELL_LIMIT_BYTES < n then Inl (Unreadable BodyTooLargeError)
                 else Inr \<lparr>enc_body_type = m_body_type m, enc_size_bytes = sz,
                           enc_cell = Some cell, enc_fields = None\<rparr>)))"

lemma utf8_size_Inr: "utf8_size s = Inr n \<longleftrightarrow> encodable s \<and> n = length (concat (map utf8_char s))"
  by (auto simp: utf8_size_def utf8_encode_def encodable_def)

text \<open>A cell fits a Storage cell when its UTF-8 form exists and is at most \<open>CELL_LIMIT_BYTES\<close> long.\<close>

definition cell_fits :: "pystr \<Rightarrow> bool" where
  "cell_fits s \<longleftrightarrow> encodable s \<and> length (concat (map utf8_char s)) \<le> CELL_LIMIT_BYTES"

definition fields_fit :: "field_map \<Rightarrow> bool" where
  "fields_fit fs \<longleftrightarrow> (\<forall>f \<in> set fs. cell_fits (snd f))"

lemma check_field_sizes_None: "check_field_sizes fs = None \<longleftrightarrow> fields_fit fs"
  by (induction fs rule: check_field_sizes.induct)
    (auto simp: fields_fit_def cell_fits_def utf8_size_def utf8_encode_def encodable_def split: if_splits)

subsection \<open>Properties\<close>

lemma b64encode_length: "length (b64encode bs) = 4 * ((length bs + 2) div 3)"
proof (induction bs rule: b64encode.induct)
  case (4 a b c rest)
  have "(length (a # b # c # rest) + 2) div 3 = Suc ((length rest + 2) div 3)" by simp
  with 4 show ?case by simp
qed simp_all

lemma b64_digit_bound: "n < 64 \<Longrightarrow> b64_digit n < 128"
  using b64_digit_ascii [of n] by simp

lemma b64encode_ascii: "\<forall>x \<in> set bs. x < 256 \<Longrightarrow> \<forall>c \<in> set (b64encode bs). c < 128"
proof (induction bs rule: b64encode.induct)
  case (4 a b c rest)
  then show ?case
    using digit_bounds [of a b] digit_bounds [of b c] digit_bounds [of c c] by (simp add: b64_digit_bound)
next
  case (3 a b)
  then show ?case using digit_bounds [of a b] by (simp add: b64_digit_bound)
next
  case (2 a)
  then show ?case using digit_bounds [of a a] by (simp add: b64_digit_bound)
qed simp

lemma utf8_ascii: "\<forall>c \<in> set s. c < 128 \<Longrightarrow> utf8_size s = Inr (length s)"
proof -
  assume a: "\<forall>c \<in> set s. c < 128"
  then have "encodable s" by (auto simp: encodable_def list_ex_iff surrogate_def)
  moreover from a have "concat (map utf8_char s) = s" by (induction s) (auto simp: utf8_char_def)
  ultimately show ?thesis by (simp add: utf8_size_Inr)
qed

lemma join_bytes_sections: "join_bytes (map (Sc \<circ> SBytes) bss) = Inr (concat bss)"
  by (induction bss) auto

lemmas encode_body_defs = encode_body_def consume_body_def escaping_def body_cell_def parse_json_body_def

text \<open>C31: Flattening loses and invents nothing: for a value whose keys are pairwise different at every
  level (every value \<^verbatim>\<open>json.loads\<close> returns), the map has each path once, and the cell under a
  path is the cell of the leaf found by walking the keys of that path from the root; every other path
  has no entry.\<close>
theorem flatten_finds_every_leaf:
  assumes "well_keyed lib (PyDict d)"
  shows "distinct (map fst (flatten_value lib (PyDict d))) \<and>
    (\<forall>p. map_of (flatten_value lib (PyDict d)) p =
       (if p = [] then None else map_option (leaf_cell lib) (leaf_at lib (PyDict d) p)))"
proof -
  have "well_keyed_items lib d" using assms by simp
  note look = flatten_lookup(2) [OF this, of "[]" "[]"]
  have "map_of (flatten_value lib (PyDict d)) p =
      (if p = [] then None else map_option (leaf_cell lib) (leaf_at lib (PyDict d) p))" for p
    using look by (cases p) (auto split: option.split)
  then show ?thesis using look by simp
qed

theorem flatten_finds_every_leaf_witness:
  "map_of (flatten_value sample_lib (PyDict [(SStr [97], PyDict [(SStr [98], Sc (SInt 5))]), (SStr [99], Sc SNone)]))
     [[97], [98]] = Some (u ''5'')"
  using flatten_finds_every_leaf [of sample_lib "[(SStr [97], PyDict [(SStr [98], Sc (SInt 5))]), (SStr [99], Sc SNone)]"]
  by (simp add: str_of_int_def digits_of.simps u_def)

lemma encoded_cells:
  assumes "encode_body lib m fmt = Inr e"
  shows "enc_body_type e = m_body_type m \<and>
    (case enc_fields e of
       Some fs \<Rightarrow> fmt = JSON_FLATTEN \<and> enc_cell e = None \<and> fields_fit fs
     | None \<Rightarrow> fmt \<noteq> JSON_FLATTEN \<and> (\<exists>cell. enc_cell e = Some cell \<and> cell_fits cell))"
  using assms
  by (auto simp: encode_body_def sbind_Inr_iff escaping_def Let_def utf8_size_Inr cell_fits_def check_field_sizes_None
      split: sum.splits if_splits option.splits)

text \<open>C35: A body that encodes gives exactly one of the two results its format asks for, and every cell
  it gives has a UTF-8 form of at most 16 MiB: \<^verbatim>\<open>json_flatten\<close> a field map, \<^verbatim>\<open>text\<close> and
  \<^verbatim>\<open>base64\<close> one cell.\<close>
theorem encoded_cells_fit:
  assumes "encode_body lib m fmt = Inr e"
  shows "enc_body_type e = m_body_type m \<and>
    (case enc_fields e of
       Some fs \<Rightarrow> fmt = JSON_FLATTEN \<and> enc_cell e = None \<and> fields_fit fs
     | None \<Rightarrow> fmt \<noteq> JSON_FLATTEN \<and> (\<exists>cell. enc_cell e = Some cell \<and> cell_fits cell))"
  by (rule encoded_cells [OF assms])

theorem encoded_cells_fit_witness:
  "\<exists>e. encode_body sample_lib sample_message TEXT = Inr e \<and> enc_body_type e = ''DATA''"
proof -
  have "\<exists>e. encode_body sample_lib sample_message TEXT = Inr e"
    by (simp add: encode_body_defs sample_message_def sample_lib_def charset_of_def
        utf8_ascii CELL_LIMIT_BYTES_def)
  then obtain e where "encode_body sample_lib sample_message TEXT = Inr e" ..
  with encoded_cells_fit [OF this] show ?thesis by (auto simp: sample_message_def)
qed

text \<open>The \<^verbatim>\<open>base64\<close> format is total and lossless on a DATA body whose base64 text is within
  the cell limit: encoding succeeds, decoding the cell gives back the joined sections, and the recorded
  size is their number of bytes.\<close>
theorem base64_body_roundtrip:
  assumes "m_body_type m = ''DATA''" and "m_body m = Inr (PyList (map (Sc \<circ> SBytes) bss))"
    and "\<forall>b \<in> set (concat bss). b < 256" and "4 * ((length (concat bss) + 2) div 3) \<le> CELL_LIMIT_BYTES"
  shows "\<exists>e cell. encode_body lib m BASE64 = Inr e \<and> enc_cell e = Some cell \<and>
    b64decode cell = concat bss \<and> enc_size_bytes e = length (concat bss)"
proof -
  have "utf8_size (b64encode (concat bss)) = Inr (4 * ((length (concat bss) + 2) div 3))"
    using b64encode_ascii [OF assms(3)] by (simp only: utf8_ascii b64encode_length)
  moreover have "b64decode (b64encode (concat bss)) = concat bss"
    using assms(3) by (rule b64decode_encode)
  ultimately show ?thesis
    using assms(1,2,4) by (simp add: encode_body_defs join_bytes_sections del: map_map)
qed

theorem base64_body_roundtrip_witness:
  "\<exists>e cell. encode_body sample_lib sample_message BASE64 = Inr e \<and> enc_cell e = Some cell \<and>
     b64decode cell = [104, 105]"
  using base64_body_roundtrip [of sample_message "[[104, 105]]" sample_lib]
  by (auto simp: sample_message_def CELL_LIMIT_BYTES_def)

text \<open>The exceptions that are not caught: the classes the two \<^verbatim>\<open>except\<close> clauses name are caught,
  no other is.\<close>

definition bad_cell :: "field_map \<Rightarrow> bool" where
  "bad_cell fs \<longleftrightarrow> (\<exists>(p, cell) \<in> set fs. \<not> encodable cell)"

lemma check_field_sizes_escape:
  assumes "\<forall>(p, cell) \<in> set fs. length (concat (map utf8_char cell)) \<le> CELL_LIMIT_BYTES"
  shows "check_field_sizes fs = (if bad_cell fs then Some (Escaping ''UnicodeEncodeError'') else None)"
  using assms
  by (induction fs rule: check_field_sizes.induct)
    (auto simp: bad_cell_def utf8_size_def utf8_encode_def encodable_def)

text \<open>Which JSON bodies end the whole batch instead of going to the unreadable-body policy: for a
  DATA body whose bytes decode and whose cells are within the limit, \<open>encode_body\<close> fails outside
  the policy exactly when \<^verbatim>\<open>json.loads\<close> raises something other than a \<^verbatim>\<open>ValueError\<close> or
  \<^verbatim>\<open>RecursionError\<close> (as \<^verbatim>\<open>Decimal\<close> does for a number with a huge exponent, such as
  \<^verbatim>\<open>1e9999999999999999999\<close>) or when a flattened cell holds a lone surrogate (as the JSON text
  \<^verbatim>\<open>"\ud800"\<close> produces).\<close>
theorem json_body_escapes_policy:
  assumes "consume_body lib m = Inr (Raw raw, sz)" and "charset_of lib (m_content_type m) = Inr cs"
    and "codec_decode lib cs True raw = Inr txt"
    and "\<forall>v. json_loads lib txt = Inr v \<longrightarrow>
           (\<forall>(p, cell) \<in> set (flatten_value lib v). length (concat (map utf8_char cell)) \<le> CELL_LIMIT_BYTES)"
  shows "encode_body lib m JSON_FLATTEN = Inl (Escaping x) \<longleftrightarrow>
    (case json_loads lib txt of
       Inl e \<Rightarrow> x = e \<and> e \<notin> {''ValueError'', ''JSONDecodeError'', ''RecursionError''}
     | Inr v \<Rightarrow> x = ''UnicodeEncodeError'' \<and> bad_cell (flatten_value lib v))"
proof (cases "json_loads lib txt")
  case (Inl e)
  then show ?thesis
    using assms by (auto simp: encode_body_def parse_json_body_def escaping_def not_json_on_def)
next
  case (Inr v)
  then have "check_field_sizes (flatten_value lib v) =
      (if bad_cell (flatten_value lib v) then Some (Escaping ''UnicodeEncodeError'') else None)"
    using assms(4) by (blast intro: check_field_sizes_escape)
  then show ?thesis
    using assms Inr by (auto simp: encode_body_def parse_json_body_def escaping_def not_json_on_def Let_def)
qed

definition surrogate_lib :: pylib where
  "surrogate_lib = sample_lib\<lparr>json_loads := (\<lambda>s. Inr (PyDict [(SStr [97], Sc (SStr [0xD800]))]))\<rparr>"

theorem json_body_escapes_policy_witness:
  "encode_body surrogate_lib sample_message JSON_FLATTEN = Inl (Escaping ''UnicodeEncodeError'')"
proof -
  have *: "consume_body surrogate_lib sample_message = Inr (Raw [104, 105], 2)"
    "charset_of surrogate_lib (m_content_type sample_message) = Inr (u ''utf-8'')"
    "codec_decode surrogate_lib (u ''utf-8'') True [104, 105] = Inr [104, 105]"
    "json_loads surrogate_lib [104, 105] = Inr (PyDict [(SStr [97], Sc (SStr [0xD800]))])"
    by (simp_all add: consume_body_def sample_message_def surrogate_lib_def sample_lib_def charset_of_def)
  show ?thesis
    using json_body_escapes_policy [OF *(1,2,3), of "''UnicodeEncodeError''"] *(4)
    by (simp add: bad_cell_def encodable_def surrogate_def utf8_char_def CELL_LIMIT_BYTES_def)
qed

end
