(* ===== verification/State_Json.thy ===== *)
theory State_Json
  imports Row_State Body
begin

text \<open>
  The row state as the JSON text that is written and measured: \<open>ExtractorState.to_dict\<close>, \<open>size_bytes\<close> and the
  entity keys of \<open>PendingSetBuilder\<close> (\<^verbatim>\<open>src/state.py\<close>).
\<close>

subsection \<open>The state as JSON\<close>

fun dict_json :: "dict_value \<Rightarrow> json" where
  "dict_json DNone = JNull"
| "dict_json (DStr s) = JStr (u s)"
| "dict_json (DOther j) = j"

definition members :: "entity_dict \<Rightarrow> (pystr \<times> json) list" where
  "members d = map (\<lambda>(k, v). (u k, dict_json v)) d"

fun range_json :: "range \<Rightarrow> json" where
  "range_json (lo, hi) = JArr [JInt lo, JInt hi]"

definition group_json :: "pending_group \<Rightarrow> json" where
  "group_json g =
     JObj [(u ''session_id'', case g_session_id g of None \<Rightarrow> JNull | Some sid \<Rightarrow> JStr (u sid)),
           (u ''partition'', JInt (g_partition g)),
           (u ''max_body_bytes'', JInt (g_max_body_bytes g)),
           (u ''ranges'', JArr (map range_json (g_ranges g)))]"

definition pending_json :: "pending_entity \<Rightarrow> json" where
  "pending_json pe =
     JObj [(u ''entity'', JObj (members (pe_entity pe))),
           (u ''groups'', JArr (map group_json (pe_groups pe))),
           (u ''deferred_at_utc'', JStr (pe_deferred_at_utc pe))]"

definition cursor_json :: "peek_cursor \<Rightarrow> json" where
  "cursor_json c =
     JObj [(u ''entity_path'', JStr (u (cursor_entity_path c))), (u ''last_sequence_number'', JInt (last_sequence_number c))]"

definition flatten_json :: "flatten_column \<Rightarrow> json" where
  "flatten_json f = JObj [(u ''path_sha1'', JStr (path_sha1 f)), (u ''column'', JStr (column f))]"

definition state_json :: "extractor_state \<Rightarrow> json" where
  "state_json s =
     JObj [(u ''version'', JInt (version s)),
           (u ''pending_commit'', JArr (map pending_json (pending_commit s))),
           (u ''peek_cursor'', case state_peek_cursor s of None \<Rightarrow> JNull | Some c \<Rightarrow> cursor_json c),
           (u ''flatten_columns'', JArr (map flatten_json (flatten_columns s)))]"

definition compact_text :: "json \<Rightarrow> pystr" where
  "compact_text v = json_text (u '','') (u '':'') v"

definition size_bytes :: "extractor_state \<Rightarrow> int" where
  "size_bytes s = int (length (compact_text (state_json s)))"

definition entity_key :: "entity_ref \<Rightarrow> pystr" where
  "entity_key e = json_text (u '', '') (u '': '') (JObj (sort_key fst (members (to_dict e))))"

subsection \<open>No information is lost\<close>

lemma scalar_u [simp]: "\<forall>c \<in> set (u s). scalar_value c"
proof
  fix c
  assume "c \<in> set (u s)"
  then obtain x where "c = of_char x" by (auto simp: u_def)
  then have "c < 256" by simp
  then show "scalar_value c" by (simp add: scalar_value_def surrogate_def)
qed

lemma plain_lists [simp]:
  "plain_jsons vs \<longleftrightarrow> list_all plain_json vs"
  "plain_members d \<longleftrightarrow> list_all (\<lambda>(k, v). (\<forall>c \<in> set k. scalar_value c) \<and> plain_json v) d"
  by (induction vs; simp) (induction d; auto)

text \<open>A value that is neither null nor a string, and a state of such values and of strings without surrogates.\<close>

fun plain_value :: "dict_value \<Rightarrow> bool" where
  "plain_value (DOther j) \<longleftrightarrow> plain_json j \<and> j \<noteq> JNull \<and> (\<forall>s. j \<noteq> JStr s)"
| "plain_value v \<longleftrightarrow> True"

definition scalar_text :: "pystr \<Rightarrow> bool" where
  "scalar_text s \<longleftrightarrow> (\<forall>c \<in> set s. scalar_value c)"

definition plain_pending :: "pending_entity \<Rightarrow> bool" where
  "plain_pending pe \<longleftrightarrow> scalar_text (pe_deferred_at_utc pe) \<and> list_all (plain_value \<circ> snd) (pe_entity pe)"

definition plain_state :: "extractor_state \<Rightarrow> bool" where
  "plain_state s \<longleftrightarrow> list_all plain_pending (pending_commit s) \<and>
     list_all (\<lambda>f. scalar_text (path_sha1 f) \<and> scalar_text (column f)) (flatten_columns s)"

lemma plain_dict [simp]: "plain_value v \<Longrightarrow> plain_json (dict_json v)"
  by (cases v) simp_all

lemma plain_members_of [simp]: "list_all (plain_value \<circ> snd) d \<Longrightarrow> plain_members (members d)"
  by (auto simp: members_def list_all_iff)

lemma plain_range [simp]: "plain_json (range_json r)"
  by (cases r) simp

lemma plain_group [simp]: "plain_json (group_json g)"
  by (simp add: group_json_def list_all_iff split: option.split)

lemma plain_pending_json [simp]: "plain_pending pe \<Longrightarrow> plain_json (pending_json pe)"
  using plain_members_of [of "pe_entity pe"] by (simp add: pending_json_def plain_pending_def scalar_text_def list_all_iff)

lemma plain_state_json: "plain_state s \<Longrightarrow> plain_json (state_json s)"
  by (auto simp: state_json_def plain_state_def cursor_json_def flatten_json_def scalar_text_def list_all_iff split: option.split)

text \<open>The JSON value determines each part.\<close>

lemma map_eq_inj:
  assumes "map f xs = map f ys" and "\<And>x y. x \<in> set xs \<Longrightarrow> y \<in> set ys \<Longrightarrow> f x = f y \<Longrightarrow> x = y"
  shows "xs = ys"
  using assms by (intro nth_equalityI) (metis length_map, metis length_map nth_map nth_mem)

lemma dict_inject: "plain_value v \<Longrightarrow> plain_value v' \<Longrightarrow> dict_json v = dict_json v' \<Longrightarrow> v = v'"
  by (cases v; cases v') auto

lemma members_inject:
  assumes "list_all (plain_value \<circ> snd) d" and "list_all (plain_value \<circ> snd) d'" and "members d = members d'"
  shows "d = d'"
  using assms(3) unfolding members_def
  by (rule map_eq_inj) (use assms(1,2) in \<open>fastforce simp: list_all_iff intro: dict_inject\<close>)

lemma range_inject: "range_json r = range_json r' \<Longrightarrow> r = r'"
  by (cases r; cases r') simp

lemma group_inject: "group_json g = group_json g' \<Longrightarrow> g = g'"
  by (auto simp: group_json_def dest: map_eq_inj [OF _ range_inject] split: option.splits)

lemma pending_inject:
  assumes "plain_pending p" and "plain_pending p'" and "pending_json p = pending_json p'"
  shows "p = p'"
proof -
  have parts: "members (pe_entity p) = members (pe_entity p')" "map group_json (pe_groups p) = map group_json (pe_groups p')"
    "pe_deferred_at_utc p = pe_deferred_at_utc p'" using assms(3) by (simp_all add: pending_json_def)
  have "pe_entity p = pe_entity p'"
    by (rule members_inject [OF _ _ parts(1)]) (use assms in \<open>simp_all add: plain_pending_def\<close>)
  moreover have "pe_groups p = pe_groups p'" by (rule map_eq_inj [OF parts(2) group_inject])
  ultimately show ?thesis using parts(3) by simp
qed

lemma flatten_inject: "flatten_json f = flatten_json f' \<Longrightarrow> f = f'"
  by (simp add: flatten_json_def)

lemma state_inject:
  assumes "plain_state s" and "plain_state s'" and "state_json s = state_json s'"
  shows "s = s'"
proof -
  have "pending_commit s = pending_commit s'"
    by (rule map_eq_inj [of pending_json]) (use assms pending_inject in \<open>auto simp: state_json_def plain_state_def list_all_iff\<close>)
  moreover have "flatten_columns s = flatten_columns s'"
    by (rule map_eq_inj [of flatten_json]) (use assms flatten_inject in \<open>auto simp: state_json_def\<close>)
  moreover have "version s = version s' \<and> state_peek_cursor s = state_peek_cursor s'"
    using assms(3) by (auto simp: state_json_def cursor_json_def split: option.splits)
  ultimately show ?thesis by simp
qed

text \<open>C28: The row state survives as text. The JSON text of a state determines the state: two states with the same text are
  the same, whatever names, session ids and ranges they hold. The text is ASCII, so \<^verbatim>\<open>size_bytes\<close>, a number of
  characters, is the number of bytes of the file. (The stored strings have no lone surrogates, and an entity edited by hand
  holds no float.)\<close>
theorem state_text_faithful:
  assumes "plain_state s" and "plain_state s'"
  shows "(compact_text (state_json s) = compact_text (state_json s') \<longleftrightarrow> s = s') \<and>
    (\<exists>n. utf8_size (compact_text (state_json s)) = Inr n \<and> size_bytes s = int n)"
proof -
  have "json_text (u '','') (u '':'') (state_json s) = json_text (u '','') (u '':'') (state_json s') \<longleftrightarrow> state_json s = state_json s'"
    by (rule json_text_inject [OF _ plain_state_json [OF assms(1)] plain_state_json [OF assms(2)]]) (simp add: u_def)
  moreover have "ascii (compact_text (state_json s))"
    unfolding compact_text_def by (rule json_ascii(1) [OF _ _ plain_state_json [OF assms(1)]]) (simp_all add: u_def)
  ultimately show ?thesis
    using state_inject [OF assms] by (auto simp: compact_text_def size_bytes_def ascii_def utf8_ascii)
qed

text \<open>The text keys of the pending set are as good as the entities: two entities have the same sorted-key JSON exactly
  when they are the same, so deferrals of different entities are never stored in one group.\<close>
theorem entity_key_inject: "entity_key e = entity_key e' \<longleftrightarrow> e = e'"
proof -
  have sorted: "sort_key fst (members (to_dict e)) =
      [(u ''entity_type'', JStr (u (entity_type_value (ref_entity_type e)))), (u ''queue_name'', dict_json (opt_value (ref_queue_name e))),
       (u ''sub_queue'', JStr (u (sub_queue_value (ref_sub_queue e)))),
       (u ''subscription_name'', dict_json (opt_value (ref_subscription_name e))),
       (u ''topic_name'', dict_json (opt_value (ref_topic_name e)))]" for e
    by (simp add: members_def to_dict_def u_def)
  have plain: "plain_json (JObj (sort_key fst (members (to_dict e))))" for e
    unfolding sorted by (simp add: opt_value_def split: option.split)
  have "entity_key e = entity_key e' \<longleftrightarrow> sort_key fst (members (to_dict e)) = sort_key fst (members (to_dict e'))"
    unfolding entity_key_def using json_text_inject [OF _ plain plain, of "u '', ''"] by (simp add: u_def)
  moreover have "\<dots> \<longleftrightarrow> to_dict e = to_dict e'"
    unfolding sorted by (auto simp: to_dict_def opt_value_def split: option.splits)
  ultimately show ?thesis by simp
qed

theorem state_text_faithful_witness:
  "compact_text (state_json (empty_state\<lparr>state_peek_cursor := Some \<lparr>cursor_entity_path = ''q'', last_sequence_number = 7\<rparr>\<rparr>)) \<noteq>
     compact_text (state_json empty_state)"
  using state_text_faithful [of "empty_state\<lparr>state_peek_cursor := Some \<lparr>cursor_entity_path = ''q'', last_sequence_number = 7\<rparr>\<rparr>" empty_state]
  by (simp add: plain_state_def empty_state_def)

end
