(* ===== verification/Registry.thy ===== *)
theory Registry
  imports Body Row_State
begin

text \<open>
  \<^verbatim>\<open>FlattenRegistry\<close> of \<^verbatim>\<open>src/body.py\<close>: the mapping from JSON paths to column names that
  one run carries to the next. The record \<open>flatten_registry\<close> has the object's attributes; the sets
  \<^verbatim>\<open>_taken\<close> and \<^verbatim>\<open>_input\<close> are lists used for membership only.

  Paths are keyed by a SHA-1 of their JSON text; the text of a path that holds a lone surrogate has no
  UTF-8 form, which raises. Distinctness of names is per hash, and a name per path where the hash is
  injective on the paths at hand.
\<close>

subsection \<open>Column names\<close>

definition MAX_FLATTEN_COLUMNS :: nat where "MAX_FLATTEN_COLUMNS = 1000"
definition MAX_COLUMN_NAME :: nat where "MAX_COLUMN_NAME = 64"
definition UNMAPPED_COLUMN :: pystr where "UNMAPPED_COLUMN = u ''body_unmapped''"

definition column_char :: "nat \<Rightarrow> bool" where
  "column_char c \<longleftrightarrow> ascii_alnum c \<or> c = 95"

definition json_path_ascii :: "path \<Rightarrow> pystr" where
  "json_path_ascii p = u ''['' @ join_with (u '', '') (map json_string_ascii p) @ u '']''"

definition json_path :: "path \<Rightarrow> pystr" where
  "json_path p = u ''['' @ join_with (u '', '') (map json_string p) @ u '']''"

definition column_name_for :: "pylib \<Rightarrow> path \<Rightarrow> pystr" where
  "column_name_for lib p =
     (if p = [] then u ''body_value''
      else let raw = u ''body_'' @ join_with (u ''_'') p;
               folded = filter (\<lambda>c. \<not> combining lib c) (nfkd lib raw);
               replaced = map (\<lambda>c. if column_char c then c else 95) folded;
               name = rev (dropWhile (\<lambda>c. c = 95) (rev replaced))
           in if MAX_COLUMN_NAME < length name
              then take 55 name @ u ''_'' @ take 8 (sha1_hex lib (concat (map utf8_char (json_path_ascii p))))
              else name)"

definition path_hash :: "pylib \<Rightarrow> path \<Rightarrow> string + pystr" where
  "path_hash lib p =
     (case utf8_encode (json_path p) of Inl e \<Rightarrow> Inl ''UnicodeEncodeError'' | Inr bs \<Rightarrow> Inr (sha1_hex lib bs))"

text \<open>A Python slice \<^verbatim>\<open>base[:i]\<close>, the index of which may be negative.\<close>

definition slice_to :: "int \<Rightarrow> 'a list \<Rightarrow> 'a list" where
  "slice_to i xs = (if 0 \<le> i then take (nat i) xs else take (length xs - nat (- i)) xs)"

definition suffixed :: "pystr \<Rightarrow> nat \<Rightarrow> pystr" where
  "suffixed base n =
     (let suffix = u ''_'' @ digits_of n in slice_to (int MAX_COLUMN_NAME - int (length suffix)) base @ suffix)"

lemma suffixed_inject: "suffixed base m = suffixed base n \<longleftrightarrow> m = n"
proof
  assume eq: "suffixed base m = suffixed base n"
  have dig: "takeWhile (\<lambda>c. c \<noteq> 95) (rev (suffixed base k)) = rev (digits_of k)" for k
  proof -
    have "c \<in> set (rev (digits_of k)) \<Longrightarrow> c \<noteq> 95" for c using digits_of_digits [of k] by auto
    then have "takeWhile (\<lambda>c. c \<noteq> 95) (rev (digits_of k) @ 95 # xs) = rev (digits_of k)" for xs
      by (subst takeWhile_append2) auto
    then show ?thesis by (simp add: suffixed_def Let_def u_def)
  qed
  have "rev (digits_of m) = rev (digits_of n)"
    unfolding dig [symmetric] eq ..
  then show "m = n" by simp
qed simp

lemma finite_suffixed: "finite {m. n \<le> m \<and> suffixed base m \<in> set taken}"
  by (rule finite_subset [of _ "suffixed base -` set taken"])
    (auto intro: finite_vimageI simp: inj_def suffixed_inject)

function unique_from :: "pystr \<Rightarrow> pystr list \<Rightarrow> nat \<Rightarrow> pystr" where
  "unique_from base taken n =
     (if suffixed base n \<in> set taken then unique_from base taken (n + 1) else suffixed base n)"
  by pat_completeness auto
termination
proof (relation "measure (\<lambda>(base, taken, n). card {m. n \<le> m \<and> suffixed base m \<in> set taken})")
  fix base taken n
  assume "suffixed base n \<in> set taken"
  then have "n \<in> {m. n \<le> m \<and> suffixed base m \<in> set taken}" by simp
  moreover have "n \<notin> {m. n + 1 \<le> m \<and> suffixed base m \<in> set taken}" by simp
  moreover have "{m. n + 1 \<le> m \<and> suffixed base m \<in> set taken} \<subseteq> {m. n \<le> m \<and> suffixed base m \<in> set taken}"
    by auto
  ultimately have "{m. n + 1 \<le> m \<and> suffixed base m \<in> set taken} \<subset> {m. n \<le> m \<and> suffixed base m \<in> set taken}"
    by blast
  then show "((base, taken, n + 1), base, taken, n) \<in>
      measure (\<lambda>(base, taken, n). card {m. n \<le> m \<and> suffixed base m \<in> set taken})"
    by (simp add: psubset_card_mono finite_suffixed del: Suc_eq_plus1)
qed simp

declare unique_from.simps [simp del]

definition unique_name :: "pylib \<Rightarrow> pystr list \<Rightarrow> path \<Rightarrow> pystr" where
  "unique_name lib taken p =
     (let base = column_name_for lib p in if base \<notin> set taken then base else unique_from base taken 2)"

lemma unique_from_fresh: "unique_from base taken n \<notin> set taken"
  by (induction base taken n rule: unique_from.induct) (subst unique_from.simps, simp)

lemma unique_name_fresh: "unique_name lib taken p \<notin> set taken"
  by (simp add: unique_name_def Let_def unique_from_fresh)

subsection \<open>The registry\<close>

record flatten_registry =
  reg_by_hash :: "(pystr \<times> pystr) list"
  reg_input_order :: "pystr list"
  reg_provisional :: "(pystr \<times> pystr) list"
  reg_new_hashes :: "pystr list"
  reg_taken :: "pystr list"
  reg_overflowed :: bool
  reg_input :: "pystr list"

definition new_registry :: "flatten_column list \<Rightarrow> pystr list \<Rightarrow> flatten_registry" where
  "new_registry existing reserved =
     \<lparr>reg_by_hash = dict_update [] (map (\<lambda>e. (path_sha1 e, column e)) existing),
      reg_input_order = map path_sha1 existing, reg_provisional = [], reg_new_hashes = [],
      reg_taken = reserved @ [UNMAPPED_COLUMN] @ map column existing,
      reg_overflowed = False, reg_input = map path_sha1 existing\<rparr>"

definition register :: "pylib \<Rightarrow> path \<Rightarrow> flatten_registry \<Rightarrow> string + pystr \<times> flatten_registry" where
  "register lib p r =
     sbind (path_hash lib p) (\<lambda>h.
       case map_of (reg_by_hash r) h of
         Some name \<Rightarrow> Inr (name, r)
       | None \<Rightarrow>
           (case map_of (reg_provisional r) h of
              Some name \<Rightarrow> Inr (name, r)
            | None \<Rightarrow>
                let name = unique_name lib (reg_taken r) p
                in if MAX_FLATTEN_COLUMNS \<le> length (reg_by_hash r)
                   then Inr (name, r\<lparr>reg_provisional := AList.update h name (reg_provisional r),
                                     reg_taken := name # reg_taken r, reg_overflowed := True\<rparr>)
                   else Inr (name, r\<lparr>reg_by_hash := AList.update h name (reg_by_hash r),
                                     reg_taken := name # reg_taken r,
                                     reg_new_hashes := reg_new_hashes r @ [h]\<rparr>)))"

fun register_all :: "pylib \<Rightarrow> path list \<Rightarrow> flatten_registry \<Rightarrow> string + flatten_registry" where
  "register_all lib [] r = Inr r"
| "register_all lib (p # ps) r = sbind (register lib p r) (\<lambda>(name, r'). register_all lib ps r')"

definition input_columns :: "flatten_registry \<Rightarrow> pystr list" where
  "input_columns r = map (\<lambda>h. dget (reg_by_hash r) h []) (reg_input_order r)"

definition new_columns :: "flatten_registry \<Rightarrow> pystr list" where
  "new_columns r = map (\<lambda>h. dget (reg_by_hash r) h []) (reg_new_hashes r)"

definition columns :: "flatten_registry \<Rightarrow> pystr list" where
  "columns r = input_columns r @ new_columns r"

definition registry_to_state :: "flatten_registry \<Rightarrow> flatten_column list" where
  "registry_to_state r = map (\<lambda>(h, c). \<lparr>path_sha1 = h, column = c\<rparr>) (reg_by_hash r)"

record split_row =
  split_values :: "(pystr \<times> pystr) list"
  split_unmapped :: pystr

fun split_loop ::
  "pylib \<Rightarrow> flatten_registry \<Rightarrow> field_map \<Rightarrow> (pystr \<times> pystr) list \<Rightarrow> (pystr \<times> pystr) list \<Rightarrow>
   string + (pystr \<times> pystr) list \<times> (pystr \<times> pystr) list" where
  "split_loop lib r [] vals unmapped = Inr (vals, unmapped)"
| "split_loop lib r ((p, cell) # fs) vals unmapped =
     sbind (path_hash lib p) (\<lambda>h.
       case map_of (reg_by_hash r) h of
         Some name \<Rightarrow>
           if h \<in> set (reg_input r) then split_loop lib r fs (AList.update name cell vals) unmapped
           else split_loop lib r fs vals (AList.update name cell unmapped)
       | None \<Rightarrow>
           (case map_of (reg_provisional r) h of
              Some name \<Rightarrow> split_loop lib r fs vals (AList.update name cell unmapped)
            | None \<Rightarrow> Inl ''KeyError''))"

definition unmapped_text :: "pylib \<Rightarrow> (pystr \<times> pystr) list \<Rightarrow> pystr" where
  "unmapped_text lib unmapped =
     (if unmapped = [] then [] else compact_json lib (PyDict (map (\<lambda>(k, v). (SStr k, Sc (SStr v))) unmapped)))"

definition split :: "pylib \<Rightarrow> flatten_registry \<Rightarrow> field_map \<Rightarrow> body_failure + split_row" where
  "split lib r fs =
     sbind (escaping (split_loop lib r fs [] [])) (\<lambda>(vals, unmapped).
     sbind (escaping (utf8_size (unmapped_text lib unmapped))) (\<lambda>n.
       if CELL_LIMIT_BYTES < n then Inl (Unreadable BodyTooLargeError)
       else Inr \<lparr>split_values = vals, split_unmapped = unmapped_text lib unmapped\<rparr>))"

subsection \<open>Spec: the names a registry has given\<close>

definition assigned_name :: "flatten_registry \<Rightarrow> pystr \<Rightarrow> pystr option" where
  "assigned_name r h = (case map_of (reg_by_hash r) h of Some n \<Rightarrow> Some n | None \<Rightarrow> map_of (reg_provisional r) h)"

definition assigned :: "flatten_registry \<Rightarrow> (pystr \<times> pystr) list" where
  "assigned r = reg_by_hash r @ reg_provisional r"

text \<open>\<open>R\<close> are the names a flattened column may never have.\<close>

definition registry_ok :: "pystr set \<Rightarrow> flatten_registry \<Rightarrow> bool" where
  "registry_ok R r \<longleftrightarrow>
     distinct (map fst (assigned r)) \<and> distinct (map snd (assigned r)) \<and>
     snd ` set (assigned r) \<subseteq> set (reg_taken r) \<and> R \<subseteq> set (reg_taken r) \<and> R \<inter> snd ` set (assigned r) = {} \<and>
     map fst (reg_by_hash r) = reg_input_order r @ reg_new_hashes r \<and>
     reg_input r = reg_input_order r \<and> length (reg_by_hash r) \<le> MAX_FLATTEN_COLUMNS \<and>
     (reg_overflowed r \<longleftrightarrow> reg_provisional r \<noteq> [])"

definition valid_columns :: "flatten_column list \<Rightarrow> pystr list \<Rightarrow> bool" where
  "valid_columns existing reserved \<longleftrightarrow>
     distinct (map path_sha1 existing) \<and> distinct (map column existing) \<and>
     column ` set existing \<inter> set (UNMAPPED_COLUMN # reserved) = {} \<and> length existing \<le> MAX_FLATTEN_COLUMNS"

lemma dict_update_fresh:
  "distinct (map fst e) \<Longrightarrow> fst ` set d \<inter> fst ` set e = {} \<Longrightarrow> dict_update d e = d @ e"
proof (induction e arbitrary: d)
  case (Cons kv e)
  then have "AList.update (fst kv) (snd kv) d = d @ [kv]" by (simp add: update_absent)
  with Cons show ?case by auto
qed simp

lemma new_registry_by_hash:
  "distinct (map path_sha1 existing) \<Longrightarrow>
     reg_by_hash (new_registry existing reserved) = map (\<lambda>e. (path_sha1 e, column e)) existing"
  by (simp add: new_registry_def dict_update_fresh comp_def)

lemma registry_ok_new:
  "valid_columns existing reserved \<Longrightarrow>
     registry_ok (set (UNMAPPED_COLUMN # reserved)) (new_registry existing reserved)"
  by (simp add: registry_ok_def valid_columns_def assigned_def new_registry_by_hash comp_def)
    (auto simp: new_registry_def)

lemma map_of_snoc: "map_of (xs @ [(h, n)]) x = (case map_of xs x of None \<Rightarrow> if x = h then Some n else None | Some y \<Rightarrow> Some y)"
  by (induction xs) auto

lemma assigned_name_append: "assigned_name r h = (map_of (reg_provisional r) ++ map_of (reg_by_hash r)) h"
  by (simp add: assigned_name_def map_add_def)

lemma assigned_name_None: "assigned_name r h = None \<longleftrightarrow> h \<notin> fst ` set (assigned r)"
  by (simp add: assigned_name_append assigned_def map_of_eq_None_iff image_Un)

lemma assigned_name_in_assigned: "assigned_name r h = Some n \<Longrightarrow> (h, n) \<in> set (assigned r)"
  by (auto simp: assigned_name_def assigned_def split: option.splits dest: map_of_SomeD)

text \<open>One registration: either the hash already has a name and nothing changes, or it gets a fresh one.\<close>

lemma register_cases:
  assumes "register lib p r = Inr (n, r')"
  obtains h where "path_hash lib p = Inr h" "assigned_name r h = Some n" "r' = r"
  | h where "path_hash lib p = Inr h" "assigned_name r h = None" "n = unique_name lib (reg_taken r) p"
      "MAX_FLATTEN_COLUMNS \<le> length (reg_by_hash r)"
      "r' = r\<lparr>reg_provisional := reg_provisional r @ [(h, n)], reg_taken := n # reg_taken r, reg_overflowed := True\<rparr>"
  | h where "path_hash lib p = Inr h" "assigned_name r h = None" "n = unique_name lib (reg_taken r) p"
      "length (reg_by_hash r) < MAX_FLATTEN_COLUMNS"
      "r' = r\<lparr>reg_by_hash := reg_by_hash r @ [(h, n)], reg_taken := n # reg_taken r,
              reg_new_hashes := reg_new_hashes r @ [h]\<rparr>"
proof -
  obtain h where h: "path_hash lib p = Inr h" using assms by (auto simp: register_def sbind_Inr_iff)
  show thesis
  proof (cases "assigned_name r h")
    case (Some m)
    then have "m = n" "r' = r"
      using assms h by (auto simp: register_def assigned_name_def split: option.splits)
    with Some h show thesis by (auto intro: that(1))
  next
    case None
    then have "map_of (reg_by_hash r) h = None" "map_of (reg_provisional r) h = None"
      by (auto simp: assigned_name_def split: option.splits)
    moreover from this have "h \<notin> fst ` set (reg_by_hash r)" "h \<notin> fst ` set (reg_provisional r)"
      by (simp_all add: map_of_eq_None_iff)
    ultimately show thesis
      using assms h None that(2,3) by (auto simp: register_def Let_def update_absent split: if_splits)
  qed
qed

lemma registry_ok_extend:
  assumes "registry_ok R r" and "assigned_name r h = None" and "n \<notin> set (reg_taken r)"
  shows "MAX_FLATTEN_COLUMNS \<le> length (reg_by_hash r) \<Longrightarrow>
      registry_ok R (r\<lparr>reg_provisional := reg_provisional r @ [(h, n)], reg_taken := n # reg_taken r, reg_overflowed := True\<rparr>)"
    "length (reg_by_hash r) < MAX_FLATTEN_COLUMNS \<Longrightarrow>
      registry_ok R (r\<lparr>reg_by_hash := reg_by_hash r @ [(h, n)], reg_taken := n # reg_taken r,
        reg_new_hashes := reg_new_hashes r @ [h]\<rparr>)"
proof -
  have h: "h \<notin> fst ` set (reg_by_hash r)" "h \<notin> fst ` set (reg_provisional r)"
    using assms(2) by (auto simp: assigned_name_None assigned_def image_Un)
  have all: "distinct (map fst (assigned r))" "distinct (map snd (assigned r))"
    "snd ` set (assigned r) \<subseteq> set (reg_taken r)" "R \<inter> snd ` set (assigned r) = {}"
    using assms(1) by (simp_all add: registry_ok_def)
  have ok: "distinct (map fst (reg_by_hash r))" "distinct (map fst (reg_provisional r))"
    "fst ` set (reg_by_hash r) \<inter> fst ` set (reg_provisional r) = {}"
    "distinct (map snd (reg_by_hash r))" "distinct (map snd (reg_provisional r))"
    "snd ` set (reg_by_hash r) \<inter> snd ` set (reg_provisional r) = {}"
    "snd ` set (reg_by_hash r) \<subseteq> set (reg_taken r)" "snd ` set (reg_provisional r) \<subseteq> set (reg_taken r)"
    "R \<subseteq> set (reg_taken r)" "R \<inter> snd ` set (reg_by_hash r) = {}" "R \<inter> snd ` set (reg_provisional r) = {}"
    using all assms(1) by (simp_all add: assigned_def image_Un Int_Un_distrib registry_ok_def)
  have order: "map fst (reg_by_hash r) = reg_input_order r @ reg_new_hashes r"
    and rest: "reg_input r = reg_input_order r" "reg_overflowed r \<longleftrightarrow> reg_provisional r \<noteq> []"
      "length (reg_by_hash r) \<le> MAX_FLATTEN_COLUMNS"
    using assms(1) by (simp_all add: registry_ok_def)
  have "reg_input_order r @ reg_new_hashes r @ xs = map fst (reg_by_hash r) @ xs" for xs
    by (simp add: order)
  note order = order [symmetric] this
  have n: "n \<notin> snd ` set (reg_by_hash r)" "n \<notin> snd ` set (reg_provisional r)" "n \<notin> R"
    using ok(7-9) assms(3) by blast+
  have sub: "snd ` set (reg_by_hash r) \<subseteq> insert n (set (reg_taken r))"
    "snd ` set (reg_provisional r) \<subseteq> insert n (set (reg_taken r))" "R \<subseteq> insert n (set (reg_taken r))"
    using ok(7-9) by blast+
  show "MAX_FLATTEN_COLUMNS \<le> length (reg_by_hash r) \<Longrightarrow>
      registry_ok R (r\<lparr>reg_provisional := reg_provisional r @ [(h, n)], reg_taken := n # reg_taken r, reg_overflowed := True\<rparr>)"
    by (simp add: registry_ok_def assigned_def image_Un Int_Un_distrib ok(1-6,10,11) order rest h n sub)
  show "length (reg_by_hash r) < MAX_FLATTEN_COLUMNS \<Longrightarrow>
      registry_ok R (r\<lparr>reg_by_hash := reg_by_hash r @ [(h, n)], reg_taken := n # reg_taken r,
        reg_new_hashes := reg_new_hashes r @ [h]\<rparr>)"
    by (simp add: registry_ok_def assigned_def image_Un Int_Un_distrib ok(1-6,10,11) order rest h n sub)
qed

lemma assigned_name_extend:
  assumes "assigned_name r h = None"
  shows "assigned_name (r\<lparr>reg_provisional := reg_provisional r @ [(h, n)], reg_taken := t, reg_overflowed := True\<rparr>) x =
      (if x = h then Some n else assigned_name r x)"
    "assigned_name (r\<lparr>reg_by_hash := reg_by_hash r @ [(h, n)], reg_taken := t, reg_new_hashes := hs\<rparr>) x =
      (if x = h then Some n else assigned_name r x)"
  using assms by (auto simp: assigned_name_def map_of_snoc simp del: map_of_append split: option.splits if_splits)

lemma register_ok:
  assumes ok: "registry_ok R r" and reg: "register lib p r = Inr (n, r')"
  shows "registry_ok R r' \<and> (\<exists>h. path_hash lib p = Inr h \<and> assigned_name r' h = Some n) \<and>
    (\<forall>h m. assigned_name r h = Some m \<longrightarrow> assigned_name r' h = Some m) \<and> reg_input_order r' = reg_input_order r"
  using reg
proof (cases rule: register_cases)
  case (1 h)
  then show ?thesis using ok by auto
next
  case (2 h)
  then have "n \<notin> set (reg_taken r)" by (simp add: unique_name_fresh)
  then show ?thesis using 2 registry_ok_extend(1) [OF ok] by (auto simp: assigned_name_extend)
next
  case (3 h)
  then have "n \<notin> set (reg_taken r)" by (simp add: unique_name_fresh)
  then show ?thesis using 3 registry_ok_extend(2) [OF ok] by (auto simp: assigned_name_extend)
qed

lemma register_all_ok:
  assumes "registry_ok R r" and "register_all lib ps r = Inr r'"
  shows "registry_ok R r' \<and> (\<forall>p \<in> set ps. \<exists>h n. path_hash lib p = Inr h \<and> assigned_name r' h = Some n) \<and>
    (\<forall>h m. assigned_name r h = Some m \<longrightarrow> assigned_name r' h = Some m) \<and> reg_input_order r' = reg_input_order r"
  using assms
proof (induction ps arbitrary: r)
  case (Cons p ps)
  then obtain n r1 where step: "register lib p r = Inr (n, r1)" "register_all lib ps r1 = Inr r'"
    by (auto simp: sbind_Inr_iff)
  note one = register_ok [OF Cons.prems(1) step(1)]
  note rest = Cons.IH [OF one [THEN conjunct1] step(2)]
  from one rest show ?case by auto
qed simp

lemma assigned_name_inj:
  assumes "registry_ok R r" and "assigned_name r h1 = Some n" and "assigned_name r h2 = Some n"
  shows "h1 = h2"
proof -
  have "distinct (map snd (assigned r))" using assms(1) by (simp add: registry_ok_def)
  then have "inj_on snd (set (assigned r))" by (simp add: distinct_map)
  with assigned_name_in_assigned [OF assms(2)] assigned_name_in_assigned [OF assms(3)] show ?thesis
    using inj_onD [of snd _ "(h1, n)" "(h2, n)"] by simp
qed

lemma assigned_name_new:
  assumes "valid_columns existing reserved" and "e \<in> set existing"
  shows "assigned_name (new_registry existing reserved) (path_sha1 e) = Some (column e)"
proof -
  have "distinct (map path_sha1 existing)" using assms(1) by (simp add: valid_columns_def)
  moreover from this have "map_of (map (\<lambda>e. (path_sha1 e, column e)) existing) (path_sha1 e) = Some (column e)"
    using assms(2) by (intro map_of_is_SomeI) (auto simp: comp_def)
  ultimately show ?thesis by (simp add: assigned_name_def new_registry_by_hash)
qed

lemma registered_registry_ok:
  assumes "valid_columns existing reserved" and "register_all lib ps (new_registry existing reserved) = Inr r"
  shows "registry_ok (set (UNMAPPED_COLUMN # reserved)) r"
  using register_all_ok [OF registry_ok_new [OF assms(1)] assms(2)] by simp

lemma by_hash_columns:
  assumes "registry_ok R r" shows "columns r = map snd (reg_by_hash r)"
proof -
  have "distinct (map fst (assigned r))" using assms by (simp add: registry_ok_def)
  then have d: "distinct (map fst (reg_by_hash r))" by (simp add: assigned_def)
  have order: "map fst (reg_by_hash r) = reg_input_order r @ reg_new_hashes r"
    using assms by (simp add: registry_ok_def)
  have "columns r = map (\<lambda>h. dget (reg_by_hash r) h []) (map fst (reg_by_hash r))"
    by (simp add: columns_def input_columns_def new_columns_def order)
  also have "\<dots> = map snd (reg_by_hash r)"
    using d by (auto simp: dget_def)
  finally show ?thesis .
qed

lemma input_columns_kept:
  assumes "valid_columns existing reserved" and "register_all lib ps (new_registry existing reserved) = Inr r"
  shows "input_columns r = map column existing"
proof -
  note all = register_all_ok [OF registry_ok_new [OF assms(1)] assms(2)]
  have kept: "assigned_name r (path_sha1 e) = Some (column e)" if "e \<in> set existing" for e
    using all assigned_name_new [OF assms(1) that] by blast
  have "path_sha1 e \<in> fst ` set (reg_by_hash r)" if "e \<in> set existing" for e
  proof -
    have "map fst (reg_by_hash r) = map path_sha1 existing @ reg_new_hashes r"
      using all by (simp add: registry_ok_def new_registry_def)
    then have "path_sha1 e \<in> set (map fst (reg_by_hash r))" using that by simp
    then show ?thesis by simp
  qed
  then have "map_of (reg_by_hash r) (path_sha1 e) = Some (column e)" if "e \<in> set existing" for e
    using kept [OF that] that
    by (auto simp: assigned_name_def map_of_eq_None_iff split: option.splits)
  moreover have "reg_input_order r = map path_sha1 existing" using all by (simp add: new_registry_def)
  ultimately show ?thesis by (simp add: input_columns_def dget_def)
qed

lemma to_state_valid:
  assumes "registry_ok (set (UNMAPPED_COLUMN # reserved)) r"
  shows "valid_columns (registry_to_state r) reserved"
proof -
  have "map path_sha1 (registry_to_state r) = map fst (reg_by_hash r)"
    "map column (registry_to_state r) = map snd (reg_by_hash r)"
    by (auto simp: registry_to_state_def)
  moreover from this have "column ` set (registry_to_state r) = snd ` set (reg_by_hash r)"
    by (metis list.set_map)
  moreover have "length (registry_to_state r) = length (reg_by_hash r)" by (simp add: registry_to_state_def)
  ultimately show ?thesis
    using assms by (auto simp: valid_columns_def registry_ok_def assigned_def image_Un)
qed

subsection \<open>Properties\<close>

text \<open>C25: Flatten columns never collide: whatever paths a run registers on top of a valid saved registry,
  every path has a name, no two path hashes share one, no name is a reserved metadata column or
  \<^verbatim>\<open>body_unmapped\<close>, every saved column keeps its name, and at most 1000 columns are saved.\<close>
theorem flatten_names_unique:
  assumes "valid_columns existing reserved" and "register_all lib ps (new_registry existing reserved) = Inr r"
  shows "(\<forall>p \<in> set ps. \<exists>h n. path_hash lib p = Inr h \<and> assigned_name r h = Some n) \<and>
    (\<forall>h1 h2 n. assigned_name r h1 = Some n \<longrightarrow> assigned_name r h2 = Some n \<longrightarrow> h1 = h2) \<and>
    (\<forall>h n. assigned_name r h = Some n \<longrightarrow> n \<notin> set (UNMAPPED_COLUMN # reserved)) \<and>
    (\<forall>e \<in> set existing. assigned_name r (path_sha1 e) = Some (column e)) \<and>
    length (registry_to_state r) \<le> MAX_FLATTEN_COLUMNS"
proof (intro conjI)
  note all = register_all_ok [OF registry_ok_new [OF assms(1)] assms(2)]
  note ok = all [THEN conjunct1]
  show "\<forall>p \<in> set ps. \<exists>h n. path_hash lib p = Inr h \<and> assigned_name r h = Some n" using all by blast
  show "\<forall>h1 h2 n. assigned_name r h1 = Some n \<longrightarrow> assigned_name r h2 = Some n \<longrightarrow> h1 = h2"
    using assigned_name_inj [OF ok] by blast
  show "\<forall>h n. assigned_name r h = Some n \<longrightarrow> n \<notin> set (UNMAPPED_COLUMN # reserved)"
  proof (intro allI impI)
    fix h n
    assume "assigned_name r h = Some n"
    then have "n \<in> snd ` set (assigned r)" using assigned_name_in_assigned by force
    then show "n \<notin> set (UNMAPPED_COLUMN # reserved)" using ok unfolding registry_ok_def by blast
  qed
  show "\<forall>e \<in> set existing. assigned_name r (path_sha1 e) = Some (column e)" using all assigned_name_new [OF assms(1)] by blast
  show "length (registry_to_state r) \<le> MAX_FLATTEN_COLUMNS"
    using ok by (simp add: registry_ok_def registry_to_state_def)
qed

definition sample_columns :: "flatten_column list" where
  "sample_columns = [\<lparr>path_sha1 = u ''h0'', column = u ''body_a''\<rparr>]"

lemma sample_registered:
  "register_all sample_lib [[u ''a'']] (new_registry sample_columns [u ''state'']) =
     Inr \<lparr>reg_by_hash = [(u ''h0'', u ''body_a''), (json_path [u ''a''], u ''body_a_2'')], reg_input_order = [u ''h0''],
          reg_provisional = [], reg_new_hashes = [json_path [u ''a'']],
          reg_taken = [u ''body_a_2'', u ''state'', u ''body_unmapped'', u ''body_a''],
          reg_overflowed = False, reg_input = [u ''h0'']\<rparr>"
  by (simp add: register_def path_hash_def utf8_encode_def json_path_def json_string_def json_escape_char_def
      sample_lib_def sample_columns_def new_registry_def u_def utf8_char_def surrogate_def unique_name_def
      column_name_for_def column_char_def ascii_alnum_def MAX_COLUMN_NAME_def unique_from.simps suffixed_def
      slice_to_def digits_of.simps MAX_FLATTEN_COLUMNS_def UNMAPPED_COLUMN_def Let_def)

definition sample_registry :: flatten_registry where
  "sample_registry = \<lparr>reg_by_hash = [(u ''h0'', u ''body_a''), (json_path [u ''a''], u ''body_a_2'')],
     reg_input_order = [u ''h0''], reg_provisional = [], reg_new_hashes = [json_path [u ''a'']],
     reg_taken = [u ''body_a_2'', u ''state'', u ''body_unmapped'', u ''body_a''],
     reg_overflowed = False, reg_input = [u ''h0'']\<rparr>"

lemma sample_registry_reached:
  "register_all sample_lib [[u ''a'']] (new_registry sample_columns [u ''state'']) = Inr sample_registry"
  unfolding sample_registry_def by (rule sample_registered)

lemma sample_columns_valid: "valid_columns sample_columns [u ''state'']"
  by (simp add: valid_columns_def sample_columns_def UNMAPPED_COLUMN_def MAX_FLATTEN_COLUMNS_def)

theorem flatten_names_unique_witness:
  "assigned_name sample_registry (u ''h0'') = Some (u ''body_a'') \<and>
   (\<exists>h n. path_hash sample_lib [u ''a''] = Inr h \<and> assigned_name sample_registry h = Some n)"
  using flatten_names_unique [OF sample_columns_valid sample_registry_reached]
  by (auto simp: sample_columns_def)

text \<open>C27: The column set is fixed for a run and grows only between runs: during a run the input columns
  stay exactly the saved ones, and the registry loaded from the state the run saves is valid again and
  has, in order, the columns of this run, first the saved ones and then the new ones.\<close>
theorem next_run_columns:
  assumes "valid_columns existing reserved" and "register_all lib ps (new_registry existing reserved) = Inr r"
  shows "input_columns r = map column existing \<and> valid_columns (registry_to_state r) reserved \<and>
    input_columns (new_registry (registry_to_state r) reserved) = input_columns r @ new_columns r"
proof -
  note ok = registered_registry_ok [OF assms]
  have valid: "valid_columns (registry_to_state r) reserved" using ok by (rule to_state_valid)
  have "input_columns (new_registry (registry_to_state r) reserved) = map column (registry_to_state r)"
    using valid by (rule input_columns_kept [of _ _ _ "[]"]) simp
  also have "\<dots> = map snd (reg_by_hash r)" by (auto simp: registry_to_state_def)
  also have "\<dots> = input_columns r @ new_columns r"
    using by_hash_columns [OF ok] by (simp add: columns_def)
  finally show ?thesis using valid input_columns_kept [OF assms] by simp
qed

theorem next_run_columns_witness:
  "input_columns (new_registry (registry_to_state sample_registry) [u ''state'']) = [u ''body_a'', u ''body_a_2'']"
  using next_run_columns [OF sample_columns_valid sample_registry_reached]
  by (simp add: sample_columns_def new_columns_def sample_registry_def dget_def json_path_def json_string_def u_def)

text \<open>Splitting a row: every field goes to the values or to the unmapped dictionary, under its name.\<close>

lemma map_of_update_if: "map_of (AList.update k v d) x = (if x = k then Some v else map_of d x)"
  by (simp add: update_conv)

lemma split_loop_spec:
  assumes "split_loop lib r fs vals unmapped = Inr (vals', unmapped')"
    and "registry_ok R r" and "distinct (map (path_hash lib \<circ> fst) fs)"
  shows "(\<forall>p cell. (p, cell) \<in> set fs \<longrightarrow> (\<exists>h n. path_hash lib p = Inr h \<and> assigned_name r h = Some n \<and>
      (if h \<in> set (reg_input r) then map_of vals' n = Some cell else map_of unmapped' n = Some cell))) \<and>
    (\<forall>n. (\<forall>p \<in> fst ` set fs. \<forall>h. path_hash lib p = Inr h \<longrightarrow> assigned_name r h \<noteq> Some n) \<longrightarrow>
      map_of vals' n = map_of vals n \<and> map_of unmapped' n = map_of unmapped n)"
  using assms(1,3)
proof (induction fs arbitrary: vals unmapped)
  case (Cons f fs)
  obtain p cell where f: "f = (p, cell)" by fastforce
  from Cons.prems(1) f obtain h where h: "path_hash lib p = Inr h" by (auto simp: sbind_Inr_iff)
  have "h \<in> set (reg_input r) \<Longrightarrow> h \<in> set (map fst (reg_by_hash r))"
    using assms(2) by (simp add: registry_ok_def)
  then have input: "h \<in> set (reg_input r) \<Longrightarrow> map_of (reg_by_hash r) h \<noteq> None"
    by (simp add: map_of_eq_None_iff)
  obtain n where n: "assigned_name r h = Some n"
    using Cons.prems(1) f h by (auto simp: assigned_name_def split: option.splits)
  let ?v = "if h \<in> set (reg_input r) then AList.update n cell vals else vals"
  let ?u = "if h \<in> set (reg_input r) then unmapped else AList.update n cell unmapped"
  have step: "split_loop lib r fs ?v ?u = Inr (vals', unmapped')"
    using Cons.prems(1) f h n input by (auto simp: assigned_name_def split: option.splits if_splits)
  have d: "distinct (map (path_hash lib \<circ> fst) fs)" and absent: "Inr h \<notin> (path_hash lib \<circ> fst) ` set fs"
    using Cons.prems(2) f h by (simp_all add: comp_def)
  have other: "h' \<noteq> h" if "q \<in> fst ` set fs" "path_hash lib q = Inr h'" for q h'
    using absent that by (auto simp: image_iff)
  have unique: "assigned_name r h' = Some n \<Longrightarrow> h' = h" for h'
    using assigned_name_inj [OF assms(2) _ n] by blast
  note IH = Cons.IH [OF step d]
  have keep: "map_of vals' n = map_of ?v n \<and> map_of unmapped' n = map_of ?u n"
    using IH [THEN conjunct2] unique other by blast
  show ?case
  proof (intro conjI allI impI)
    fix q c
    assume "(q, c) \<in> set (f # fs)"
    then consider "q = p" "c = cell" | "(q, c) \<in> set fs" using f by auto
    then show "\<exists>h n. path_hash lib q = Inr h \<and> assigned_name r h = Some n \<and>
      (if h \<in> set (reg_input r) then map_of vals' n = Some c else map_of unmapped' n = Some c)"
    proof cases
      case 1
      then show ?thesis using h n keep by (cases "h \<in> set (reg_input r)") (auto simp: map_of_update_if)
    next
      case 2
      then show ?thesis using IH [THEN conjunct1] by blast
    qed
  next
    fix m
    assume "\<forall>p \<in> fst ` set (f # fs). \<forall>h. path_hash lib p = Inr h \<longrightarrow> assigned_name r h \<noteq> Some m"
    then have "m \<noteq> n" "map_of vals' m = map_of ?v m \<and> map_of unmapped' m = map_of ?u m"
      using IH [THEN conjunct2] f h n by auto
    then show "map_of vals' m = map_of vals m" "map_of unmapped' m = map_of unmapped m"
      by (simp_all add: map_of_update_if)
  qed
qed simp

lemma escaping_Inr: "escaping r = Inr x \<longleftrightarrow> r = Inr x"
  by (cases r) (simp_all add: escaping_def)

lemma split_unfold:
  "split lib r fs = Inr s \<Longrightarrow> \<exists>unmapped. split_loop lib r fs [] [] = Inr (split_values s, unmapped) \<and>
     split_unmapped s = unmapped_text lib unmapped \<and> cell_fits (split_unmapped s)"
  by (auto simp: split_def sbind_Inr_iff escaping_Inr utf8_size_Inr cell_fits_def split: if_splits)

text \<open>C26: Splitting a flattened row loses no field: with a registry in its invariant and paths of pairwise
  different hashes, a successful split puts every cell either under its input column or, in the
  dictionary that becomes the \<^verbatim>\<open>body_unmapped\<close> cell, under the name its path was given; the values
  hold input columns only, and the unmapped cell fits the cell limit.\<close>
theorem split_keeps_every_field:
  assumes "registry_ok R r" and "distinct (map (path_hash lib \<circ> fst) fs)" and "split lib r fs = Inr s"
  shows "\<exists>unmapped. split_unmapped s = unmapped_text lib unmapped \<and> cell_fits (split_unmapped s) \<and>
    (\<forall>p cell. (p, cell) \<in> set fs \<longrightarrow> (\<exists>h n. path_hash lib p = Inr h \<and> assigned_name r h = Some n \<and>
       (if h \<in> set (reg_input r) then map_of (split_values s) n = Some cell else map_of unmapped n = Some cell)))"
proof -
  obtain unmapped where loop: "split_loop lib r fs [] [] = Inr (split_values s, unmapped)"
    and rest: "split_unmapped s = unmapped_text lib unmapped" "cell_fits (split_unmapped s)"
    using split_unfold [OF assms(3)] by blast
  from split_loop_spec [OF loop assms(1,2)] rest show ?thesis by blast
qed

lemma sample_registry_ok: "registry_ok (set [UNMAPPED_COLUMN, u ''state'']) sample_registry"
  using registered_registry_ok [OF sample_columns_valid sample_registry_reached] .

theorem split_keeps_every_field_witness:
  "\<exists>s unmapped. split sample_lib sample_registry [([u ''a''], u ''x'')] = Inr s \<and>
     split_unmapped s = unmapped_text sample_lib unmapped \<and> map_of unmapped (u ''body_a_2'') = Some (u ''x'')"
proof -
  have h: "path_hash sample_lib [u ''a''] = Inr (json_path [u ''a''])"
    by (simp add: path_hash_def utf8_encode_def json_path_def json_string_def json_escape_char_def
        sample_lib_def u_def utf8_char_def surrogate_def)
  have ne: "json_path [u ''a''] \<noteq> u ''h0''"
    by (simp add: json_path_def json_string_def json_escape_char_def u_def)
  have n: "assigned_name sample_registry (json_path [u ''a'']) = Some (u ''body_a_2'')"
    "json_path [u ''a''] \<notin> set (reg_input sample_registry)"
    using ne by (auto simp: assigned_name_def sample_registry_def)
  have "utf8_size (unmapped_text sample_lib [(u ''body_a_2'', u ''x'')]) = Inr 16"
    by (simp add: unmapped_text_def compact_json_def json_string_def json_escape_char_def u_def
        utf8_size_def utf8_encode_def utf8_char_def surrogate_def)
  then have "\<exists>s. split sample_lib sample_registry [([u ''a''], u ''x'')] = Inr s"
    using h ne by (simp add: split_def escaping_def sample_registry_def CELL_LIMIT_BYTES_def)
  then obtain s where s: "split sample_lib sample_registry [([u ''a''], u ''x'')] = Inr s" ..
  from split_keeps_every_field [OF sample_registry_ok _ s] h n s show ?thesis by auto
qed

text \<open>How long a name can get: the base name is at most 64 characters when the hash text is ASCII-hex of
  any length, and a collision suffix shortens it so that the total stays within 64 as long as the suffix
  itself does. The first free suffix is found after at most as many tries as there are taken names.\<close>

lemma column_name_for_length: "length (column_name_for lib p) \<le> MAX_COLUMN_NAME"
  by (auto simp: column_name_for_def Let_def MAX_COLUMN_NAME_def)

lemma digits_of_length: "n < 10 ^ Suc k \<Longrightarrow> length (digits_of n) \<le> Suc k"
proof (induction k arbitrary: n)
  case 0
  then show ?case by (subst digits_of.simps) simp
next
  case (Suc k)
  then have "n div 10 < 10 ^ Suc k" by (simp add: less_mult_imp_div_less mult.commute)
  from Suc.IH [OF this] show ?case by (subst digits_of.simps) simp
qed

lemma suffixed_length: "n < 10 ^ 63 \<Longrightarrow> length base \<le> MAX_COLUMN_NAME \<Longrightarrow> length (suffixed base n) \<le> MAX_COLUMN_NAME"
  using digits_of_length [of n 62]
  by (auto simp: suffixed_def Let_def slice_to_def MAX_COLUMN_NAME_def)

lemma unique_from_suffixed:
  "\<exists>m. unique_from base taken n = suffixed base m \<and>
     m \<le> n + card {k. n \<le> k \<and> suffixed base k \<in> set taken}"
proof (induction base taken n rule: unique_from.induct)
  case (1 base taken n)
  show ?case
  proof (cases "suffixed base n \<in> set taken")
    case True
    have "{k. n \<le> k \<and> suffixed base k \<in> set taken} = insert n {k. n + 1 \<le> k \<and> suffixed base k \<in> set taken}"
      using True by auto
    then have "card {k. n \<le> k \<and> suffixed base k \<in> set taken} = Suc (card {k. n + 1 \<le> k \<and> suffixed base k \<in> set taken})"
      using finite_suffixed [of "n + 1" base taken] by simp
    with 1 [OF True] True show ?thesis by (subst unique_from.simps) force
  next
    case False
    then show ?thesis by (subst unique_from.simps) auto
  qed
qed

lemma suffix_tries: "card {k. n \<le> k \<and> suffixed base k \<in> set taken} \<le> length taken"
proof -
  have "card {k. n \<le> k \<and> suffixed base k \<in> set taken} = card (suffixed base ` {k. n \<le> k \<and> suffixed base k \<in> set taken})"
    by (rule card_image [symmetric]) (simp add: inj_on_def suffixed_inject)
  also have "\<dots> \<le> card (set taken)" by (rule card_mono) auto
  also have "\<dots> \<le> length taken" by (rule card_length)
  finally show ?thesis .
qed

text \<open>C33: A new column name always exists: the search for a collision-free name ends, and its result is not
  taken and at most 64 characters long (for fewer than $10^{60}$ taken names).\<close>
theorem unique_name_total:
  assumes "length taken < 10 ^ 60"
  shows "unique_name lib taken p \<notin> set taken \<and> length (unique_name lib taken p) \<le> MAX_COLUMN_NAME"
proof
  show "unique_name lib taken p \<notin> set taken" by (rule unique_name_fresh)
  let ?base = "column_name_for lib p"
  obtain m where m: "unique_from ?base taken 2 = suffixed ?base m"
    "m \<le> 2 + card {k. 2 \<le> k \<and> suffixed ?base k \<in> set taken}"
    using unique_from_suffixed by blast
  then have "m \<le> 2 + length taken" using suffix_tries [of 2 ?base taken] by linarith
  also have "\<dots> < 10 ^ 63" using assms by simp
  finally have "length (suffixed ?base m) \<le> MAX_COLUMN_NAME"
    using column_name_for_length by (rule suffixed_length)
  then show "length (unique_name lib taken p) \<le> MAX_COLUMN_NAME"
    using column_name_for_length [of lib p] by (simp add: unique_name_def Let_def m)
qed

theorem unique_name_total_witness: "length (unique_name sample_lib [u ''body_a''] [u ''a'']) \<le> MAX_COLUMN_NAME"
  using unique_name_total [of "[u ''body_a'']" sample_lib "[u ''a'']"] by simp

end
