(* ===== verification/Columns.thy ===== *)
theory Columns
  imports Body
begin

text \<open>
  \<^verbatim>\<open>src/columns.py\<close>: the fixed metadata columns, the mapping of a message to its metadata row, the
  value formats and the preview table. A row is a dictionary from column names to cells.

  \<open>amqp_timestamp\<close> returns the cell and whether the out-of-range callback is called;
  \<open>message_metadata\<close> returns the row and how often it is called.
\<close>

subsection \<open>The catalogue\<close>

definition METADATA_COLUMNS :: "(string \<times> string) list" where
  "METADATA_COLUMNS =
    [(''sequence_number'', ''INTEGER''), (''message_id'', ''STRING''), (''enqueued_time_utc'', ''TIMESTAMP''),
     (''enqueued_sequence_number'', ''INTEGER''), (''session_id'', ''STRING''), (''partition_key'', ''STRING''),
     (''subject'', ''STRING''), (''correlation_id'', ''STRING''), (''content_type'', ''STRING''),
     (''reply_to'', ''STRING''), (''reply_to_session_id'', ''STRING''), (''to_address'', ''STRING''),
     (''application_properties'', ''STRING''), (''delivery_count'', ''INTEGER''), (''state'', ''STRING''),
     (''time_to_live_seconds'', ''FLOAT''), (''expires_at_utc'', ''TIMESTAMP''),
     (''scheduled_enqueue_time_utc'', ''TIMESTAMP''), (''dead_letter_reason'', ''STRING''),
     (''dead_letter_error_description'', ''STRING''), (''dead_letter_source'', ''STRING''),
     (''body_type'', ''STRING''), (''message_annotations'', ''STRING''), (''amqp_durable'', ''BOOLEAN''),
     (''amqp_priority'', ''INTEGER''), (''amqp_first_acquirer'', ''BOOLEAN''), (''amqp_user_id'', ''STRING''),
     (''amqp_content_encoding'', ''STRING''), (''amqp_creation_time_utc'', ''TIMESTAMP''),
     (''amqp_absolute_expiry_time_utc'', ''TIMESTAMP''), (''amqp_group_sequence'', ''INTEGER''),
     (''amqp_reply_to_group_id'', ''STRING''), (''source_entity'', ''STRING''), (''settlement_mode'', ''STRING''),
     (''extracted_at_utc'', ''TIMESTAMP'')]"

definition BODY_COLUMN :: pystr where "BODY_COLUMN = u ''body''"

definition metadata_column_names :: "pystr list" where
  "metadata_column_names = map (u \<circ> fst) METADATA_COLUMNS"

subsection \<open>Value formats\<close>

definition EPOCH :: datetime where "EPOCH = 62135596800000000"

definition MAX_DATETIME :: datetime where "MAX_DATETIME = 315537897599999999"

definition format_timestamp :: "datetime option \<Rightarrow> pystr" where
  "format_timestamp v = (case v of None \<Rightarrow> [] | Some t \<Rightarrow> format_utc t)"

definition epoch_plus :: "int \<Rightarrow> string + pystr" where
  "epoch_plus us = (if 0 \<le> EPOCH + us \<and> EPOCH + us \<le> MAX_DATETIME then Inr (format_utc (EPOCH + us)) else Inl ''OverflowError'')"

fun format_scalar_timestamp :: "pylib \<Rightarrow> scalar \<Rightarrow> string + pystr" where
  "format_scalar_timestamp lib SNone = Inr []"
| "format_scalar_timestamp lib (SDatetime t) = Inr (format_utc t)"
| "format_scalar_timestamp lib (SInt i) = (if i = 0 then Inr [] else epoch_plus (i * 1000))"
| "format_scalar_timestamp lib (SBool b) = (if b then epoch_plus 1000 else Inr [])"
| "format_scalar_timestamp lib (SFloat t) =
     sbind (float_instant lib t) (\<lambda>v. case v of None \<Rightarrow> Inr [] | Some us \<Rightarrow> epoch_plus us)"
| "format_scalar_timestamp lib (SDecimal t) = (if decimal_is_zero lib t then Inr [] else Inl ''TypeError'')"
| "format_scalar_timestamp lib s = Inl ''TypeError''"

definition amqp_timestamp :: "pylib \<Rightarrow> scalar \<Rightarrow> pystr \<times> bool" where
  "amqp_timestamp lib v = (case format_scalar_timestamp lib v of Inl e \<Rightarrow> ([], True) | Inr t \<Rightarrow> (t, False))"

text \<open>The handler catches \<^verbatim>\<open>OverflowError\<close>, \<^verbatim>\<open>ValueError\<close> and \<^verbatim>\<open>TypeError\<close>, the only classes
  the conversion raises.\<close>

definition str_cell :: "pylib \<Rightarrow> scalar \<Rightarrow> pystr" where
  "str_cell lib v = (if v = SNone then [] else py_str lib v)"

definition bool_str :: "bool option \<Rightarrow> pystr" where
  "bool_str v = (case v of None \<Rightarrow> [] | Some b \<Rightarrow> if b then u ''true'' else u ''false'')"

fun bytes_str :: "pylib \<Rightarrow> scalar \<Rightarrow> pystr" where
  "bytes_str lib SNone = []"
| "bytes_str lib (SBytes bs) = utf8_replace lib bs"
| "bytes_str lib v = py_str lib v"

fun falsy :: "pylib \<Rightarrow> pyval \<Rightarrow> bool" where
  "falsy lib (Sc SNone) = True"
| "falsy lib (Sc (SBool b)) = (\<not> b)"
| "falsy lib (Sc (SInt i)) = (i = 0)"
| "falsy lib (Sc (SFloat t)) = (float_instant lib t = Inr None)"
| "falsy lib (Sc (SDecimal t)) = decimal_is_zero lib t"
| "falsy lib (Sc (SStr s)) = (s = [])"
| "falsy lib (Sc (SBytes s)) = (s = [])"
| "falsy lib (PyList xs) = (xs = [])"
| "falsy lib (PyDict d) = (d = [])"
| "falsy lib v = False"

definition json_or_empty :: "pylib \<Rightarrow> pyval \<Rightarrow> pystr" where
  "json_or_empty lib v = (if falsy lib v then [] else compact_json lib v)"

subsection \<open>The metadata row\<close>

text \<open>\<^verbatim>\<open>getattr(obj, name, None)\<close> on a header or properties object that may be \<^verbatim>\<open>None\<close>.\<close>

definition attr :: "('a \<Rightarrow> scalar) \<Rightarrow> 'a option \<Rightarrow> scalar" where
  "attr f obj = (case obj of None \<Rightarrow> SNone | Some x \<Rightarrow> f x)"

definition flag :: "('a \<Rightarrow> bool option) \<Rightarrow> 'a option \<Rightarrow> bool option" where
  "flag f obj = (case obj of None \<Rightarrow> None | Some x \<Rightarrow> f x)"

definition metadata_cells :: "pylib \<Rightarrow> message \<Rightarrow> entity_ref \<Rightarrow> settlement_mode \<Rightarrow> datetime \<Rightarrow> pystr list" where
  "metadata_cells lib m entity mode extracted_at =
    [str_of_int (m_seq m), str_cell lib (m_message_id m), format_timestamp (m_enqueued_time m),
     str_cell lib (m_enqueued_seq m), (case m_session_id m of None \<Rightarrow> [] | Some s \<Rightarrow> u s),
     str_cell lib (m_partition_key m),
     str_cell lib (m_subject m), str_cell lib (m_correlation_id m),
     (case m_content_type m of None \<Rightarrow> [] | Some t \<Rightarrow> t),
     str_cell lib (m_reply_to m), str_cell lib (m_reply_to_session_id m), str_cell lib (m_to m),
     json_or_empty lib (m_application_properties m),
     (case m_delivery_count m of None \<Rightarrow> [] | Some n \<Rightarrow> str_of_int n), u (state_name (m_state m)),
     (case m_ttl_seconds m of None \<Rightarrow> [] | Some t \<Rightarrow> t), format_timestamp (m_expires_at m),
     format_timestamp (m_scheduled_time m), str_cell lib (m_dead_letter_reason m),
     str_cell lib (m_dead_letter_description m), str_cell lib (m_dead_letter_source m),
     u (m_body_type m), json_or_empty lib (m_annotations m), bool_str (flag hdr_durable (m_header m)),
     str_cell lib (attr hdr_priority (m_header m)), bool_str (flag hdr_first_acquirer (m_header m)),
     bytes_str lib (attr prop_user_id (m_properties m)),
     bytes_str lib (attr prop_content_encoding (m_properties m)),
     fst (amqp_timestamp lib (attr prop_creation_time (m_properties m))),
     fst (amqp_timestamp lib (attr prop_absolute_expiry_time (m_properties m))),
     str_cell lib (attr prop_group_sequence (m_properties m)),
     bytes_str lib (attr prop_reply_to_group_id (m_properties m)),
     u (entity_path entity), u (settlement_mode_value mode), format_utc extracted_at]"

definition out_of_range_calls :: "pylib \<Rightarrow> message \<Rightarrow> nat" where
  "out_of_range_calls lib m =
     of_bool (snd (amqp_timestamp lib (attr prop_creation_time (m_properties m)))) +
     of_bool (snd (amqp_timestamp lib (attr prop_absolute_expiry_time (m_properties m))))"

definition message_metadata ::
  "pylib \<Rightarrow> message \<Rightarrow> entity_ref \<Rightarrow> settlement_mode \<Rightarrow> datetime \<Rightarrow> (pystr \<times> pystr) list \<times> nat" where
  "message_metadata lib m entity mode extracted_at =
     (zip metadata_column_names (metadata_cells lib m entity mode extracted_at), out_of_range_calls lib m)"

subsection \<open>The preview table\<close>

definition preview_body_text :: "pylib \<Rightarrow> message \<Rightarrow> pystr" where
  "preview_body_text lib m =
     (case sbind (m_body m) (\<lambda>body.
             if m_body_type m = ''DATA''
             then sbind (sbind (py_list body) join_bytes) (\<lambda>raw.
                  sbind (charset_of lib (m_content_type m)) (\<lambda>cs. codec_decode lib cs False raw))
             else if m_body_type m = ''SEQUENCE''
             then sbind (py_list body) (\<lambda>xs. Inr (compact_json lib (PyList xs)))
             else Inr (compact_json lib body))
      of Inl e \<Rightarrow> u ''<unreadable body>'' | Inr t \<Rightarrow> t)"

fun replace_crlf :: "pystr \<Rightarrow> pystr" where
  "replace_crlf [] = []"
| "replace_crlf [c] = [c]"
| "replace_crlf (a # b # s) = (if a = 13 \<and> b = 10 then 32 # replace_crlf s else a # replace_crlf (b # s))"

definition preview_cell :: "pystr \<Rightarrow> pystr" where
  "preview_cell t =
     concat (map (\<lambda>c. if c = 124 then [92, 124] else [c])
       (map (\<lambda>c. if c = 10 then 32 else c) (map (\<lambda>c. if c = 13 then 32 else c) (replace_crlf t))))"

definition preview_row :: "pylib \<Rightarrow> nat \<Rightarrow> message \<Rightarrow> pystr" where
  "preview_row lib body_chars m =
     u ''| '' @ str_of_int (m_seq m) @ u '' | '' @ format_timestamp (m_enqueued_time m) @ u '' '' @
     u ''| '' @ preview_cell (str_cell lib (m_message_id m)) @ u '' | '' @
     preview_cell (str_cell lib (m_subject m)) @ u '' | '' @
     u (state_name (m_state m)) @ u '' | '' @ preview_cell (take body_chars (preview_body_text lib m)) @ u '' |''"

definition render_preview :: "pylib \<Rightarrow> nat \<Rightarrow> message list \<Rightarrow> pystr" where
  "render_preview lib body_chars ms =
     join_with [10]
       ([u ''| Sequence Number | Enqueued (UTC) | Message ID | Subject | State | Body |'',
         u ''|---|---|---|---|---|---|''] @ map (preview_row lib body_chars) ms)"

subsection \<open>Properties\<close>

lemma metadata_cells_length: "length (metadata_cells lib m entity mode t) = length metadata_column_names"
  by (simp add: metadata_cells_def metadata_column_names_def METADATA_COLUMNS_def)

lemma metadata_names_distinct: "distinct metadata_column_names"
  unfolding metadata_column_names_def METADATA_COLUMNS_def by (simp add: u_def)

text \<open>Every message, whatever is missing on it, gets a metadata row with exactly the catalogue's columns,
  once each and in order; it carries the message's sequence number, its state, the entity path and the
  settlement mode.\<close>
theorem metadata_row_complete:
  "map fst (fst (message_metadata lib m entity mode t)) = metadata_column_names \<and>
   distinct (map fst (fst (message_metadata lib m entity mode t))) \<and>
   map_of (fst (message_metadata lib m entity mode t)) (u ''sequence_number'') = Some (str_of_int (m_seq m)) \<and>
   map_of (fst (message_metadata lib m entity mode t)) (u ''state'') = Some (u (state_name (m_state m))) \<and>
   map_of (fst (message_metadata lib m entity mode t)) (u ''source_entity'') = Some (u (entity_path entity)) \<and>
   map_of (fst (message_metadata lib m entity mode t)) (u ''settlement_mode'') = Some (u (settlement_mode_value mode))"
proof -
  have "map fst (fst (message_metadata lib m entity mode t)) = metadata_column_names"
    by (simp add: message_metadata_def metadata_cells_length)
  moreover note metadata_names_distinct
  ultimately show ?thesis
    by (simp add: message_metadata_def metadata_column_names_def METADATA_COLUMNS_def metadata_cells_def)
qed

text \<open>A producer-set AMQP timestamp in milliseconds never fails a message: it is empty for 0, the formatted
  instant when that lies in the years 1 to 9999, and otherwise empty and reported as out of range.\<close>
theorem amqp_timestamp_int:
  "amqp_timestamp lib (SInt ms) =
     (if ms = 0 then ([], False)
      else if 0 \<le> EPOCH + ms * 1000 \<and> EPOCH + ms * 1000 \<le> MAX_DATETIME
      then (format_utc (EPOCH + ms * 1000), False) else ([], True))"
  by (simp add: amqp_timestamp_def epoch_plus_def)

lemma split_on_absent: "c \<notin> set s \<Longrightarrow> split_on c s = [s]"
  by (induction s) auto

lemma split_on_append: "c \<notin> set s \<Longrightarrow> split_on c (s @ c # t) = s # split_on c t"
  by (induction s) auto

lemma split_on_join: "ls \<noteq> [] \<Longrightarrow> \<forall>l \<in> set ls. c \<notin> set l \<Longrightarrow> split_on c (join_with [c] ls) = ls"
proof (induction "[c]" ls rule: join_with.induct)
  case (2 x)
  then show ?case by (simp add: split_on_absent)
next
  case (3 x y ys)
  then show ?case by (simp add: split_on_append)
qed simp

lemma digits_of_no_newline [simp]: "10 \<notin> set (digits_of n)"
  using digits_of_digits [of n] by auto

lemma str_of_int_no_newline [simp]: "10 \<notin> set (str_of_int i)"
  by (simp add: str_of_int_def u_def)

lemma pad_left_no_newline [simp]: "10 \<notin> set (pad_left w s) \<longleftrightarrow> 10 \<notin> set s"
  by (auto simp: pad_left_def)

lemma format_utc_no_newline [simp]: "10 \<notin> set (format_utc t)"
  by (simp add: format_utc_def iso_datetime_def Let_def u_def split: prod.split)

lemma preview_cell_no_newline [simp]: "10 \<notin> set (preview_cell t)" "13 \<notin> set (preview_cell t)"
  by (auto simp: preview_cell_def)

lemma preview_row_no_newline: "10 \<notin> set (preview_row lib n m)"
  by (cases "m_state m") (simp_all add: preview_row_def format_timestamp_def u_def split: option.split)

text \<open>Every pipe of a preview cell follows a backslash.\<close>

fun pipes_escaped :: "bool \<Rightarrow> pystr \<Rightarrow> bool" where
  "pipes_escaped after_backslash [] \<longleftrightarrow> True"
| "pipes_escaped after_backslash (c # s) \<longleftrightarrow> (c = 124 \<longrightarrow> after_backslash) \<and> pipes_escaped (c = 92) s"

lemma pipes_escaped_cell: "pipes_escaped b (concat (map (\<lambda>c. if c = 124 then [92, 124] else [c]) s))"
  by (induction s arbitrary: b) auto

text \<open>A sender cannot break the preview table: its lines are the two header lines and exactly one line per
  message, and in the sender-controlled cells (message id, subject, body) every pipe is escaped.\<close>
theorem preview_one_line_per_message:
  "split_on 10 (render_preview lib n ms) =
     [u ''| Sequence Number | Enqueued (UTC) | Message ID | Subject | State | Body |'', u ''|---|---|---|---|---|---|'']
       @ map (preview_row lib n) ms \<and>
   pipes_escaped False (preview_cell t)"
proof
  have "10 \<notin> set (u ''| Sequence Number | Enqueued (UTC) | Message ID | Subject | State | Body |'')"
    "10 \<notin> set (u ''|---|---|---|---|---|---|'')" by (simp_all add: u_def)
  then show "split_on 10 (render_preview lib n ms) =
     [u ''| Sequence Number | Enqueued (UTC) | Message ID | Subject | State | Body |'', u ''|---|---|---|---|---|---|'']
       @ map (preview_row lib n) ms"
    unfolding render_preview_def by (intro split_on_join) (auto simp: preview_row_no_newline)
  show "pipes_escaped False (preview_cell t)" unfolding preview_cell_def by (rule pipes_escaped_cell)
qed

end
