(* ===== verification/Stats.thy ===== *)
theory Stats
  imports Row_State Pyvalues
begin

text \<open>
  \<^verbatim>\<open>src/stats.py\<close>: the run counters, the warnings raised once per key, the summary line and the line
  that names the effective settings. The texts of the warnings are not kept, only their keys: no decision
  of the program depends on a text. The unreadable counter is keyed, as in the source, by
  \<^verbatim>\<open>reason:disposition\<close>. The run's duration is an argument of \<open>summary_line\<close>, already rounded and
  rendered.
\<close>

subsection \<open>Counters\<close>

record run_stats =
  s_mode :: string
  s_received :: nat
  s_written :: nat
  s_completed :: nat
  s_deferred :: nat
  s_deleted_on_receive :: nat
  s_committed :: nat
  s_already_gone :: nat
  s_carried_forward :: nat
  s_dropped_stale :: nat
  s_orphans_recovered :: nat
  s_settlement_failures :: nat
  s_recoveries :: nat
  s_empty_receive_retries :: nat
  s_throttled :: nat
  s_unreadable_recycles :: nat
  s_expired_skipped :: nat
  s_skipped_scheduled :: nat
  s_max_delivery_count :: int
  s_amqp_out_of_range :: nat
  s_orphans_guarded :: "int list"
  s_unreadable :: "(string \<times> nat) list"
  s_stop_reason :: string
  s_warnings :: "string list"

definition new_stats :: "string \<Rightarrow> run_stats" where
  "new_stats mode =
     \<lparr>s_mode = mode, s_received = 0, s_written = 0, s_completed = 0, s_deferred = 0, s_deleted_on_receive = 0,
      s_committed = 0, s_already_gone = 0, s_carried_forward = 0, s_dropped_stale = 0, s_orphans_recovered = 0,
      s_settlement_failures = 0, s_recoveries = 0, s_empty_receive_retries = 0, s_throttled = 0,
      s_unreadable_recycles = 0, s_expired_skipped = 0, s_skipped_scheduled = 0, s_max_delivery_count = 0,
      s_amqp_out_of_range = 0, s_orphans_guarded = [], s_unreadable = [], s_stop_reason = [], s_warnings = []\<rparr>"

definition warn :: "string \<Rightarrow> run_stats \<Rightarrow> run_stats" where
  "warn key st = (if key \<in> set (s_warnings st) then st else st\<lparr>s_warnings := s_warnings st @ [key]\<rparr>)"

definition note_throttled :: "nat \<Rightarrow> run_stats \<Rightarrow> run_stats" where
  "note_throttled n st =
     (let st = st\<lparr>s_throttled := n\<rparr>
      in if n \<noteq> 0 \<or> s_empty_receive_retries st \<noteq> 0 then warn ''throttled'' st else st)"

definition note_delivery_count :: "int \<Rightarrow> run_stats \<Rightarrow> run_stats" where
  "note_delivery_count n st = st\<lparr>s_max_delivery_count := max (s_max_delivery_count st) n\<rparr>"

definition note_amqp_out_of_range :: "run_stats \<Rightarrow> run_stats" where
  "note_amqp_out_of_range st = st\<lparr>s_amqp_out_of_range := s_amqp_out_of_range st + 1\<rparr>"

definition count_unreadable :: "string \<Rightarrow> run_stats \<Rightarrow> run_stats" where
  "count_unreadable key st =
     st\<lparr>s_unreadable := AList.update key (dget (s_unreadable st) key 0 + 1) (s_unreadable st)\<rparr>"

text \<open>\<^verbatim>\<open>key.rsplit(":", 1)[-1]\<close>\<close>

definition disposition_of :: "string \<Rightarrow> string" where
  "disposition_of key = rev (takeWhile (\<lambda>c. c \<noteq> CHR '':'') (rev key))"

definition unreadable_total :: "run_stats \<Rightarrow> nat" where
  "unreadable_total st =
     sum_list (map snd (filter (\<lambda>(key, n). disposition_of key \<noteq> ''retry'') (s_unreadable st)))"

subsection \<open>The summary\<close>

definition optional_counts :: "run_stats \<Rightarrow> (string \<times> int) list" where
  "optional_counts st =
     [(''completed'', int (s_completed st)), (''deferred'', int (s_deferred st)),
      (''deleted_on_receive'', int (s_deleted_on_receive st)), (''committed'', int (s_committed st)),
      (''already_gone'', int (s_already_gone st)), (''carried_forward'', int (s_carried_forward st)),
      (''dropped_stale'', int (s_dropped_stale st)), (''orphans_recovered'', int (s_orphans_recovered st)),
      (''orphans_guarded'', int (length (s_orphans_guarded st))),
      (''settlement_failures'', int (s_settlement_failures st)), (''recoveries'', int (s_recoveries st)),
      (''empty_receive_retries'', int (s_empty_receive_retries st)), (''throttled'', int (s_throttled st)),
      (''unreadable_recycles'', int (s_unreadable_recycles st)), (''expired_skipped'', int (s_expired_skipped st)),
      (''skipped_scheduled'', int (s_skipped_scheduled st)), (''max_delivery_count'', s_max_delivery_count st),
      (''amqp_timestamps_out_of_range'', int (s_amqp_out_of_range st))]"

definition token :: "string \<Rightarrow> pystr \<Rightarrow> pystr" where
  "token name v = u name @ u ''='' @ v"

definition summary_tokens :: "pystr \<Rightarrow> run_stats \<Rightarrow> pystr list" where
  "summary_tokens duration st =
     [token ''mode'' (u (s_mode st)), token ''received'' (str_of_int (int (s_received st))),
      token ''written'' (str_of_int (int (s_written st)))] @
     map (\<lambda>(name, v). token name (str_of_int v)) (filter (\<lambda>(name, v). v \<noteq> 0) (optional_counts st)) @
     map (\<lambda>(key, n). token (''unreadable_'' @ map (\<lambda>c. if c = CHR '':'' then CHR ''_'' else c) key) (str_of_int (int n)))
       (filter (\<lambda>(key, n). n \<noteq> 0) (sort_key fst (s_unreadable st))) @
     [token ''stop'' (u (s_stop_reason st)), token ''duration_s'' duration]"

definition summary_line :: "pystr \<Rightarrow> run_stats \<Rightarrow> pystr" where
  "summary_line duration st = join_with (u '' '') (summary_tokens duration st)"

text \<open>\<^verbatim>\<open>log_summary\<close>: the statistics after it and the INFO lines it writes.\<close>

definition log_summary :: "pystr \<Rightarrow> run_stats \<Rightarrow> run_stats \<times> pystr list" where
  "log_summary duration st =
     (let st = (if s_amqp_out_of_range st \<noteq> 0 then warn ''amqp_timestamps_out_of_range'' st else st)
      in (st, summary_line duration st #
            (if s_warnings st \<noteq> [] then [str_of_int (int (length (s_warnings st))) @ u '' warning(s) were raised during this run.'']
             else [])))"

subsection \<open>The effective settings\<close>

fun fetch_mode_value :: "fetch_mode \<Rightarrow> string" where
  "fetch_mode_value INCREMENTAL_FETCH = ''incremental_fetch''"
| "fetch_mode_value FULL_FETCH = ''full_fetch''"

fun body_format_value :: "body_format \<Rightarrow> string" where
  "body_format_value TEXT = ''text''"
| "body_format_value BASE64 = ''base64''"
| "body_format_value JSON_FLATTEN = ''json_flatten''"

fun unreadable_policy_value :: "unreadable_policy \<Rightarrow> string" where
  "unreadable_policy_value POLICY_DEAD_LETTER = ''dead_letter''"
| "unreadable_policy_value POLICY_LEAVE = ''leave''"
| "unreadable_policy_value POLICY_FAIL = ''fail''"

fun load_type_value :: "load_type \<Rightarrow> string" where
  "load_type_value INCREMENTAL_LOAD = ''incremental_load''"
| "load_type_value FULL_LOAD = ''full_load''"

fun primary_key_value :: "primary_key \<Rightarrow> string" where
  "primary_key_value SEQUENCE_NUMBER = ''sequence_number''"
| "primary_key_value MESSAGE_ID = ''message_id''"
| "primary_key_value SOURCE_ENTITY_SEQUENCE_NUMBER = ''source_entity_sequence_number''"

definition mark :: "('a \<Rightarrow> pystr) \<Rightarrow> 'a \<Rightarrow> 'a \<Rightarrow> pystr" where
  "mark show value dflt = (if value = dflt then show value @ u '' (default)'' else show value)"

definition mark_table_name :: "string \<Rightarrow> string \<Rightarrow> pystr" where
  "mark_table_name name dflt =
     (let display = (if name = [] then u ''derived'' else u name)
      in if name = dflt then display @ u '' (default)'' else display)"

definition show_bool :: "bool \<Rightarrow> pystr" where
  "show_bool b = (if b then u ''True'' else u ''False'')"

definition settings_tokens :: "configuration \<Rightarrow> entity_ref \<Rightarrow> pystr list" where
  "settings_tokens c e =
     (let src = source c; lim = limits c; bod = body c; dst = destination c; adv = advanced c in
      [token ''settlement_mode'' (mark (u \<circ> settlement_mode_value) (settlement_mode src) COMPLETE),
       token ''entity'' (u (entity_path e)),
       token ''sub_queue'' (mark (u \<circ> sub_queue_value) (ref_sub_queue e) SQ_NONE),
       token ''sessions'' (mark show_bool (session_enabled src) False)] @
      (if settlement_mode src = PEEK
       then [token ''fetch_mode'' (mark (u \<circ> fetch_mode_value) (fetch_mode src) INCREMENTAL_FETCH)]
       else [token ''idle_timeout_seconds'' (mark str_of_int (idle_timeout_seconds src) 10)]) @
      [token ''max_messages'' (mark str_of_int (max_messages lim) 0),
       token ''stop_at_job_start'' (mark show_bool (stop_at_job_start lim) True),
       token ''body_format'' (mark (u \<circ> body_format_value) (body_format bod) TEXT),
       token ''unreadable_body'' (mark (u \<circ> unreadable_policy_value) (unreadable_body bod) POLICY_DEAD_LETTER),
       token ''load_type'' (mark (u \<circ> load_type_value) (load_type dst) INCREMENTAL_LOAD),
       token ''primary_key'' (mark (u \<circ> primary_key_value) (primary_key dst) SEQUENCE_NUMBER),
       token ''table_name'' (mark_table_name (table_name dst) []),
       token ''max_duration_seconds'' (mark str_of_int (max_duration_seconds adv) 3000),
       token ''batch_size'' (mark str_of_int (batch_size adv) 100),
       token ''prefetch_count'' (mark str_of_int (prefetch_count adv) 1),
       token ''recovery_wait_seconds'' (mark str_of_int (recovery_wait_seconds adv) 0)])"

definition log_effective_settings :: "configuration \<Rightarrow> entity_ref \<Rightarrow> pystr" where
  "log_effective_settings c e = join_with (u '' '') (settings_tokens c e)"

subsection \<open>What the counters satisfy\<close>

lemma warn_idem [simp]: "warn key (warn key st) = warn key st"
  by (simp add: warn_def)

lemma warn_warnings: "set (s_warnings (warn key st)) = insert key (set (s_warnings st))"
  by (auto simp: warn_def)

lemma warn_distinct: "distinct (s_warnings st) \<Longrightarrow> distinct (s_warnings (warn key st))"
  by (simp add: warn_def)

lemma warn_frame [simp]:
  "s_received (warn k st) = s_received st" "s_written (warn k st) = s_written st"
  "s_completed (warn k st) = s_completed st" "s_deferred (warn k st) = s_deferred st"
  "s_deleted_on_receive (warn k st) = s_deleted_on_receive st"
  "s_unreadable (warn k st) = s_unreadable st" "s_unreadable_recycles (warn k st) = s_unreadable_recycles st"
  "s_committed (warn k st) = s_committed st" "s_already_gone (warn k st) = s_already_gone st"
  "s_carried_forward (warn k st) = s_carried_forward st" "s_dropped_stale (warn k st) = s_dropped_stale st"
  "s_settlement_failures (warn k st) = s_settlement_failures st"
  by (simp_all add: warn_def)

lemma disposition_of_key: "CHR '':'' \<notin> set d \<Longrightarrow> disposition_of (r @ CHR '':'' # d) = d"
proof -
  assume "CHR '':'' \<notin> set d"
  then have "takeWhile (\<lambda>c. c \<noteq> CHR '':'') (rev d @ CHR '':'' # rev r) = rev d"
    by (subst takeWhile_append2) auto
  then show ?thesis by (simp add: disposition_of_def)
qed

lemma sum_filter_update:
  "distinct (map fst d) \<Longrightarrow>
   sum_list (map snd (filter (\<lambda>(k, n). P k) (AList.update key (dget d key 0 + (1 :: nat)) d))) =
   sum_list (map snd (filter (\<lambda>(k, n). P k) d)) + of_bool (P key)"
proof (induction d)
  case Nil
  then show ?case by (simp add: dget_def)
next
  case (Cons kv d)
  obtain k n where kv: "kv = (k, n)" by fastforce
  show ?case
  proof (cases "k = key")
    case True
    then show ?thesis by (simp add: kv dget_def)
  next
    case False
    with Cons show ?thesis by (simp add: kv dget_def)
  qed
qed

text \<open>Counting one unreadable body adds one to the total, unless it is a retry.\<close>

lemma unreadable_total_count:
  "distinct (map fst (s_unreadable st)) \<Longrightarrow>
     unreadable_total (count_unreadable key st) = unreadable_total st + of_bool (disposition_of key \<noteq> ''retry'')"
  using sum_filter_update [of "s_unreadable st" "\<lambda>k. disposition_of k \<noteq> ''retry''" key]
  by (simp add: unreadable_total_def count_unreadable_def)

lemma count_unreadable_distinct:
  "distinct (map fst (s_unreadable st)) \<Longrightarrow> distinct (map fst (s_unreadable (count_unreadable key st)))"
  by (simp add: count_unreadable_def distinct_update)

lemma count_unreadable_fold:
  "distinct (map fst (s_unreadable st)) \<Longrightarrow>
     unreadable_total (fold count_unreadable keys st) =
       unreadable_total st + length (filter (\<lambda>k. disposition_of k \<noteq> ''retry'') keys)"
  by (induction keys arbitrary: st) (auto simp: unreadable_total_count count_unreadable_distinct)

lemma warn_fold:
  "distinct (s_warnings st) \<Longrightarrow> distinct (s_warnings (fold warn keys st)) \<and>
     set (s_warnings (fold warn keys st)) = set (s_warnings st) \<union> set keys"
  by (induction keys arbitrary: st) (auto simp: warn_distinct warn_warnings)

text \<open>The unreadable total of a run is the number of unreadable bodies counted with a disposition other
  than \<^verbatim>\<open>retry\<close>, whatever the order of the counts; and a warning raised any number of times is kept
  exactly once.\<close>
theorem unreadable_total_is_dispositions:
  "unreadable_total (fold count_unreadable keys (new_stats mode)) =
     length (filter (\<lambda>k. disposition_of k \<noteq> ''retry'') keys) \<and>
   distinct (s_warnings (fold warn ws (new_stats mode))) \<and> set (s_warnings (fold warn ws (new_stats mode))) = set ws"
  using count_unreadable_fold [of "new_stats mode" keys] warn_fold [of "new_stats mode" ws]
  by (simp add: new_stats_def unreadable_total_def)

end
