(* ===== verification/Details.thy ===== *)
theory Details
  imports Body "HOL-Library.Sublist"
begin

text \<open>
  \<^verbatim>\<open>concise_details\<close> of \<^verbatim>\<open>src/client.py\<close>: the meaningful part of an Azure error text. Its three
  regular expressions are values of \<open>pat\<close>, matched the way Python's \<^verbatim>\<open>re\<close> does it: \<open>re_results\<close> lists the
  ways to match in the order a backtracking matcher tries them, so the first one is the match. \<open>yields\<close>
  says declaratively what a pattern consumes, and \<open>results_yields\<close> that the matcher finds exactly that.
  The record \<open>textlib\<close> holds \<^verbatim>\<open>html.unescape\<close> and the Unicode tables of \<^verbatim>\<open>re\<close> beyond ASCII.
\<close>

record textlib =
  tx_word :: "nat \<Rightarrow> bool"
  tx_decimal :: "nat \<Rightarrow> bool"
  tx_unescape :: "pystr \<Rightarrow> pystr"

subsection \<open>Regular expressions\<close>

text \<open>Case-insensitive matching as Python's \<^verbatim>\<open>re\<close> does it: the two non-ASCII characters that match an
  ASCII letter of the two patterns are U+017F (s) and U+212A (k); i matches U+0130 and U+0131.\<close>

definition ci_match :: "nat \<Rightarrow> nat \<Rightarrow> bool" where
  "ci_match p c \<longleftrightarrow> lower_cp p = lower_cp c \<or> (lower_cp p = 115 \<and> c = 0x17F) \<or> (lower_cp p = 107 \<and> c = 0x212A) \<or>
     (lower_cp p = 105 \<and> c \<in> {0x130, 0x131})"

text \<open>\<open>Many\<close> and \<open>Few\<close> are the greedy and the lazy star of a character class, \<open>Edge\<close> is \<^verbatim>\<open>\b\<close>,
  \<open>LineEnd\<close> and \<open>TextEnd\<close> are \<^verbatim>\<open>$\<close> with and without \<^verbatim>\<open>re.MULTILINE\<close>.\<close>

datatype pat =
    Chr "nat \<Rightarrow> bool"
  | Eps
  | Seq pat pat
  | Alt pat pat
  | Many "nat \<Rightarrow> bool"
  | Few "nat \<Rightarrow> bool"
  | Group pat
  | Edge "nat \<Rightarrow> bool"
  | LineEnd
  | TextEnd

text \<open>A place in the text: what is before it (reversed), what is after it, the groups captured so far.\<close>

type_synonym place = "pystr \<times> pystr \<times> pystr list"

primrec many_from :: "(nat \<Rightarrow> bool) \<Rightarrow> pystr list \<Rightarrow> pystr \<Rightarrow> pystr \<Rightarrow> place list" where
  "many_from P g [] = (\<lambda>b. [(b, [], g)])"
| "many_from P g (c # a) = (\<lambda>b. (if P c then many_from P g a (c # b) else []) @ [(b, c # a, g)])"

primrec few_from :: "(nat \<Rightarrow> bool) \<Rightarrow> pystr list \<Rightarrow> pystr \<Rightarrow> pystr \<Rightarrow> place list" where
  "few_from P g [] = (\<lambda>b. [(b, [], g)])"
| "few_from P g (c # a) = (\<lambda>b. (b, c # a, g) # (if P c then few_from P g a (c # b) else []))"

definition at_edge :: "(nat \<Rightarrow> bool) \<Rightarrow> pystr \<Rightarrow> pystr \<Rightarrow> bool" where
  "at_edge W b a \<longleftrightarrow> (b \<noteq> [] \<and> W (hd b)) \<noteq> (a \<noteq> [] \<and> W (hd a))"

primrec re_results :: "pat \<Rightarrow> place \<Rightarrow> place list" where
  "re_results (Chr P) = (\<lambda>(b, a, g). case a of [] \<Rightarrow> [] | c # a' \<Rightarrow> if P c then [(c # b, a', g)] else [])"
| "re_results Eps = (\<lambda>s. [s])"
| "re_results (Seq p q) = (\<lambda>s. concat (map (re_results q) (re_results p s)))"
| "re_results (Alt p q) = (\<lambda>s. re_results p s @ re_results q s)"
| "re_results (Many P) = (\<lambda>(b, a, g). many_from P g a b)"
| "re_results (Few P) = (\<lambda>(b, a, g). few_from P g a b)"
| "re_results (Group p) = (\<lambda>(b, a, g).
     map (\<lambda>(b', a', g'). (b', a', g' @ [take (length a - length a') a])) (re_results p (b, a, g)))"
| "re_results (Edge W) = (\<lambda>(b, a, g). if at_edge W b a then [(b, a, g)] else [])"
| "re_results LineEnd = (\<lambda>(b, a, g). if a = [] \<or> hd a = 10 then [(b, a, g)] else [])"
| "re_results TextEnd = (\<lambda>(b, a, g). if a = [] \<or> a = [10] then [(b, a, g)] else [])"

text \<open>\<open>yields p b x a\<close>: between \<open>b\<close> and \<open>a\<close> the pattern may consume \<open>x\<close>.\<close>

primrec yields :: "pat \<Rightarrow> pystr \<Rightarrow> pystr \<Rightarrow> pystr \<Rightarrow> bool" where
  "yields (Chr P) b x a \<longleftrightarrow> (\<exists>c. x = [c] \<and> P c)"
| "yields Eps b x a \<longleftrightarrow> x = []"
| "yields (Seq p q) b x a \<longleftrightarrow> (\<exists>y z. x = y @ z \<and> yields p b y (z @ a) \<and> yields q (rev y @ b) z a)"
| "yields (Alt p q) b x a \<longleftrightarrow> yields p b x a \<or> yields q b x a"
| "yields (Many P) b x a \<longleftrightarrow> list_all P x"
| "yields (Few P) b x a \<longleftrightarrow> list_all P x"
| "yields (Group p) b x a \<longleftrightarrow> yields p b x a"
| "yields (Edge W) b x a \<longleftrightarrow> x = [] \<and> at_edge W b a"
| "yields LineEnd b x a \<longleftrightarrow> x = [] \<and> (a = [] \<or> hd a = 10)"
| "yields TextEnd b x a \<longleftrightarrow> x = [] \<and> (a = [] \<or> a = [10])"

lemma star_from_iff:
  "(b', a', g') \<in> set (many_from P g a b) \<longleftrightarrow> g' = g \<and> (\<exists>x. a = x @ a' \<and> b' = rev x @ b \<and> list_all P x)"
  "(b', a', g') \<in> set (few_from P g a b) \<longleftrightarrow> g' = g \<and> (\<exists>x. a = x @ a' \<and> b' = rev x @ b \<and> list_all P x)"
proof (induction a arbitrary: b)
  case (Cons c a)
  { case 1 show ?case by (auto simp: Cons.IH(1) Cons_eq_append_conv) next
    case 2 show ?case by (auto simp: Cons.IH(2) Cons_eq_append_conv) }
qed auto

text \<open>The matcher reaches a place exactly when the pattern yields the text up to it.\<close>

theorem results_yields:
  "(\<exists>g'. (b', a', g') \<in> set (re_results p (b, a, g))) \<longleftrightarrow> (\<exists>x. a = x @ a' \<and> b' = rev x @ b \<and> yields p b x a')"
proof (induction p arbitrary: b a g b' a')
  case (Seq p q)
  have "(\<exists>g'. (b', a', g') \<in> set (re_results (Seq p q) (b, a, g))) \<longleftrightarrow>
    (\<exists>b1 a1 g1. (b1, a1, g1) \<in> set (re_results p (b, a, g)) \<and> (\<exists>g'. (b', a', g') \<in> set (re_results q (b1, a1, g1))))"
    by fastforce
  also have "\<dots> \<longleftrightarrow> (\<exists>b1 a1. (\<exists>g1. (b1, a1, g1) \<in> set (re_results p (b, a, g))) \<and>
      (\<exists>z. a1 = z @ a' \<and> b' = rev z @ b1 \<and> yields q b1 z a'))"
    unfolding Seq.IH(2) by blast
  also have "\<dots> \<longleftrightarrow> (\<exists>x. a = x @ a' \<and> b' = rev x @ b \<and> yields (Seq p q) b x a')"
    unfolding Seq.IH(1) by fastforce
  finally show ?case .
next
  case (Alt p q)
  have "(\<exists>g'. (b', a', g') \<in> set (re_results (Alt p q) (b, a, g))) \<longleftrightarrow>
    (\<exists>g'. (b', a', g') \<in> set (re_results p (b, a, g))) \<or> (\<exists>g'. (b', a', g') \<in> set (re_results q (b, a, g)))"
    by auto
  then show ?case unfolding Alt.IH by auto
next
  case (Group p)
  have "(\<exists>g'. (b', a', g') \<in> set (re_results (Group p) (b, a, g))) \<longleftrightarrow> (\<exists>g'. (b', a', g') \<in> set (re_results p (b, a, g)))"
    by (force simp: image_iff)
  then show ?case by (simp add: Group.IH)
qed (auto simp: star_from_iff split: list.splits)

text \<open>\<^verbatim>\<open>pattern.search(text)\<close>: the leftmost match, with its groups.\<close>

fun re_search :: "pat \<Rightarrow> pystr \<Rightarrow> pystr \<Rightarrow> pystr list option" where
  "re_search p b a =
     (case re_results p (b, a, []) of
        (b', a', g) # _ \<Rightarrow> Some g
      | [] \<Rightarrow> (case a of [] \<Rightarrow> None | c # a' \<Rightarrow> re_search p (c # b) a'))"

declare re_search.simps [simp del]

text \<open>\<^verbatim>\<open>pattern.sub("", text)\<close> for a pattern that does not match the empty text.\<close>

function cut_all :: "pat \<Rightarrow> pystr \<Rightarrow> pystr \<Rightarrow> pystr" where
  "cut_all p b [] = []"
| "cut_all p b (c # a) =
     (case re_results p (b, c # a, []) of
        (b', a', g) # _ \<Rightarrow> if length a' \<le> length a then cut_all p b' a' else c # cut_all p (c # b) a
      | [] \<Rightarrow> c # cut_all p (c # b) a)"
  by pat_completeness auto
termination by (relation "measure (\<lambda>(p, b, a). length a)") auto

definition can_match :: "pat \<Rightarrow> pystr \<Rightarrow> pystr \<Rightarrow> bool" where
  "can_match p b a \<longleftrightarrow> (\<exists>x a'. a = x @ a' \<and> yields p b x a')"

lemma results_Nil_iff: "re_results p (b, a, g) = [] \<longleftrightarrow> \<not> can_match p b a"
proof -
  have "re_results p (b, a, g) = [] \<longleftrightarrow> \<not> (\<exists>b' a' g'. (b', a', g') \<in> set (re_results p (b, a, g)))"
    by (cases "re_results p (b, a, g)") auto
  then show ?thesis unfolding results_yields can_match_def by blast
qed

lemma results_miss: "\<not> can_match p b a \<Longrightarrow> re_results p (b, a, g) = []"
  by (simp add: results_Nil_iff)

lemma cut_miss: "\<not> can_match p b (c # a) \<Longrightarrow> cut_all p b (c # a) = c # cut_all p (c # b) a"
  by (simp add: results_miss)

text \<open>Where a pattern can only match up to the end of the text, the cut ends there.\<close>

lemma cut_to_end:
  assumes "can_match p b a" "\<And>x a'. a = x @ a' \<Longrightarrow> yields p b x a' \<Longrightarrow> a' = []"
  shows "cut_all p b a = []"
proof (cases a)
  case (Cons c s)
  obtain b' a' g ms where m: "re_results p (b, c # s, []) = (b', a', g) # ms"
    using assms(1) results_Nil_iff [of p b a "[]"] Cons
    by (metis list.exhaust prod_cases3)
  then have "\<exists>g'. (b', a', g') \<in> set (re_results p (b, c # s, []))" by auto
  then have "a' = []" unfolding results_yields using assms(2) Cons by blast
  then show ?thesis using m Cons by simp
qed simp

lemma cut_nothing: "(\<And>x a' b'. a = x @ a' \<Longrightarrow> \<not> can_match p b' a') \<Longrightarrow> cut_all p b a = a"
proof (induction a arbitrary: b)
  case (Cons c a)
  have "\<not> can_match p b (c # a)" using Cons.prems [of "[]"] by simp
  moreover have "cut_all p (c # b) a = a" using Cons.prems [of "c # _"] by (intro Cons.IH) auto
  ultimately show ?case by (simp add: cut_miss del: cut_all.simps)
qed simp

lemma search_nothing: "(\<And>x a' b'. a = x @ a' \<Longrightarrow> \<not> can_match p b' a') \<Longrightarrow> re_search p b a = None"
proof (induction a arbitrary: b)
  case Nil
  from Nil [of "[]"] show ?case by (simp add: re_search.simps [of p b "[]"] results_miss)
next
  case (Cons c a)
  have "\<not> can_match p b (c # a)" using Cons.prems [of "[]"] by simp
  moreover have "re_search p (c # b) a = None" using Cons.prems [of "c # _"] by (intro Cons.IH) auto
  ultimately show ?case by (simp add: re_search.simps [of p b "c # a"] results_miss)
qed

subsection \<open>The patterns of the source\<close>

definition re_seq :: "pat list \<Rightarrow> pat" where
  "re_seq ps = foldr Seq ps Eps"

text \<open>A literal under \<^verbatim>\<open>re.IGNORECASE\<close>.\<close>

definition re_word :: "string \<Rightarrow> pat" where
  "re_word s = re_seq (map (\<lambda>c. Chr (ci_match c)) (u s))"

definition re_opt :: "pat \<Rightarrow> pat" where
  "re_opt p = Alt p Eps"

definition noise_separator :: "nat \<Rightarrow> bool" where
  "noise_separator c \<longleftrightarrow> space_cp c \<or> c \<in> {0x2C, 0x2E, 0x3B}"

definition word_char :: "textlib \<Rightarrow> nat \<Rightarrow> bool" where
  "word_char tx c \<longleftrightarrow>
     (if c < 128 then (48 \<le> c \<and> c \<le> 57) \<or> (65 \<le> c \<and> c \<le> 90) \<or> (97 \<le> c \<and> c \<le> 122) \<or> c = 95 else tx_word tx c)"

definition re_decimal :: "textlib \<Rightarrow> nat \<Rightarrow> bool" where
  "re_decimal tx c \<longleftrightarrow> (if c < 128 then 48 \<le> c \<and> c \<le> 57 else tx_decimal tx c)"

definition tracking_word :: pat where
  "tracking_word =
     Alt (re_seq [re_word ''Tracking'', re_opt (Chr space_cp), re_word ''Id''])
    (Alt (re_word ''SystemTracker'')
    (Alt (re_seq [re_word ''Trace'', re_opt (Chr space_cp), re_word ''ID''])
    (Alt (re_seq [re_word ''Correlation'', re_opt (Chr space_cp), re_word ''ID''])
         (re_word ''Timestamp''))))"

definition TRACKING_TAIL_RE :: "textlib \<Rightarrow> pat" where
  "TRACKING_TAIL_RE tx =
     re_seq [Many noise_separator, Edge (word_char tx), tracking_word, Many space_cp,
               Chr (\<lambda>c. c = 0x3A \<or> c = 0x3D), Many (\<lambda>c. c \<noteq> 10), LineEnd]"

definition SUB_CODE_RE :: "textlib \<Rightarrow> pat" where
  "SUB_CODE_RE tx =
     re_seq [Many noise_separator, Edge (word_char tx), re_word ''SubCode'', Many space_cp,
               Chr (\<lambda>c. c = 0x3A \<or> c = 0x3D), Many space_cp, Chr (re_decimal tx), Many (re_decimal tx)]"

definition STATUS_DETAIL_RE :: pat where
  "STATUS_DETAIL_RE =
     re_seq [re_word ''Operation returned an invalid status '', Chr ((=) 0x27), Group (Many (\<lambda>c. c \<noteq> 0x27)), Chr ((=) 0x27),
               Few (\<lambda>_. True), re_word ''<Detail>'', Group (Few (\<lambda>_. True)), Alt (re_word ''</Detail>'') TextEnd]"

subsection \<open>The concise text\<close>

text \<open>\<^verbatim>\<open>text.split()\<close>, \<^verbatim>\<open>" ".join(text.split())\<close>, \<^verbatim>\<open>lstrip\<close> and \<^verbatim>\<open>rstrip\<close>.\<close>

function split_space :: "pystr \<Rightarrow> pystr list" where
  "split_space [] = []"
| "split_space (c # s) =
     (if space_cp c then split_space s
      else (c # takeWhile (\<lambda>x. \<not> space_cp x) s) # split_space (dropWhile (\<lambda>x. \<not> space_cp x) s))"
  by pat_completeness auto
termination by (relation "measure length") (auto simp: le_imp_less_Suc length_dropWhile_le)

definition collapse :: "pystr \<Rightarrow> pystr" where
  "collapse s = join_with [32] (split_space s)"

definition strip_left :: "(nat \<Rightarrow> bool) \<Rightarrow> pystr \<Rightarrow> pystr" where
  "strip_left P s = dropWhile P s"

definition strip_right :: "(nat \<Rightarrow> bool) \<Rightarrow> pystr \<Rightarrow> pystr" where
  "strip_right P s = rev (dropWhile P (rev s))"

definition trim_noise :: "pystr \<Rightarrow> pystr" where
  "trim_noise s =
     strip_right (\<lambda>c. c \<in> {0x20, 0x2C, 0x3B, 0x3A}) (strip_left (\<lambda>c. c \<in> {0x20, 0x2C, 0x2E, 0x3B, 0x3A}) s)"

definition status_detail :: "textlib \<Rightarrow> pystr \<Rightarrow> pystr" where
  "status_detail tx s =
     (case re_search STATUS_DETAIL_RE [] s of
        Some [reason, detail] \<Rightarrow> reason @ u '': '' @ tx_unescape tx detail
      | _ \<Rightarrow> s)"

definition concise_details :: "textlib \<Rightarrow> pystr \<Rightarrow> pystr" where
  "concise_details tx s =
     (let concise = trim_noise (collapse (cut_all (SUB_CODE_RE tx) [] (cut_all (TRACKING_TAIL_RE tx) [] (status_detail tx s))))
      in if concise = [] then collapse s else concise)"

subsection \<open>What the patterns match\<close>

lemma yields_sequence [simp]:
  "yields (re_seq []) b x a \<longleftrightarrow> x = []"
  "yields (re_seq (p # ps)) b x a \<longleftrightarrow>
     (\<exists>y z. x = y @ z \<and> yields p b y (z @ a) \<and> yields (re_seq ps) (rev y @ b) z a)"
  by (simp_all add: re_seq_def)

lemma yields_sequenceI:
  "yields p b y (z @ a) \<Longrightarrow> yields (re_seq ps) (rev y @ b) z a \<Longrightarrow> yields (re_seq (p # ps)) b (y @ z) a"
  "yields (re_seq []) b [] a"
  by auto

lemma yields_opt [simp]: "yields (re_opt p) b x a \<longleftrightarrow> yields p b x a \<or> x = []"
  by (simp add: re_opt_def)

lemma yields_letters: "yields (re_seq (map (\<lambda>c. Chr (ci_match c)) ks)) b x a \<longleftrightarrow> list_all2 ci_match ks x"
proof (induction ks arbitrary: b x)
  case (Cons k ks)
  have "yields (re_seq (map (\<lambda>c. Chr (ci_match c)) (k # ks))) b x a \<longleftrightarrow> (\<exists>c z. x = c # z \<and> ci_match k c \<and> list_all2 ci_match ks z)"
    by (simp add: Cons.IH) (metis append_Cons append_Nil)
  then show ?case by (cases x) auto
qed auto

lemma yields_word [simp]: "yields (re_word s) b x a \<longleftrightarrow> list_all2 ci_match (u s) x"
  by (simp add: re_word_def yields_letters)

text \<open>A word of letters holds neither a separator nor the mark of a value.\<close>

definition value_mark :: "nat \<Rightarrow> bool" where
  "value_mark c \<longleftrightarrow> c = 0x3A \<or> c = 0x3D"

definition ascii_letter :: "nat \<Rightarrow> bool" where
  "ascii_letter k \<longleftrightarrow> (65 \<le> k \<and> k \<le> 90) \<or> (97 \<le> k \<and> k \<le> 122)"

definition ascii_letters :: "string \<Rightarrow> bool" where
  "ascii_letters s \<longleftrightarrow> list_all ascii_letter (u s)"

definition inner_char :: "nat \<Rightarrow> bool" where
  "inner_char c \<longleftrightarrow> c \<notin> {0x2C, 0x2E, 0x3B} \<and> \<not> value_mark c"

lemma ci_match_inner: "ascii_letter k \<Longrightarrow> ci_match k c \<Longrightarrow> inner_char c"
  by (auto simp: ascii_letter_def ci_match_def lower_cp_def inner_char_def value_mark_def split: if_splits)

lemma letters_inner: "ascii_letters s \<Longrightarrow> list_all2 ci_match (u s) x \<Longrightarrow> list_all inner_char x"
  unfolding ascii_letters_def by (rotate_tac, induction rule: list_all2_induct) (auto dest: ci_match_inner)

lemma space_inner: "space_cp c \<Longrightarrow> inner_char c"
  by (auto simp: space_cp_def inner_char_def value_mark_def)

lemma tracking_word_inner: "yields tracking_word b x a \<Longrightarrow> list_all inner_char x"
proof -
  have "ascii_letters ''Tracking''" "ascii_letters ''Id''" "ascii_letters ''SystemTracker''" "ascii_letters ''Trace''" "ascii_letters ''ID''"
    "ascii_letters ''Correlation''" "ascii_letters ''Timestamp''"
    by (simp_all add: ascii_letters_def ascii_letter_def u_def)
  then show "yields tracking_word b x a \<Longrightarrow> list_all inner_char x"
    unfolding tracking_word_def by (auto dest: letters_inner space_inner)
qed

lemma separator_unmarked: "noise_separator c \<Longrightarrow> \<not> value_mark c"
  by (auto simp: noise_separator_def space_cp_def value_mark_def)

text \<open>A tracking tail: separators, a word of its own, blanks, the mark, and the rest of the line.\<close>

lemma tracking_shape:
  assumes "yields (TRACKING_TAIL_RE tx) b x a"
  obtains s w c r where "x = s @ w @ c # r" "list_all noise_separator s" "list_all inner_char w" "value_mark c" "a = [] \<or> hd a = 10"
proof -
  obtain s w sp c r where x: "x = s @ w @ sp @ c # r" "list_all noise_separator s" "yields tracking_word (rev s @ b) w (sp @ c # r @ a)"
    "list_all space_cp sp" "value_mark c" "a = [] \<or> hd a = 10"
    using assms by (auto simp: TRACKING_TAIL_RE_def value_mark_def)
  moreover have "list_all inner_char (w @ sp)"
    using tracking_word_inner [OF x(3)] x(4) by (auto simp: list_all_iff space_inner)
  ultimately show ?thesis using that [of s "w @ sp" c r] by simp
qed

lemma possible_needs_mark:
  "can_match (TRACKING_TAIL_RE tx) b a \<Longrightarrow> \<exists>c \<in> set a. value_mark c"
  "can_match (SUB_CODE_RE tx) b a \<Longrightarrow> \<exists>c \<in> set a. value_mark c"
proof -
  show "can_match (TRACKING_TAIL_RE tx) b a \<Longrightarrow> \<exists>c \<in> set a. value_mark c"
    by (auto simp: can_match_def elim!: tracking_shape)
  show "can_match (SUB_CODE_RE tx) b a \<Longrightarrow> \<exists>c \<in> set a. value_mark c"
    unfolding can_match_def SUB_CODE_RE_def value_mark_def yields_sequence yields.simps by force
qed

lemma possible_needs_tag: "can_match STATUS_DETAIL_RE b a \<Longrightarrow> 0x3C \<in> set a"
proof -
  have "ci_match 0x3C c \<longleftrightarrow> c = 0x3C" for c by (auto simp: ci_match_def lower_cp_def)
  then show "can_match STATUS_DETAIL_RE b a \<Longrightarrow> 0x3C \<in> set a"
    by (auto simp: can_match_def STATUS_DETAIL_RE_def u_def list_all2_Cons1)
qed

lemma no_tag_no_detail: "0x3C \<notin> set s \<Longrightarrow> status_detail tx s = s"
  unfolding status_detail_def
  by (subst search_nothing) (auto dest: possible_needs_tag)

lemma unmarked_uncut:
  assumes "\<forall>c \<in> set s. \<not> value_mark c"
  shows "cut_all (TRACKING_TAIL_RE tx) b s = s" "cut_all (SUB_CODE_RE tx) b s = s"
  using assms by (auto intro!: cut_nothing dest: possible_needs_mark)

subsection \<open>Cutting a tracking tail\<close>

text \<open>The words Azure writes before a tracking value.\<close>

definition tracking_markers :: "string list" where
  "tracking_markers = [''TrackingId'', ''Tracking Id'', ''SystemTracker'', ''Trace ID'', ''Correlation ID'', ''Timestamp'']"

lemma word_self: "list_all2 ci_match (u s) (u s)"
  by (simp add: list_all2_same ci_match_def)

lemma marker_matches:
  assumes "m \<in> set tracking_markers"
  shows "yields tracking_word b (u m) a"
proof -
  have split: "u ''Tracking Id'' = u ''Tracking'' @ u '' '' @ u ''Id''" "u ''TrackingId'' = u ''Tracking'' @ u ''Id''"
    "u ''Trace ID'' = u ''Trace'' @ u '' '' @ u ''ID''" "u ''Correlation ID'' = u ''Correlation'' @ u '' '' @ u ''ID''"
    unfolding u_append [symmetric] by simp_all
  have blank: "\<exists>c. u '' '' = [c] \<and> space_cp c" by (simp add: u_def space_cp_def)
  show ?thesis
    using assms blank word_self split unfolding tracking_word_def tracking_markers_def
    by (simp only: set_simps insert_iff empty_iff yields.simps yields_sequence yields_opt yields_word) (metis append_Nil append_Nil2)
qed

lemma marker_letters: "m \<in> set tracking_markers \<Longrightarrow> u m \<noteq> [] \<and> ascii_letter (hd (u m)) \<and> list_all inner_char (u m)"
  by (auto simp: tracking_markers_def u_def ascii_letter_def inner_char_def value_mark_def)

lemma strip_right_Cons: "strip_right P (c # s) = (if list_all P (c # s) then [] else c # strip_right P s)"
  by (auto simp: strip_right_def dropWhile_append list_all_iff)

lemma strip_right_all: "list_all P s \<Longrightarrow> strip_right P s = []"
  by (simp add: strip_right_def list_all_iff)

lemma set_strip_right: "set (strip_right P s) \<subseteq> set s"
  by (auto simp: strip_right_def dest: set_dropWhileD)

lemma first_mark:
  "xs @ d # ys = xs' @ d' # ys' \<Longrightarrow> \<forall>e \<in> set xs. \<not> P e \<Longrightarrow> \<forall>e \<in> set xs'. \<not> P e \<Longrightarrow> P d \<Longrightarrow> P d' \<Longrightarrow>
     xs = xs' \<and> ys = ys'"
proof (induction xs arbitrary: xs')
  case (Cons e xs)
  then show ?case by (cases xs') auto
qed (auto simp: Cons_eq_append_conv)

text \<open>What comes before the mark of a match, when there is no mark in the text before it.\<close>

lemma tracking_before_mark:
  assumes "yields (TRACKING_TAIL_RE tx) b x a" "x @ a = y @ c # z" "value_mark c" "\<forall>d \<in> set y. \<not> value_mark d"
  obtains s w r where "y = s @ w" "z = r @ a" "list_all noise_separator s" "list_all inner_char w" "a = [] \<or> hd a = 10"
proof -
  obtain s w d r where m: "x = s @ w @ d # r" "list_all noise_separator s" "list_all inner_char w" "value_mark d" "a = [] \<or> hd a = 10"
    using tracking_shape [OF assms(1)] by blast
  have clean: "\<forall>e \<in> set (s @ w). \<not> value_mark e"
    using m(2,3) by (auto simp: list_all_iff inner_char_def dest: separator_unmarked)
  have "(s @ w) @ d # (r @ a) = y @ c # z" using assms(2) m(1) by simp
  then have "s @ w = y \<and> r @ a = z" by (rule first_mark [where P = value_mark, OF _ clean assms(4) m(4) assms(3)])
  then show ?thesis using that m by auto
qed

text \<open>A text up to and with a tracking tail, as Azure writes it.\<close>

definition tracking_tail :: "nat \<Rightarrow> pystr \<Rightarrow> string \<Rightarrow> pystr \<Rightarrow> pystr" where
  "tracking_tail p blanks m tail = p # blanks @ u m @ 0x3A # tail"

definition tracking_parts :: "nat \<Rightarrow> pystr \<Rightarrow> string \<Rightarrow> pystr \<Rightarrow> bool" where
  "tracking_parts p blanks m tail \<longleftrightarrow>
     p \<in> {0x2C, 0x2E, 0x3B} \<and> set blanks \<subseteq> {32} \<and> m \<in> set tracking_markers \<and> 10 \<notin> set tail"

lemma tail_match_place:
  assumes "tracking_parts p blanks m tail" "\<forall>c \<in> set x. \<not> value_mark c"
    "x @ tracking_tail p blanks m tail = y @ a" "yields (TRACKING_TAIL_RE tx) b y a"
  shows "list_all noise_separator x \<and> a = []"
proof -
  have "\<forall>d \<in> set (x @ p # blanks @ u m). \<not> value_mark d"
    using assms(1,2) marker_letters [of m] by (auto simp: tracking_parts_def list_all_iff inner_char_def value_mark_def)
  moreover have "y @ a = (x @ p # blanks @ u m) @ 0x3A # tail" using assms(3) by (simp add: tracking_tail_def)
  moreover have "value_mark 0x3A" by (simp add: value_mark_def)
  ultimately obtain s w r where m: "x @ p # blanks @ u m = s @ w" "tail = r @ a" "list_all noise_separator s" "list_all inner_char w"
    "a = [] \<or> hd a = 10"
    using tracking_before_mark [OF assms(4)] by metis
  have "a = []" using assms(1) m(2,5) by (cases a) (auto simp: tracking_parts_def)
  moreover have "\<not> inner_char p" using assms(1) by (auto simp: tracking_parts_def inner_char_def)
  then have "list_all noise_separator x" using m(1,3,4) by (auto simp: append_eq_append_conv2 Cons_eq_append_conv)
  ultimately show ?thesis by simp
qed

lemma tail_matches:
  assumes "tracking_parts p blanks m tail" "list_all noise_separator x"
  shows "can_match (TRACKING_TAIL_RE tx) b (x @ tracking_tail p blanks m tail)"
proof -
  let ?s = "x @ p # blanks"
  have "noise_separator c" if "c \<in> {0x20, 0x2C, 0x2E, 0x3B}" for c
    using that by (auto simp: noise_separator_def space_cp_def)
  then have sep: "list_all noise_separator ?s"
    using assms by (auto simp: tracking_parts_def list_all_iff)
  have "last ?s \<in> {0x20, 0x2C, 0x2E, 0x3B}"
  proof -
    have "last (p # blanks) \<in> set (p # blanks)" by (rule last_in_set) simp
    then show ?thesis 
      using assms(1) by (auto simp: tracking_parts_def simp del: last.simps last_in_set)
  qed
  then have left: "\<not> word_char tx (hd (rev ?s @ b))"
    unfolding hd_append hd_rev by (auto simp: word_char_def)
  have "ascii_letter (hd (u m)) \<and> u m \<noteq> []" using assms(1) marker_letters [of m] by (auto simp: tracking_parts_def)
  then have "word_char tx (hd (u m @ 0x3A # tail))" by (auto simp: ascii_letter_def word_char_def)
  with left have "at_edge (word_char tx) (rev ?s @ b) (u m @ 0x3A # tail)" by (simp add: at_edge_def)
  moreover have "yields tracking_word b' (u m) a'" for b' a'
    using assms(1) by (intro marker_matches) (simp add: tracking_parts_def)
  moreover have "list_all (\<lambda>c. c \<noteq> 10) tail" using assms(1) by (auto simp: tracking_parts_def list_all_iff)
  ultimately have "yields (TRACKING_TAIL_RE tx) b (?s @ [] @ u m @ [] @ [0x3A] @ tail @ [] @ []) []"
    unfolding TRACKING_TAIL_RE_def using sep by (intro yields_sequenceI) simp_all
  then show ?thesis
    unfolding can_match_def tracking_tail_def by (intro exI [of _ "?s @ u m @ [0x3A] @ tail"] exI [of _ "[]"]) simp
qed

lemma cut_tail:
  assumes "tracking_parts p blanks m tail" "\<forall>c \<in> set x. \<not> value_mark c"
  shows "cut_all (TRACKING_TAIL_RE tx) b (x @ tracking_tail p blanks m tail) = strip_right noise_separator x"
  using assms(2)
proof (induction x arbitrary: b)
  case Nil
  show ?case
    using tail_matches [OF assms(1), of "[]"] tail_match_place [OF assms(1), of "[]"]
    by (simp add: cut_to_end strip_right_def)
next
  case (Cons c x)
  show ?case
  proof (cases "list_all noise_separator (c # x)")
    case True
    have "cut_all (TRACKING_TAIL_RE tx) b ((c # x) @ tracking_tail p blanks m tail) = []"
      using tail_matches [OF assms(1) True] tail_match_place [OF assms(1) Cons.prems] by (intro cut_to_end) blast+
    then show ?thesis using True by (simp add: strip_right_all)
  next
    case False
    then have "\<not> can_match (TRACKING_TAIL_RE tx) b (c # x @ tracking_tail p blanks m tail)"
      using tail_match_place [OF assms(1) Cons.prems] unfolding can_match_def by force
    then show ?thesis using Cons False by (simp add: cut_miss strip_right_Cons del: cut_all.simps)
  qed
qed

subsection \<open>The first match of the status pattern\<close>

lemma re_results_seq [simp]:
  "re_results (re_seq []) p = [p]"
  "re_results (re_seq (q # ps)) p = concat (map (re_results (re_seq ps)) (re_results q p))"
  by (simp_all add: re_seq_def)

lemma re_results_single: "re_results (re_seq [p]) s = re_results p s"
proof -
  have "concat (map (\<lambda>x. [x]) xs) = xs" for xs :: "place list" by (induction xs) simp_all
  then show ?thesis by (simp add: re_seq_def)
qed

lemma re_results_group:
  "re_results (re_seq (Group p # ps)) (b, a, g) =
     concat (map (\<lambda>(b', a', g'). re_results (re_seq ps) (b', a', g' @ [take (length a - length a') a])) (re_results p (b, a, g)))"
  by (simp add: comp_def case_prod_unfold)

lemma re_results_word:
  "re_results (re_word s) (b, a, g) =
     (if list_all2 ci_match (u s) (take (length (u s)) a)
      then [(rev (take (length (u s)) a) @ b, drop (length (u s)) a, g)] else [])"
proof -
  have "re_results (re_seq (map (\<lambda>c. Chr (ci_match c)) ks)) (b, a, g) =
      (if list_all2 ci_match ks (take (length ks) a) then [(rev (take (length ks) a) @ b, drop (length ks) a, g)] else [])" for ks
  proof (induction ks arbitrary: a b)
    case (Cons k ks)
    then show ?case by (cases a) simp_all
  qed simp
  then show ?thesis by (simp add: re_word_def)
qed

lemma re_results_word_self: "re_results (re_word s) (b, u s @ a, g) = [(rev (u s) @ b, a, g)]"
  using word_self [of s] by (simp add: re_results_word)

text \<open>A greedy star takes all it can, a lazy one stops at the first place from which the rest matches.\<close>

lemma many_first:
  "list_all P x \<Longrightarrow> a = [] \<or> \<not> P (hd a) \<Longrightarrow> f (rev x @ b, a, g) = r # rs \<Longrightarrow>
     \<exists>rs'. concat (map f (many_from P g (x @ a) b)) = r # rs'"
proof (induction x arbitrary: b)
  case Nil
  then show ?case by (cases a) auto
next
  case (Cons c x)
  have "\<exists>rs'. concat (map f (many_from P g (x @ a) (c # b))) = r # rs'"
    using Cons.prems by (intro Cons.IH) simp_all
  then show ?case using Cons.prems(1) by auto
qed

lemma few_first:
  "\<forall>i < length x. f (rev (take i x) @ b, drop i x @ a, g) = [] \<Longrightarrow> f (rev x @ b, a, g) = r # rs \<Longrightarrow>
     \<exists>rs'. concat (map f (few_from (\<lambda>_. True) g (x @ a) b)) = r # rs'"
proof (induction x arbitrary: b)
  case Nil
  then show ?case by (cases a) auto
next
  case (Cons c x)
  have "f (b, c # x @ a, g) = []" using Cons.prems(1) by (metis append.simps drop0 length_greater_0_conv list.distinct(1) rev.simps(1) take0)
  moreover have "\<forall>i < length x. f (rev (take i x) @ c # b, drop i x @ a, g) = []"
    using Cons.prems(1) by (metis Suc_less_eq append.assoc append_Cons append_Nil drop_Suc_Cons length_Cons rev.simps(2) take_Suc_Cons)
  ultimately show ?case using Cons.IH [of "c # b"] Cons.prems(2) by auto
qed

text \<open>The tag occurs in \<open>s @ tag\<close> at its end only, in any letter case.\<close>

definition first_tag :: "string \<Rightarrow> pystr \<Rightarrow> bool" where
  "first_tag t s \<longleftrightarrow>
     (\<forall>i \<in> set [0..<length s]. \<not> list_all2 ci_match (u t) (take (length (u t)) (drop i (s @ u t))))"

lemma first_tag_results:
  assumes "first_tag t s" "i < length s"
  shows "re_results (re_word t) (b, drop i s @ u t @ a, g) = []"
proof -
  have "take (length (u t)) (drop i (s @ u t)) = take (length (u t)) (drop i s @ u t @ a)"
    using assms(2) by simp
  then show ?thesis using assms by (simp add: first_tag_def re_results_word)
qed

text \<open>A management error as azure-core words it.\<close>

definition management_text :: "pystr \<Rightarrow> pystr \<Rightarrow> pystr \<Rightarrow> pystr \<Rightarrow> pystr" where
  "management_text reason xml detail rest =
     u ''Operation returned an invalid status '' @ 0x27 # reason @ 0x27 # xml @ u ''<Detail>'' @ detail @ u ''</Detail>'' @ rest"

lemma search_first: "re_results p (b, a, []) = (b', a', g) # rs \<Longrightarrow> re_search p b a = Some g"
  by (subst re_search.simps) simp

text \<open>The end of the status pattern, from the captured detail on, and what precedes it up to the reason.\<close>

abbreviation detail_pats :: "pat list" where
  "detail_pats \<equiv> [Group (Few (\<lambda>_. True)), Alt (re_word ''</Detail>'') TextEnd]"

abbreviation tagged_pats :: "pat list" where
  "tagged_pats \<equiv> Few (\<lambda>_. True) # re_word ''<Detail>'' # detail_pats"

lemma no_text_end: "2 < length a \<Longrightarrow> a \<noteq> [10]"
  by auto

lemma detail_found:
  assumes "first_tag ''</Detail>'' detail"
  shows "\<exists>b' a' rs. re_results (re_seq detail_pats) (b, detail @ u ''</Detail>'' @ rest, g) = (b', a', g @ [detail]) # rs"
proof -
  let ?close = "Alt (re_word ''</Detail>'') TextEnd" and ?t = "detail @ u ''</Detail>'' @ rest"
  let ?f = "\<lambda>(b', a', g'). re_results (re_seq [?close]) (b', a', g' @ [take (length ?t - length a') ?t])"
  have "\<exists>rs'. concat (map ?f (few_from (\<lambda>_. True) g ?t b)) = (rev (u ''</Detail>'') @ rev detail @ b, rest, g @ [detail]) # rs'"
  proof (rule few_first)
    have "drop i detail @ u ''</Detail>'' @ rest \<noteq> [10]" for i
      by (rule no_text_end) (simp add: u_def)
    moreover have "u ''</Detail>'' \<noteq> []" by (simp add: u_def)
    ultimately show "\<forall>i < length detail. ?f (rev (take i detail) @ b, drop i detail @ u ''</Detail>'' @ rest, g) = []"
      using first_tag_results [OF assms] by (simp add: re_results_single del: re_results_seq)
  qed (simp add: re_results_word_self re_results_single del: re_results_seq)
  then show ?thesis unfolding re_results_group by (simp only: re_results.simps prod.case) blast
qed

lemma tagged_found:
  assumes "first_tag ''<Detail>'' xml" "first_tag ''</Detail>'' detail"
  shows "\<exists>b' a' rs. re_results (re_seq tagged_pats) (b, xml @ u ''<Detail>'' @ detail @ u ''</Detail>'' @ rest, g)
    = (b', a', g @ [detail]) # rs"
proof -
  let ?d = "detail @ u ''</Detail>'' @ rest" and ?q = "re_seq (re_word ''<Detail>'' # detail_pats)"
  obtain b' a' rs where r: "re_results (re_seq detail_pats) (rev (u ''<Detail>'') @ rev xml @ b, ?d, g) = (b', a', g @ [detail]) # rs"
    using detail_found [OF assms(2)] by blast
  have "\<exists>rs'. concat (map (re_results ?q) (few_from (\<lambda>_. True) g (xml @ u ''<Detail>'' @ ?d) b)) = (b', a', g @ [detail]) # rs'"
  proof (rule few_first)
    show "\<forall>i < length xml. re_results ?q (rev (take i xml) @ b, drop i xml @ u ''<Detail>'' @ ?d, g) = []"
      using first_tag_results [OF assms(1)] by simp
    show "re_results ?q (rev xml @ b, u ''<Detail>'' @ ?d, g) = (b', a', g @ [detail]) # (rs @ [])"
      unfolding re_results_seq(2) [of "re_word ''<Detail>''"] re_results_word_self using r by simp
  qed
  then show ?thesis by (subst re_results_seq(2)) auto
qed

lemma reason_found:
  assumes "0x27 \<notin> set reason" "first_tag ''<Detail>'' xml" "first_tag ''</Detail>'' detail"
    and d: "d = xml @ u ''<Detail>'' @ detail @ u ''</Detail>'' @ rest"
  shows "\<exists>b' a' rs. re_results (re_seq (Group (Many (\<lambda>c. c \<noteq> 0x27)) # Chr ((=) 0x27) # tagged_pats)) (b, reason @ 0x27 # d, [])
    = (b', a', [reason, detail]) # rs"
proof -
  let ?t = "reason @ 0x27 # d"
  let ?f = "\<lambda>(b', a', g'). re_results (re_seq (Chr ((=) 0x27) # tagged_pats)) (b', a', g' @ [take (length ?t - length a') ?t])"
  obtain b' a' rs where m: "re_results (re_seq tagged_pats) (0x27 # rev reason @ b, d, [reason]) = (b', a', [reason] @ [detail]) # rs"
    unfolding d using tagged_found [OF assms(2,3)] by blast
  have "\<exists>rs'. concat (map ?f (many_from (\<lambda>c. c \<noteq> 0x27) [] ?t b)) = (b', a', [reason] @ [detail]) # rs'"
  proof (rule many_first)
    show "list_all (\<lambda>c. c \<noteq> 0x27) reason" using assms(1) by (auto simp: list_all_iff)
    show "?f (rev reason @ b, 0x27 # d, []) = (b', a', [reason] @ [detail]) # (rs @ [])"
      using m by (simp del: re_results_seq add: re_results_seq(2) [of "Chr _"])
  qed simp
  then show ?thesis
    unfolding re_results_group [of "Many _"] by (simp only: re_results.simps prod.case append_Cons append_Nil) blast
qed

lemma status_detail_found:
  assumes "0x27 \<notin> set reason" "first_tag ''<Detail>'' xml" "first_tag ''</Detail>'' detail"
  shows "status_detail tx (management_text reason xml detail rest) = reason @ u '': '' @ tx_unescape tx detail"
proof -
  obtain b' a' rs where r: "re_results (re_seq (Group (Many (\<lambda>c. c \<noteq> 0x27)) # Chr ((=) 0x27) # tagged_pats))
      (0x27 # rev (u ''Operation returned an invalid status '') @ [],
       reason @ 0x27 # xml @ u ''<Detail>'' @ detail @ u ''</Detail>'' @ rest, []) = (b', a', [reason, detail]) # rs"
    using reason_found [OF assms refl] by blast
  have "re_results STATUS_DETAIL_RE ([], management_text reason xml detail rest, []) = (b', a', [reason, detail]) # (rs @ []) @ []"
    unfolding STATUS_DETAIL_RE_def management_text_def re_results_seq(2) [of "re_word ''Operation returned an invalid status ''"]
      re_results_word_self
    using r by (simp del: re_results_seq add: re_results_seq(2) [of "Chr _"])
  then show ?thesis by (simp add: status_detail_def search_first)
qed

subsection \<open>Properties of the concise text\<close>

text \<open>Words separated by single blanks.\<close>

definition one_line :: "pystr \<Rightarrow> bool" where
  "one_line s \<longleftrightarrow>
     (\<forall>c \<in> set s. space_cp c \<longrightarrow> c = 32) \<and> successively (\<lambda>x y. \<not> (x = 32 \<and> y = 32)) s"

definition solid :: "pystr \<Rightarrow> bool" where
  "solid w \<longleftrightarrow> w \<noteq> [] \<and> (\<forall>c \<in> set w. \<not> space_cp c)"

lemma space_blank [simp]: "space_cp 32"
  by (simp add: space_cp_def)

lemma solid_word: "\<not> space_cp c \<Longrightarrow> solid (c # takeWhile (\<lambda>x. \<not> space_cp x) s)"
  unfolding solid_def by (auto dest: set_takeWhileD)

lemma split_space_words: "\<forall>w \<in> set (split_space s). solid w"
  by (induction s rule: split_space.induct) (simp_all add: solid_word)

lemma successively_if_none: "\<forall>c \<in> set w. \<not> P c \<Longrightarrow> successively (\<lambda>x y. \<not> (P x \<and> P y)) w"
  by (induction w rule: induct_list012) simp_all

lemma solid_one_line:
  assumes "solid w"
  shows "one_line w" "hd w \<noteq> 32" "last w \<noteq> 32"
proof -
  have w: "\<forall>c \<in> set w. \<not> space_cp c" "w \<noteq> []" using assms by (simp_all add: solid_def)
  then have b: "\<forall>c \<in> set w. c \<noteq> 32" using space_blank by blast
  show "one_line w"
    unfolding one_line_def using w(1) successively_if_none [where P = "\<lambda>c. c = 32", OF b] by blast
  show "hd w \<noteq> 32" using b hd_in_set [OF w(2)] by blast
  show "last w \<noteq> 32" using b last_in_set [OF w(2)] by blast
qed

lemma successively_sep:
  "successively P x \<Longrightarrow> successively P y \<Longrightarrow> (x \<noteq> [] \<Longrightarrow> P (last x) c) \<Longrightarrow> (y \<noteq> [] \<Longrightarrow> P c (hd y)) \<Longrightarrow>
     successively P (x @ c # y)"
  by (auto simp: successively_append_iff successively_Cons)

lemma one_line_append:
  assumes "one_line x" "one_line y" "last x \<noteq> 32" "hd y \<noteq> 32"
  shows "one_line (x @ 32 # y)"
proof -
  have "successively (\<lambda>x y. \<not> (x = 32 \<and> y = 32)) (x @ 32 # y)"
    by (rule successively_sep) (use assms in \<open>simp_all only: one_line_def, simp_all\<close>)
  moreover have "\<forall>c \<in> set (x @ 32 # y). space_cp c \<longrightarrow> c = 32"
    using assms(1,2) unfolding one_line_def set_append list.set by blast
  ultimately show ?thesis unfolding one_line_def by blast
qed

lemma one_line_join:
  "\<forall>w \<in> set ws. solid w \<Longrightarrow>
     one_line (join_with [32] ws) \<and> (ws \<noteq> [] \<longrightarrow> join_with [32] ws \<noteq> [] \<and> hd (join_with [32] ws) \<noteq> 32)"
proof (induction "[32::nat]" ws rule: join_with.induct)
  case 1
  show ?case by (simp add: one_line_def)
next
  case (2 w)
  then show ?case using solid_one_line [of w] by (simp add: solid_def)
next
  case (3 w v ws)
  have w: "one_line w" "w \<noteq> []" "last w \<noteq> 32" "hd w \<noteq> 32"
    using 3(2) solid_one_line [of w] by (simp_all add: solid_def)
  have "one_line (join_with [32] (v # ws))" "hd (join_with [32] (v # ws)) \<noteq> 32" using 3 by simp_all
  then show ?case using one_line_append [OF w(1) _ w(3)] w(2,4) by simp
qed

lemma collapse_one_line: "one_line (collapse s)"
  unfolding collapse_def by (rule one_line_join [OF split_space_words, THEN conjunct1])

lemma split_space_Nil_iff: "split_space s = [] \<longleftrightarrow> list_all space_cp s"
  by (induction s rule: split_space.induct) simp_all

lemma collapse_Nil_iff: "collapse s = [] \<longleftrightarrow> list_all space_cp s"
proof (cases "split_space s = []")
  case True
  then show ?thesis by (simp add: collapse_def split_space_Nil_iff [symmetric])
next
  case False
  then show ?thesis
    using one_line_join [OF split_space_words, of s] by (simp add: collapse_def split_space_Nil_iff [symmetric])
qed

lemma one_line_part: "one_line (x @ s @ y) \<Longrightarrow> one_line s"
  unfolding one_line_def successively_append_iff by (simp only: set_append ball_Un) blast

lemma strip_part: "\<exists>x y. s = x @ strip_left P s @ y" "\<exists>x y. s = x @ strip_right P s @ y"
proof -
  have "s = takeWhile P s @ strip_left P s @ []" by (simp add: strip_left_def)
  then show "\<exists>x y. s = x @ strip_left P s @ y" by blast
  have "s = [] @ strip_right P s @ rev (takeWhile P (rev s))"
    unfolding strip_right_def by (simp flip: rev_append)
  then show "\<exists>x y. s = x @ strip_right P s @ y" by blast
qed

lemma trim_one_line: "one_line s \<Longrightarrow> one_line (trim_noise s)"
  unfolding trim_noise_def by (metis one_line_part strip_part)

lemma concise_details_one_line: "one_line (concise_details tx s)"
  by (simp add: concise_details_def Let_def collapse_one_line trim_one_line)

text \<open>What is shown for a text whose meaningful part is \<open>s\<close>: the part, or the whole text where nothing is left.\<close>

definition shown_details :: "pystr \<Rightarrow> pystr \<Rightarrow> pystr" where
  "shown_details s t = (if trim_noise (collapse s) = [] then collapse t else trim_noise (collapse s))"

definition unmarked_text :: "pystr \<Rightarrow> bool" where
  "unmarked_text s \<longleftrightarrow> (\<forall>c \<in> set s. \<not> value_mark c \<and> c \<noteq> 0x3C)"

lemma concise_unmarked: "unmarked_text s \<Longrightarrow> concise_details tx s = shown_details s s"
proof -
  assume s: "unmarked_text s"
  then have "status_detail tx s = s" unfolding unmarked_text_def by (intro no_tag_no_detail) blast
  then show ?thesis using s by (simp add: unmarked_text_def shown_details_def concise_details_def unmarked_uncut)
qed

lemma concise_Nil_iff: "concise_details tx s = [] \<longleftrightarrow> list_all space_cp s"
proof
  assume "concise_details tx s = []"
  then show "list_all space_cp s"
    by (simp add: concise_details_def Let_def collapse_Nil_iff split: if_splits)
next
  assume s: "list_all space_cp s"
  then have "unmarked_text s" by (auto simp: unmarked_text_def list_all_iff space_cp_def value_mark_def)
  then show "concise_details tx s = []"
    using s collapse_Nil_iff [of s] by (simp add: concise_unmarked shown_details_def trim_noise_def strip_left_def strip_right_def)
qed

lemma concise_tracked:
  assumes "unmarked_text s" "tracking_parts p blanks m tail" "0x3C \<notin> set tail"
  shows "concise_details tx (s @ tracking_tail p blanks m tail) =
     shown_details (strip_right noise_separator s) (s @ tracking_tail p blanks m tail)"
proof -
  have "0x3C \<notin> set (u m)" using assms(2) by (auto simp: tracking_parts_def tracking_markers_def u_def)
  then have "status_detail tx (s @ tracking_tail p blanks m tail) = s @ tracking_tail p blanks m tail"
    using assms by (intro no_tag_no_detail) (auto simp: tracking_tail_def tracking_parts_def unmarked_text_def)
  moreover have "\<forall>c \<in> set (strip_right noise_separator s). \<not> value_mark c"
    using assms(1) set_strip_right unfolding unmarked_text_def by blast
  ultimately show ?thesis
    using assms(1) by (simp add: unmarked_text_def shown_details_def concise_details_def cut_tail [OF assms(2)] unmarked_uncut)
qed


definition ascii_text :: textlib where
  "ascii_text = \<lparr>tx_word = (\<lambda>_. False), tx_decimal = (\<lambda>_. False), tx_unescape = (\<lambda>s. s)\<rparr>"


end
