(* ===== verification/Client.thy ===== *)
theory Client
  imports Details
begin

text \<open>
  Exceptions, and \<^verbatim>\<open>src/client.py\<close>: redaction of secrets, recognition of session mismatches, credential
  failures and management denials, and the mapping of SDK errors to user errors.

  An exception is a tree: its class, its text, the SDK's \<^verbatim>\<open>inner_exception\<close>, its
  \<^verbatim>\<open>__cause__\<close> and whether it was raised inside azure-identity. The classes are those the source
  tests for; every other one is \<open>OtherServiceBus\<close>, \<open>OtherAzure\<close> or \<open>Builtin\<close> with its name. A
  \<^verbatim>\<open>UserException\<close> carries a value of \<open>user_error\<close> that says which of the program's messages it is,
  with the values put into it.
\<close>

subsection \<open>Exceptions\<close>

datatype sb_class =
    ServiceBusError
  | ServiceBusAuthenticationError
  | ServiceBusAuthorizationError
  | MessagingEntityNotFoundError
  | MessagingEntityDisabledError
  | ServiceBusServerBusyError
  | ServiceBusConnectionError
  | ServiceBusCommunicationError
  | OperationTimeoutError
  | SessionCannotBeLockedError
  | MessageLockLostError
  | MessageNotFoundError
  | OtherServiceBus string

datatype azure_class =
    HttpResponseError int
  | ClientAuthenticationError int
  | CredentialUnavailableError int
  | ResourceNotFoundError int
  | OtherAzure string

datatype mapped_kind =
    CredentialsRejected
  | AuthenticationFailed
  | RightsMissing
  | EntityNotFound
  | EntityDisabled
  | Throttled
  | Unreachable
  | SessionsRequired
  | SessionsNotUsed
  | OtherServiceBusError
  | ManagementDenied
  | OtherManagementError

datatype user_error =
    Mapped mapped_kind "string option" pystr
  | EntityPathMismatch string pystr
  | UnreadableFailPolicy int string
  | TooManyColumns
  | UnreadableAbortShare nat nat
  | CommitTransient nat string pystr
  | ConnectionLost nat pystr
  | PartitionedIncremental
  | SessionSettingMismatch string bool
  | InvalidConnectionString pystr
  | InvalidServicePrincipal pystr
  | ListingNeedsManage string pystr
  | ManagementProbeDenied auth_type pystr
  | SelectTopicFirst
  | NoCredentialsSet
  | SyncActionTimeout
  | OtherUserError string

datatype exc_class = SB sb_class | Azure azure_class | UserException user_error | MessageAlreadySettled | Builtin string

datatype exn = Exn exc_class pystr "exn option" "exn option" bool

fun exn_class :: "exn \<Rightarrow> exc_class" where
  "exn_class (Exn c t i k b) = c"

fun exn_text :: "exn \<Rightarrow> pystr" where
  "exn_text (Exn c t i k b) = t"

definition user_exception :: "user_error \<Rightarrow> exn option \<Rightarrow> exn" where
  "user_exception ue cause = Exn (UserException ue) [] None cause False"

definition builtin :: "string \<Rightarrow> exn" where
  "builtin name = Exn (Builtin name) [] None None False"

fun is_servicebus_error :: "exn \<Rightarrow> bool" where
  "is_servicebus_error (Exn (SB c) t i k b) = True"
| "is_servicebus_error e = False"

text \<open>\<^verbatim>\<open>ServiceBusError\<close> is an \<^verbatim>\<open>AzureError\<close>.\<close>

fun is_azure_error :: "exn \<Rightarrow> bool" where
  "is_azure_error (Exn (SB c) t i k b) = True"
| "is_azure_error (Exn (Azure c) t i k b) = True"
| "is_azure_error e = False"

fun is_user_exception :: "exn \<Rightarrow> bool" where
  "is_user_exception (Exn (UserException ue) t i k b) = True"
| "is_user_exception e = False"

definition has_sb_class :: "sb_class list \<Rightarrow> exn \<Rightarrow> bool" where
  "has_sb_class cs e = (case exn_class e of SB c \<Rightarrow> c \<in> set cs | _ \<Rightarrow> False)"

lemma user_exception_simps [simp]:
  "exn_class (user_exception ue k) = UserException ue" "is_user_exception (user_exception ue k)"
  "\<not> is_servicebus_error (user_exception ue k)"
  by (simp_all add: user_exception_def)

lemma is_user_exception_iff: "is_user_exception e \<longleftrightarrow> (\<exists>ue. exn_class e = UserException ue)"
  by (cases e rule: is_user_exception.cases) auto

subsection \<open>Redaction\<close>

definition ci_prefix :: "pystr \<Rightarrow> pystr \<Rightarrow> bool" where
  "ci_prefix p s \<longleftrightarrow> list_all2 ci_match p (take (length p) s)"

text \<open>\<^verbatim>\<open>re.sub(r"(<key>)[^<stop>]+", r"\1***", s)\<close>\<close>

function mask_after :: "pystr \<Rightarrow> (nat \<Rightarrow> bool) \<Rightarrow> pystr \<Rightarrow> pystr" where
  "mask_after key stop [] = []"
| "mask_after key stop (c # s) =
     (let rest = drop (length key) (c # s) in
      if key \<noteq> [] \<and> ci_prefix key (c # s) \<and> rest \<noteq> [] \<and> \<not> stop (hd rest)
      then take (length key) (c # s) @ u ''***'' @ mask_after key stop (dropWhile (\<lambda>x. \<not> stop x) rest)
      else c # mask_after key stop s)"
  by pat_completeness auto
termination
proof (relation "measure (\<lambda>(key, stop, s). length s)")
  fix key c s x and stop :: "nat \<Rightarrow> bool"
  assume x: "x = drop (length key) (c # s)" and k: "key \<noteq> [] \<and> ci_prefix key (c # s) \<and> x \<noteq> [] \<and> \<not> stop (hd x)"
  have "length (dropWhile (\<lambda>y. \<not> stop y) x) \<le> length x" by (rule length_dropWhile_le)
  moreover have "length x < length (c # s)" using k by (cases key) (simp_all add: x)
  ultimately show "((key, stop, dropWhile (\<lambda>y. \<not> stop y) x), key, stop, c # s) \<in> measure (\<lambda>(key, stop, s). length s)"
    by simp
qed auto

function replace_all :: "pystr \<Rightarrow> pystr \<Rightarrow> pystr \<Rightarrow> pystr" where
  "replace_all old new [] = []"
| "replace_all old new (c # s) =
     (if old \<noteq> [] \<and> prefix old (c # s) then new @ replace_all old new (drop (length old) (c # s))
      else c # replace_all old new s)"
  by pat_completeness auto
termination
  by (relation "measure (\<lambda>(old, new, s). length s)") (auto simp: neq_Nil_conv)

definition redact_secrets :: "pystr list \<Rightarrow> pystr \<Rightarrow> pystr" where
  "redact_secrets secrets txt =
     foldl (\<lambda>t secret. if secret \<noteq> [] then replace_all secret (u ''***'') t else t)
       (mask_after (u ''sig='') (\<lambda>c. c = 0x26 \<or> c = 0x3B \<or> space_cp c)
         (mask_after (u ''SharedAccessKey='') (\<lambda>c. c = 0x3B \<or> space_cp c) txt)) secrets"

lemma replace_all_hit:
  "old \<noteq> [] \<Longrightarrow> prefix old (c # s) \<Longrightarrow>
     replace_all old (u ''***'') (c # s) = 42 # 42 # 42 # replace_all old (u ''***'') (drop (length old) (c # s))"
  by (simp add: u_def)

lemma replace_all_miss:
  "\<not> (old \<noteq> [] \<and> prefix old (c # s)) \<Longrightarrow> replace_all old new (c # s) = c # replace_all old new s"
  by auto

declare replace_all.simps(2) [simp del]

lemma prefix_replace_all:
  "42 \<notin> set s \<Longrightarrow> prefix s (replace_all old (u ''***'') t) \<Longrightarrow> prefix s t"
proof (induction s arbitrary: t)
  case (Cons x s)
  show ?case
  proof (cases t)
    case Nil
    with Cons.prems show ?thesis by simp
  next
    case t: (Cons c t')
    show ?thesis
    proof (cases "old \<noteq> [] \<and> prefix old t")
      case True
      with Cons.prems t show ?thesis by (simp add: replace_all_hit)
    next
      case False
      with Cons.prems t have "x = c" "prefix s (replace_all old (u ''***'') t')"
        by (simp_all add: replace_all_miss)
      with Cons.IH [of t'] Cons.prems(1) t show ?thesis by simp
    qed
  qed
qed simp

lemma replace_all_start:
  assumes "old \<noteq> []" and "42 \<notin> set old" shows "\<not> prefix old (replace_all old (u ''***'') t)"
proof
  assume p: "prefix old (replace_all old (u ''***'') t)"
  then have "prefix old t" using assms(2) by (rule prefix_replace_all [rotated])
  then have "\<exists>rest. replace_all old (u ''***'') t = 42 # rest"
    using assms(1) by (cases t) (simp_all add: replace_all_hit)
  with p assms show False by (cases old) auto
qed

lemma sublist_replace_all:
  assumes "42 \<notin> set s" and "s \<noteq> []" and "sublist s (replace_all old (u ''***'') t)"
  shows "\<exists>t'. suffix t' t \<and> prefix s (replace_all old (u ''***'') t')"
  using assms
proof (induction old "u ''***''" t rule: replace_all.induct)
  case (2 old c t)
  show ?case
  proof (cases "old \<noteq> [] \<and> prefix old (c # t)")
    case True
    then have "sublist s (42 # 42 # 42 # replace_all old (u ''***'') (drop (length old) (c # t)))"
      using 2(5) by (simp add: replace_all_hit)
    then have "sublist s (replace_all old (u ''***'') (drop (length old) (c # t)))"
      using 2(3,4) by (auto simp: sublist_Cons_right prefix_Cons)
    from 2(1) [OF True 2(3,4) this] show ?thesis
      by (meson suffix_drop suffix_order.trans)
  next
    case False
    then have "replace_all old (u ''***'') (c # t) = c # replace_all old (u ''***'') t" by (rule replace_all_miss)
    with 2(5) have "prefix s (replace_all old (u ''***'') (c # t)) \<or> sublist s (replace_all old (u ''***'') t)"
      by (simp only: sublist_Cons_right)
    then show ?thesis
    proof
      assume "sublist s (replace_all old (u ''***'') t)"
      from 2(2) [OF False 2(3,4) this] show ?thesis by (blast intro: suffix_ConsI)
    qed blast
  qed
qed simp

lemma replace_all_removes:
  assumes "old \<noteq> []" and "42 \<notin> set old" shows "\<not> sublist old (replace_all old (u ''***'') t)"
  using sublist_replace_all [OF assms(2,1)] replace_all_start [OF assms] by blast

lemma replace_all_creates_none:
  assumes "s \<noteq> []" and "42 \<notin> set s" and "sublist s (replace_all old (u ''***'') t)"
  shows "sublist s t"
proof -
  obtain t' where "suffix t' t" "prefix s t'"
    using sublist_replace_all [OF assms(2,1,3)] prefix_replace_all [OF assms(2)] by blast
  then show ?thesis by (meson prefix_imp_sublist suffix_imp_sublist sublist_order.order.trans)
qed

lemma redact_foldl:
  assumes "s \<noteq> []" and "42 \<notin> set s" and "s \<in> set secrets \<or> \<not> sublist s t"
  shows "\<not> sublist s (foldl (\<lambda>t secret. if secret \<noteq> [] then replace_all secret (u ''***'') t else t) t secrets)"
  using assms(3)
proof (induction secrets arbitrary: t)
  case (Cons x secrets)
  have "s \<in> set secrets \<or> \<not> sublist s (if x \<noteq> [] then replace_all x (u ''***'') t else t)"
    using Cons.prems replace_all_removes [OF assms(1,2)] replace_all_creates_none [OF assms(1,2)] assms(1)
    by (cases "x = []"; cases "s = x") auto
  from Cons.IH [OF this] show ?case by simp
qed simp

text \<open>No secret survives redaction: a text passed through \<open>redact_secrets\<close> contains no listed secret
  anywhere, whatever the text and the other secrets are (for secrets without an asterisk, the mask
  character).\<close>
theorem redacted_text_has_no_secret:
  assumes "s \<in> set secrets" and "s \<noteq> []" and "42 \<notin> set s"
  shows "\<not> sublist s (redact_secrets secrets txt)"
  unfolding redact_secrets_def using assms by (intro redact_foldl) auto

theorem redacted_text_has_no_secret_witness:
  "\<not> sublist (u ''key1'') (redact_secrets [u ''ey'', u ''key1''] (u ''bad key1 for key1''))"
  by (rule redacted_text_has_no_secret) (simp_all add: u_def)

subsection \<open>Classifying errors\<close>

definition lower_text :: "pystr \<Rightarrow> pystr" where
  "lower_text s = map lower_cp s"

definition session_not_used_texts :: "pystr list" where
  "session_not_used_texts =
     [u ''non-sessionful entity'', u ''is not session'', u ''session is not enabled'', u ''not require sessions'']"

definition is_session_mismatch :: "exn \<Rightarrow> bool" where
  "is_session_mismatch e \<longleftrightarrow>
     is_servicebus_error e \<and>
     (sublist (u ''requires sessions'') (exn_text e) \<or>
      list_ex (\<lambda>m. sublist m (lower_text (exn_text e))) session_not_used_texts)"

text \<open>\<^verbatim>\<open>_linked_errors\<close>: the error and everything reachable through \<^verbatim>\<open>inner_exception\<close> and
  \<^verbatim>\<open>__cause__\<close>, in the order of the source's stack. The source guards against cycles of object
  identities; the tree has none.\<close>

fun linked_errors :: "exn \<Rightarrow> exn list" where
  "linked_errors (Exn c t inner cause b) =
     Exn c t inner cause b #
       (case cause of None \<Rightarrow> [] | Some e \<Rightarrow> linked_errors e) @
       (case inner of None \<Rightarrow> [] | Some e \<Rightarrow> linked_errors e)"

fun raised_by_identity :: "exn \<Rightarrow> bool" where
  "raised_by_identity (Exn c t inner cause b) = b"

fun is_credential_unavailable :: "exn \<Rightarrow> bool" where
  "is_credential_unavailable (Exn (Azure (CredentialUnavailableError n)) t i k b) = True"
| "is_credential_unavailable e = False"

definition is_credential_failure :: "exn \<Rightarrow> bool" where
  "is_credential_failure e \<longleftrightarrow>
     list_ex (\<lambda>l. is_credential_unavailable l \<or>
                  (is_azure_error l \<and> (sublist (u ''AADSTS'') (exn_text l) \<or> raised_by_identity l))) (linked_errors e)"

text \<open>\<^verbatim>\<open>CredentialUnavailableError\<close> is a \<^verbatim>\<open>ClientAuthenticationError\<close>; both and
  \<^verbatim>\<open>ResourceNotFoundError\<close> are \<^verbatim>\<open>HttpResponseError\<close>s with a status code.\<close>

definition is_management_denied :: "exn \<Rightarrow> bool" where
  "is_management_denied e \<longleftrightarrow>
     \<not> is_credential_failure e \<and>
     (case exn_class e of
        Azure (ClientAuthenticationError n) \<Rightarrow> True
      | Azure (CredentialUnavailableError n) \<Rightarrow> True
      | Azure (HttpResponseError n) \<Rightarrow> n = 401 \<or> n = 403
      | Azure (ResourceNotFoundError n) \<Rightarrow> n = 401 \<or> n = 403
      | _ \<Rightarrow> False)"

text \<open>The message \<^verbatim>\<open>to_user_exception\<close> chooses, in the order of its branches.\<close>

definition mapped_kind_of :: "exn \<Rightarrow> mapped_kind" where
  "mapped_kind_of e =
     (if is_credential_failure e then CredentialsRejected
      else if has_sb_class [ServiceBusAuthenticationError] e then AuthenticationFailed
      else if has_sb_class [ServiceBusAuthorizationError] e then RightsMissing
      else if has_sb_class [MessagingEntityNotFoundError] e then EntityNotFound
      else if has_sb_class [MessagingEntityDisabledError] e then EntityDisabled
      else if has_sb_class [ServiceBusServerBusyError] e then Throttled
      else if has_sb_class [ServiceBusConnectionError, ServiceBusCommunicationError] e then Unreachable
      else if is_servicebus_error e then
        (if sublist (u ''requires sessions'') (exn_text e) then SessionsRequired
         else if is_session_mismatch e then SessionsNotUsed
         else OtherServiceBusError)
      else if is_management_denied e then ManagementDenied
      else (case exn_class e of Azure (ResourceNotFoundError n) \<Rightarrow> EntityNotFound | _ \<Rightarrow> OtherManagementError))"

text \<open>The details a message ends with. The secrets are redacted last, on the text the user sees.\<close>

definition with_details :: "textlib \<Rightarrow> exn \<Rightarrow> pystr list \<Rightarrow> pystr" where
  "with_details tx e secrets = redact_secrets secrets (concise_details tx (exn_text e))"

definition to_user_exception ::
  "textlib \<Rightarrow> exn \<Rightarrow> string option \<Rightarrow> pystr list \<Rightarrow> exn" where
  "to_user_exception tx e path secrets =
     user_exception (Mapped (mapped_kind_of e) path (with_details tx e secrets)) None"

text \<open>\<^verbatim>\<open>raise to_user_exception(...) from error\<close>\<close>

definition mapped_from :: "textlib \<Rightarrow> exn \<Rightarrow> string \<Rightarrow> pystr list \<Rightarrow> exn" where
  "mapped_from tx e path secrets =
     user_exception (Mapped (mapped_kind_of e) (Some path) (with_details tx e secrets)) (Some e)"


definition wrapped_credential_error :: exn where
  "wrapped_credential_error =
     Exn (SB ServiceBusError) (u ''Handler failed'')
       (Some (Exn (Azure (ClientAuthenticationError 401)) (u ''AADSTS7000215: invalid secret'') None None False)) None False"


end
