(* ===== verification/Logging.thy ===== *)
theory Logging
  imports Client
begin

text \<open>
  The job log: \<open>RedactingFilter\<close>, \<open>ThrottleCounter\<close> and \<open>configure_logging\<close> of
  \<^verbatim>\<open>src/client.py\<close>. Of the logging library the model has what they rest on: a record passes the
  filters of a handler in order, each may change it (for the later handlers, too) or stop it; a logger has a level,
  handlers of its own and passes its records on to the root handlers. Filters of other code are arbitrary functions.
\<close>

subsection \<open>Records and filters\<close>

text \<open>\<open>lr_args\<close> is the message with its arguments put in, if there are arguments; \<open>lr_exc_info\<close> the text a
  traceback formatter makes of an attached exception.\<close>

record log_record =
  lr_level :: nat
  lr_msg :: pystr
  lr_args :: "pystr option"
  lr_exc_info :: "pystr option"
  lr_exc_text :: pystr
  lr_stack_info :: pystr

definition get_message :: "log_record \<Rightarrow> pystr" where
  "get_message r = (case lr_args r of None \<Rightarrow> lr_msg r | Some t \<Rightarrow> t)"

definition redact_record :: "pystr list \<Rightarrow> log_record \<Rightarrow> log_record" where
  "redact_record secrets r =
     (let r = r\<lparr>lr_msg := redact_secrets secrets (get_message r), lr_args := None\<rparr>;
          r = (case lr_exc_info r of
                 None \<Rightarrow> r
               | Some traceback \<Rightarrow> r\<lparr>lr_exc_text := (if lr_exc_text r = [] then traceback else lr_exc_text r), lr_exc_info := None\<rparr>);
          r = (if lr_exc_text r \<noteq> [] then r\<lparr>lr_exc_text := redact_secrets secrets (lr_exc_text r)\<rparr> else r)
      in if lr_stack_info r \<noteq> [] then r\<lparr>lr_stack_info := redact_secrets secrets (lr_stack_info r)\<rparr> else r)"

text \<open>A filter is a \<open>RedactingFilter\<close> with its secrets or one of other code, which may let a record pass or not
  and may change it.\<close>

datatype log_filter = Redacting "pystr list" | Foreign "log_record \<Rightarrow> bool \<times> log_record"

fun is_redacting :: "log_filter \<Rightarrow> bool" where
  "is_redacting (Redacting secrets) = True"
| "is_redacting (Foreign f) = False"

fun apply_filter :: "log_filter \<Rightarrow> log_record \<Rightarrow> bool \<times> log_record" where
  "apply_filter (Redacting secrets) r = (True, redact_record (filter (\<lambda>s. s \<noteq> []) secrets) r)"
| "apply_filter (Foreign f) r = f r"

fun apply_filters :: "log_filter list \<Rightarrow> log_record \<Rightarrow> bool \<times> log_record" where
  "apply_filters [] r = (True, r)"
| "apply_filters (f # fs) r = (case apply_filter f r of (passes, r') \<Rightarrow> if passes then apply_filters fs r' else (False, r'))"

subsection \<open>Loggers\<close>

text \<open>The levels, and the loggers as far as \<open>configure_logging\<close> tells them apart.\<close>

definition INFO :: nat where "INFO = 20"
definition CRITICAL :: nat where "CRITICAL = 50"

datatype logger = ProgramLogger | AzureLogger | ServiceBusLogger

record log_handler =
  lh_level :: nat
  lh_filters :: "log_filter list"

text \<open>The handlers of the logger \<^verbatim>\<open>azure.servicebus\<close>: the throttle counter, or one of other code.\<close>

datatype servicebus_handler = ThrottleCounter | ForeignHandler nat

record log_state =
  ls_root_level :: nat
  ls_root :: "log_handler list"
  ls_azure_level :: nat
  ls_servicebus_level :: nat
  ls_servicebus_propagate :: bool
  ls_servicebus_handlers :: "servicebus_handler list"
  ls_throttled :: nat

definition throttle_report :: "log_record \<Rightarrow> bool" where
  "throttle_report r \<longleftrightarrow>
     sublist (u ''AMQP error occurred'') (get_message r) \<and> sublist (u ''com.microsoft:server-busy'') (get_message r)"

definition throttled_requests :: "log_state \<Rightarrow> nat" where
  "throttled_requests st = ls_throttled st"

definition configure_logging :: "pystr list \<Rightarrow> bool \<Rightarrow> log_state \<Rightarrow> log_state" where
  "configure_logging secrets debug st =
     st\<lparr>ls_root := map (\<lambda>h. h\<lparr>lh_filters := filter (\<lambda>f. \<not> is_redacting f) (lh_filters h) @ [Redacting secrets]\<rparr>) (ls_root st),
        ls_azure_level := (if debug then INFO else CRITICAL),
        ls_servicebus_level := INFO,
        ls_servicebus_propagate := debug,
        ls_servicebus_handlers := filter (\<lambda>h. h \<noteq> ThrottleCounter) (ls_servicebus_handlers st) @ [ThrottleCounter],
        ls_throttled := 0\<rparr>"

text \<open>A record at the root handlers: what each of them writes.\<close>

fun write_root :: "log_handler list \<Rightarrow> log_record \<Rightarrow> log_record list" where
  "write_root [] r = []"
| "write_root (h # hs) r =
     (if lr_level r < lh_level h then write_root hs r
      else case apply_filters (lh_filters h) r of
        (passes, r') \<Rightarrow> (if passes then [r'] else []) @ write_root hs r')"

definition count_throttled :: "log_record \<Rightarrow> log_state \<Rightarrow> log_state" where
  "count_throttled r st =
     (if ThrottleCounter \<in> set (ls_servicebus_handlers st) \<and> INFO \<le> lr_level r \<and> throttle_report r
      then st\<lparr>ls_throttled := ls_throttled st + 1\<rparr> else st)"

fun log_record_at :: "logger \<Rightarrow> log_record \<Rightarrow> log_state \<Rightarrow> log_state \<times> log_record list" where
  "log_record_at ProgramLogger r st = (st, if ls_root_level st \<le> lr_level r then write_root (ls_root st) r else [])"
| "log_record_at AzureLogger r st = (st, if ls_azure_level st \<le> lr_level r then write_root (ls_root st) r else [])"
| "log_record_at ServiceBusLogger r st =
     (if ls_servicebus_level st \<le> lr_level r
      then (count_throttled r st, if ls_servicebus_propagate st then write_root (ls_root st) r else [])
      else (st, []))"

text \<open>A sequence of records, and what the job log gets of it, by logger.\<close>

fun log_all :: "(logger \<times> log_record) list \<Rightarrow> log_state \<Rightarrow> log_state \<times> (logger \<times> log_record) list" where
  "log_all [] st = (st, [])"
| "log_all ((l, r) # es) st =
     (case log_record_at l r st of (st', written) \<Rightarrow>
      case log_all es st' of (st'', later) \<Rightarrow> (st'', map (Pair l) written @ later))"

subsection \<open>What is written is redacted\<close>

text \<open>A record of which no part can show the secret \<open>s\<close>.\<close>

definition clean :: "pystr \<Rightarrow> log_record \<Rightarrow> bool" where
  "clean s r \<longleftrightarrow> lr_args r = None \<and> lr_exc_info r = None \<and>
     \<not> sublist s (lr_msg r) \<and> \<not> sublist s (lr_exc_text r) \<and> \<not> sublist s (lr_stack_info r)"

lemma redact_record_clean:
  assumes "s \<in> set secrets" and "s \<noteq> []" and "42 \<notin> set s"
  shows "clean s (redact_record secrets r)"
proof -
  have "\<not> sublist s (redact_secrets secrets t)" for t by (rule redacted_text_has_no_secret [OF assms])
  moreover have "\<not> sublist s []" using assms(2) by simp
  ultimately show ?thesis by (auto simp: clean_def redact_record_def Let_def split: option.splits)
qed

lemma apply_filters_append:
  "apply_filters (fs @ gs) r = (case apply_filters fs r of (passes, r') \<Rightarrow> if passes then apply_filters gs r' else (False, r'))"
  by (induction fs arbitrary: r) (auto split: prod.split)

definition redacts :: "pystr list \<Rightarrow> log_handler \<Rightarrow> bool" where
  "redacts secrets h \<longleftrightarrow> (\<exists>fs. lh_filters h = fs @ [Redacting secrets])"

lemma write_root_clean:
  assumes "\<forall>h \<in> set hs. redacts secrets h" and "w \<in> set (write_root hs r)" and "s \<in> set secrets" and "s \<noteq> []" and "42 \<notin> set s"
  shows "clean s w"
  using assms(1,2)
proof (induction hs arbitrary: r)
  case (Cons h hs)
  obtain passes r' where filtered: "apply_filters (lh_filters h) r = (passes, r')" by fastforce
  have "clean s r'" if "passes"
  proof -
    obtain fs where "lh_filters h = fs @ [Redacting secrets]" using Cons.prems(1) by (auto simp: redacts_def)
    with filtered that obtain r2 where "r' = redact_record (filter (\<lambda>s. s \<noteq> []) secrets) r2"
      by (auto simp: apply_filters_append split: prod.splits if_splits)
    then show ?thesis using redact_record_clean assms(3-5) by simp
  qed
  then show ?case using Cons filtered by (auto split: if_splits)
qed simp

text \<open>A configured state stays one.\<close>

definition configured :: "pystr list \<Rightarrow> bool \<Rightarrow> log_state \<Rightarrow> bool" where
  "configured secrets debug st \<longleftrightarrow> (\<forall>h \<in> set (ls_root st). redacts secrets h) \<and>
     ls_servicebus_propagate st = debug \<and> ls_servicebus_level st = INFO \<and> ThrottleCounter \<in> set (ls_servicebus_handlers st) \<and>
     ls_azure_level st = (if debug then INFO else CRITICAL)"

definition counted :: "logger \<times> log_record \<Rightarrow> bool" where
  "counted e \<longleftrightarrow> fst e = ServiceBusLogger \<and> INFO \<le> lr_level (snd e) \<and> throttle_report (snd e)"

lemma log_record_at_configured:
  assumes "configured secrets debug st" and "log_record_at l r st = (st', written)"
  shows "configured secrets debug st' \<and> ls_throttled st' = ls_throttled st + (if counted (l, r) then 1 else 0) \<and>
    (\<forall>w \<in> set written. w \<in> set (write_root (ls_root st) r)) \<and> (written \<noteq> [] \<and> l = ServiceBusLogger \<longrightarrow> debug) \<and>
    (written \<noteq> [] \<and> l = AzureLogger \<and> \<not> debug \<longrightarrow> CRITICAL \<le> lr_level r)"
  using assms by (cases l) (auto simp: configured_def counted_def count_throttled_def split: if_splits)

lemma log_all_configured:
  assumes "configured secrets debug st" and "log_all es st = (st', written)"
  shows "ls_throttled st' = ls_throttled st + length (filter counted es) \<and>
    (\<forall>(l, w) \<in> set written. (\<forall>s \<in> set secrets. s \<noteq> [] \<and> 42 \<notin> set s \<longrightarrow> clean s w) \<and> (l = ServiceBusLogger \<longrightarrow> debug))"
  using assms
proof (induction es arbitrary: st written)
  case (Cons e es)
  obtain l r where e: "e = (l, r)" by fastforce
  obtain st1 now where now: "log_record_at l r st = (st1, now)" by fastforce
  obtain later where later: "log_all es st1 = (st', later)" and written: "written = map (Pair l) now @ later"
    using Cons.prems(2) by (auto simp: e now split: prod.splits)
  note step = log_record_at_configured [OF Cons.prems(1) now]
  have "\<forall>h \<in> set (ls_root st). redacts secrets h" using Cons.prems(1) by (simp add: configured_def)
  then have "\<forall>w \<in> set now. \<forall>s \<in> set secrets. s \<noteq> [] \<and> 42 \<notin> set s \<longrightarrow> clean s w"
    using step write_root_clean by blast
  with Cons.IH [OF _ later] step show ?case by (auto simp: e written)
qed simp

lemma configure_configures: "configured secrets debug (configure_logging secrets debug st)"
  by (auto simp: configured_def configure_logging_def redacts_def)

text \<open>C37: The job log shows no secret. Once \<open>configure_logging\<close> ran, whatever is logged, by the program or by the
  SDK, and whatever other filters and handlers are installed: no record that a root handler writes has a secret in its
  message, its traceback or its stack, and nothing unformatted is left in it that could bring one back; without debug mode
  nothing of \<^verbatim>\<open>azure.servicebus\<close> reaches the log; and the throttle counter counts exactly the throttling
  reports logged since.\<close>
theorem job_log_safe:
  assumes "log_all es (configure_logging secrets debug st) = (st', written)"
  shows "throttled_requests st' = length (filter counted es) \<and>
    (\<forall>(l, w) \<in> set written. (\<forall>s \<in> set secrets. s \<noteq> [] \<and> 42 \<notin> set s \<longrightarrow> clean s w) \<and> (l = ServiceBusLogger \<longrightarrow> debug))"
  using log_all_configured [OF configure_configures assms] by (simp add: throttled_requests_def configure_logging_def)

definition sample_log :: log_state where
  "sample_log = \<lparr>ls_root_level = INFO, ls_root = [\<lparr>lh_level = 0, lh_filters = [Foreign (\<lambda>r. (True, r))]\<rparr>], ls_azure_level = 0,
     ls_servicebus_level = 0, ls_servicebus_propagate = True, ls_servicebus_handlers = [], ls_throttled = 3\<rparr>"

definition sample_record :: log_record where
  "sample_record = \<lparr>lr_level = 30, lr_msg = u ''key %s'', lr_args = Some (u ''key key1''), lr_exc_info = Some (u ''bad key1''),
     lr_exc_text = [], lr_stack_info = []\<rparr>"

theorem job_log_safe_witness:
  "\<exists>w. snd (log_all [(ProgramLogger, sample_record)] (configure_logging [u ''key1''] False sample_log)) = [(ProgramLogger, w)] \<and>
     clean (u ''key1'') w"
proof -
  have one: "length (snd (log_all [(ProgramLogger, sample_record)] (configure_logging [u ''key1''] False sample_log))) = 1"
    by (simp add: sample_log_def sample_record_def configure_logging_def INFO_def)
  obtain st' written where run: "log_all [(ProgramLogger, sample_record)] (configure_logging [u ''key1''] False sample_log) = (st', written)"
    by fastforce
  then obtain l w where w: "written = [(l, w)]" using one by (cases written) auto
  have "l = ProgramLogger" using run w by (auto split: prod.splits)
  moreover have "clean (u ''key1'') w" using job_log_safe [OF run] w by (auto simp: u_def)
  ultimately show ?thesis using run w by (simp del: log_all.simps)
qed

text \<open>Configuring again changes nothing but the count.\<close>

lemma configure_idempotent:
  "configure_logging secrets debug (configure_logging secrets debug st) = configure_logging secrets debug st"
  by (simp add: configure_logging_def o_def)

end
