(* ===== verification/Output.thy ===== *)
theory Output
  imports Client Registry Columns
begin

text \<open>
  \<^verbatim>\<open>src/output.py\<close>: the streamed output table and its manifest. The CSV is the list of its records, the
  header first; quoting and file descriptors are the library's. The manifests written so far are kept in
  order. A record reaches the CSV when \<^verbatim>\<open>writerow\<close> returns, also when a later row of the same
  call raises.
\<close>

subsection \<open>State\<close>

record output_row =
  row_metadata :: "(pystr \<times> pystr) list"
  row_body :: "pystr option"
  row_fields :: "field_map option"

record table_definition =
  td_name :: string
  td_schema :: "(pystr \<times> string) list"
  td_primary_key :: "string list"
  td_incremental :: bool
  td_write_always :: bool
  td_has_header :: bool

record output_table =
  ot_table_name :: string
  ot_destination :: destination_config
  ot_body_format :: body_format
  ot_columns :: "pystr list"
  ot_definition :: "table_definition option"
  ot_open :: bool
  ot_csv :: "pystr list list"
  ot_armed :: bool
  ot_rows_written :: nat
  ot_manifests :: "table_definition list"

definition new_output_table :: "string \<Rightarrow> destination_config \<Rightarrow> body_format \<Rightarrow> output_table" where
  "new_output_table name dst fmt =
     \<lparr>ot_table_name = name, ot_destination = dst, ot_body_format = fmt, ot_columns = [], ot_definition = None,
      ot_open = False, ot_csv = [], ot_armed = False, ot_rows_written = 0, ot_manifests = []\<rparr>"

subsection \<open>Operations\<close>

definition schema_for :: "pystr list \<Rightarrow> (pystr \<times> string) list" where
  "schema_for cols =
     dict_update [] (map (\<lambda>c. (c, dget (map (\<lambda>(n, t). (u n, t)) METADATA_COLUMNS) c ''STRING'')) cols)"

type_synonym 'a output_op = "(exn, output_table, 'a) py"

definition fixed_columns :: "flatten_registry option \<Rightarrow> output_table \<Rightarrow> exn + pystr list" where
  "fixed_columns reg t =
     (if ot_body_format t = JSON_FLATTEN
      then (case reg of None \<Rightarrow> Inl (builtin ''ValueError'')
            | Some r \<Rightarrow> Inr (metadata_column_names @ input_columns r @ [UNMAPPED_COLUMN]))
      else Inr (metadata_column_names @ [BODY_COLUMN]))"

definition of_sum :: "'e + 'a \<Rightarrow> ('e, 's, 'a) py" where
  "of_sum r = (case r of Inl e \<Rightarrow> raise e | Inr x \<Rightarrow> ret x)"

definition write_manifest :: "table_definition \<Rightarrow> unit output_op" where
  "write_manifest d = modify (\<lambda>t. t\<lparr>ot_manifests := ot_manifests t @ [d]\<rparr>)"

definition open_table :: "flatten_registry option \<Rightarrow> unit output_op" where
  "open_table reg =
     bnd (gets (fixed_columns reg)) (\<lambda>r.
     bnd (of_sum r) (\<lambda>cols.
     bnd (modify (\<lambda>t. t\<lparr>ot_columns := cols,
            ot_definition := Some \<lparr>td_name = ot_table_name t @ ''.csv'', td_schema = schema_for cols,
              td_primary_key = primary_key_columns (primary_key (ot_destination t)),
              td_incremental = incremental (ot_destination t), td_write_always = ot_armed t, td_has_header = True\<rparr>\<rparr>)) (\<lambda>_.
     bnd (gets (\<lambda>t. the (ot_definition t))) (\<lambda>d.
     bnd (write_manifest d) (\<lambda>_.
       modify (\<lambda>t. t\<lparr>ot_open := True, ot_csv := [cols]\<rparr>))))))"

definition arm_write_always :: "unit output_op" where
  "arm_write_always =
     bnd (gets id) (\<lambda>t.
       if ot_armed t then ret ()
       else case ot_definition t of
              None \<Rightarrow> raise (builtin ''AssertionError'')
            | Some d \<Rightarrow>
                bnd (modify (\<lambda>t. t\<lparr>ot_armed := True, ot_definition := Some (d\<lparr>td_write_always := True\<rparr>)\<rparr>)) (\<lambda>_.
                  write_manifest (d\<lparr>td_write_always := True\<rparr>)))"

fun body_failure_exn :: "body_failure \<Rightarrow> exn" where
  "body_failure_exn (Unreadable BodyTooLargeError) = builtin ''BodyTooLargeError''"
| "body_failure_exn (Unreadable (BodyDecodeError c)) = builtin ''BodyDecodeError''"
| "body_failure_exn (Unreadable (NotJsonError c)) = builtin ''NotJsonError''"
| "body_failure_exn (Escaping c) = builtin c"

definition row_record ::
  "pylib \<Rightarrow> flatten_registry option \<Rightarrow> body_format \<Rightarrow> output_row \<Rightarrow> exn + (pystr \<times> pystr) list" where
  "row_record lib reg fmt row =
     (if fmt = JSON_FLATTEN
      then (case reg of None \<Rightarrow> Inl (builtin ''AssertionError'')
            | Some r \<Rightarrow>
                (case split lib r (case row_fields row of None \<Rightarrow> [] | Some fs \<Rightarrow> fs) of
                   Inl e \<Rightarrow> Inl (body_failure_exn e)
                 | Inr s \<Rightarrow> Inr (AList.update UNMAPPED_COLUMN (split_unmapped s)
                                (dict_update (row_metadata row) (split_values s)))))
      else Inr (AList.update BODY_COLUMN (case row_body row of None \<Rightarrow> [] | Some b \<Rightarrow> b) (row_metadata row)))"

text \<open>\<^verbatim>\<open>DictWriter.writerow\<close> with \<^verbatim>\<open>extrasaction="raise"\<close> and \<^verbatim>\<open>restval=""\<close>.\<close>

definition csv_record :: "pystr list \<Rightarrow> (pystr \<times> pystr) list \<Rightarrow> exn + pystr list" where
  "csv_record cols r =
     (if list_ex (\<lambda>(k, v). k \<notin> set cols) r then Inl (builtin ''ValueError'')
      else Inr (map (\<lambda>c. dget r c []) cols))"

definition write_row :: "pylib \<Rightarrow> flatten_registry option \<Rightarrow> output_row \<Rightarrow> unit output_op" where
  "write_row lib reg row =
     bnd (gets id) (\<lambda>t.
     bnd (of_sum (sbind (row_record lib reg (ot_body_format t) row) (csv_record (ot_columns t)))) (\<lambda>cells.
       modify (\<lambda>t. t\<lparr>ot_csv := ot_csv t @ [cells]\<rparr>)))"

definition write_rows :: "pylib \<Rightarrow> flatten_registry option \<Rightarrow> output_row list \<Rightarrow> unit output_op" where
  "write_rows lib reg rows =
     bnd (gets ot_open) (\<lambda>is_open.
     bnd (if is_open then ret () else raise (builtin ''AssertionError'')) (\<lambda>_.
     bnd (for_each (write_row lib reg) rows) (\<lambda>_.
       modify (\<lambda>t. t\<lparr>ot_rows_written := ot_rows_written t + length rows\<rparr>))))"

definition close_table :: "unit output_op" where
  "close_table = modify (\<lambda>t. t\<lparr>ot_open := False\<rparr>)"

subsection \<open>What a successful write does\<close>

definition encode_row :: "pylib \<Rightarrow> flatten_registry option \<Rightarrow> output_table \<Rightarrow> output_row \<Rightarrow> exn + pystr list" where
  "encode_row lib reg t row = sbind (row_record lib reg (ot_body_format t) row) (csv_record (ot_columns t))"

lemma of_sum_wp [wp_simps]:
  "wp (of_sum r) Q E s = (case r of Inl e \<Rightarrow> E e s | Inr x \<Rightarrow> Q x s)"
  by (cases r) (simp_all add: of_sum_def wp_simps)

lemma encode_row_cong:
  "ot_body_format t = ot_body_format t' \<Longrightarrow> ot_columns t = ot_columns t' \<Longrightarrow> encode_row lib reg t row = encode_row lib reg t' row"
  by (simp add: encode_row_def)

lemma write_row_eq:
  "write_row lib reg row t = (case encode_row lib reg t row of Inl e \<Rightarrow> (Inl e, t)
     | Inr cells \<Rightarrow> (Inr (), t\<lparr>ot_csv := ot_csv t @ [cells]\<rparr>))"
  by (simp add: write_row_def encode_row_def bnd_def gets_def modify_def of_sum_def raise_def ret_def split: sum.split)

text \<open>Whatever happens, a write only appends to the CSV: one record for each row up to the first that
  raises.\<close>

lemma for_each_write:
  "for_each (write_row lib reg) rows t =
     (case smap (encode_row lib reg t) rows of
        Inr cs \<Rightarrow> (Inr (), t\<lparr>ot_csv := ot_csv t @ cs\<rparr>)
      | Inl e \<Rightarrow> (Inl e, t\<lparr>ot_csv := ot_csv t @
          map (\<lambda>r. projr (encode_row lib reg t r)) (takeWhile (\<lambda>r. \<not> isl (encode_row lib reg t r)) rows)\<rparr>))"
proof (induction rows arbitrary: t)
  case Nil
  then show ?case by (simp add: ret_def)
next
  case (Cons r rows)
  show ?case
  proof (cases "encode_row lib reg t r")
    case (Inl e)
    then show ?thesis by (simp add: bnd_def write_row_eq)
  next
    case (Inr cells)
    let ?t = "t\<lparr>ot_csv := ot_csv t @ [cells]\<rparr>"
    have "encode_row lib reg ?t = encode_row lib reg t" by (rule ext) (simp add: encode_row_def)
    with Inr Cons [of ?t] show ?thesis
      by (cases "smap (encode_row lib reg t) rows") (simp_all add: bnd_def write_row_eq)
  qed
qed

lemma write_rows_eq:
  assumes "ot_open t"
  shows "write_rows lib reg rows t =
     (case smap (encode_row lib reg t) rows of
        Inr cs \<Rightarrow> (Inr (), t\<lparr>ot_csv := ot_csv t @ cs, ot_rows_written := ot_rows_written t + length rows\<rparr>)
      | Inl e \<Rightarrow> (Inl e, t\<lparr>ot_csv := ot_csv t @
          map (\<lambda>r. projr (encode_row lib reg t r)) (takeWhile (\<lambda>r. \<not> isl (encode_row lib reg t r)) rows)\<rparr>))"
  using assms
  by (simp add: write_rows_def bnd_def gets_def ret_def modify_def for_each_write split: sum.split)

subsection \<open>Rows that were validated are written\<close>

text \<open>\<open>extends r r'\<close>: every hash that has a name in \<open>r\<close> keeps its place in \<open>r'\<close>. Registration
  only ever extends a registry, and a row that splits keeps splitting the same way.\<close>

definition extends :: "flatten_registry \<Rightarrow> flatten_registry \<Rightarrow> bool" where
  "extends r r' \<longleftrightarrow> reg_input r' = reg_input r \<and>
     (\<forall>h. assigned_name r h \<noteq> None \<longrightarrow>
        map_of (reg_by_hash r') h = map_of (reg_by_hash r) h \<and> map_of (reg_provisional r') h = map_of (reg_provisional r) h)"

lemma extends_refl [simp]: "extends r r"
  by (simp add: extends_def)

lemma extendsD:
  assumes "extends r r'" and "assigned_name r h \<noteq> None"
  shows "map_of (reg_by_hash r') h = map_of (reg_by_hash r) h" "map_of (reg_provisional r') h = map_of (reg_provisional r) h"
  using assms by (simp_all add: extends_def)

lemma extends_name: "extends r r' \<Longrightarrow> assigned_name r h = Some n \<Longrightarrow> assigned_name r' h = Some n"
  using extendsD [of r r' h] by (cases "map_of (reg_by_hash r) h") (auto simp: assigned_name_def)

lemma extends_trans:
  assumes "extends r1 r2" and "extends r2 r3" shows "extends r1 r3"
proof -
  have "map_of (reg_by_hash r3) h = map_of (reg_by_hash r1) h \<and> map_of (reg_provisional r3) h = map_of (reg_provisional r1) h"
    if "assigned_name r1 h \<noteq> None" for h
  proof -
    have "assigned_name r2 h \<noteq> None" using that extends_name [OF assms(1)] by blast
    then show ?thesis using extendsD [OF assms(1) that] extendsD [OF assms(2)] by simp
  qed
  then show ?thesis using assms unfolding extends_def by simp
qed

lemma register_extends:
  assumes "register lib p r = Inr (n, r')" shows "extends r r'"
  using assms
proof (cases rule: register_cases)
  case (2 h)
  then show ?thesis
    by (auto simp: extends_def map_of_snoc simp del: map_of_append split: option.splits)
next
  case (3 h)
  then show ?thesis
    by (auto simp: extends_def map_of_snoc simp del: map_of_append split: option.splits)
qed simp

lemma register_all_extends: "register_all lib ps r = Inr r' \<Longrightarrow> extends r r'"
proof (induction ps arbitrary: r)
  case (Cons p ps)
  then obtain n r1 where "register lib p r = Inr (n, r1)" "register_all lib ps r1 = Inr r'"
    by (auto simp: sbind_Inr_iff)
  with Cons.IH [of r1] register_extends show ?case by (blast intro: extends_trans)
qed simp

lemma split_loop_extends:
  "extends r r' \<Longrightarrow> split_loop lib r fs vs us = Inr x \<Longrightarrow> split_loop lib r' fs vs us = Inr x"
proof (induction fs arbitrary: vs us)
  case (Cons f fs)
  obtain p cell where f: "f = (p, cell)" by fastforce
  from Cons.prems f obtain h where h: "path_hash lib p = Inr h" by (auto simp: sbind_Inr_iff)
  have named: "assigned_name r h \<noteq> None"
    using Cons.prems(2) f h by (auto simp: assigned_name_def split: option.splits)
  then have "map_of (reg_by_hash r') h = map_of (reg_by_hash r) h"
    "map_of (reg_provisional r') h = map_of (reg_provisional r) h" "reg_input r' = reg_input r"
    using Cons.prems(1) by (simp_all add: extends_def)
  then show ?case
    using Cons.prems(2) f h Cons.IH [OF Cons.prems(1)] by (auto split: option.splits if_splits)
qed simp

lemma split_extends:
  assumes "extends r r'" and "split lib r fs = Inr s" shows "split lib r' fs = Inr s"
proof -
  obtain x where loop: "split_loop lib r fs [] [] = Inr x"
    using assms(2) by (auto simp: split_def sbind_Inr_iff escaping_Inr)
  with split_loop_extends [OF assms(1)] have "split_loop lib r' fs [] [] = Inr x" by blast
  with loop assms(2) show ?thesis by (simp add: split_def)
qed

lemma input_name:
  assumes "registry_ok R r" and "h \<in> set (reg_input r)" and "map_of (reg_by_hash r) h = Some n"
  shows "n \<in> set (input_columns r)"
proof -
  have "h \<in> set (reg_input_order r)" using assms(1,2) by (simp add: registry_ok_def)
  then have "dget (reg_by_hash r) h [] \<in> set (input_columns r)" by (simp add: input_columns_def)
  then show ?thesis using assms(3) by (simp add: dget_def)
qed

lemma split_loop_keys:
  assumes "registry_ok R r"
  shows "split_loop lib r fs vs us = Inr (vs', us') \<Longrightarrow> fst ` set vs \<subseteq> set (input_columns r) \<Longrightarrow>
    fst ` set vs' \<subseteq> set (input_columns r)"
proof (induction fs arbitrary: vs us)
  case (Cons f fs)
  obtain p cell where f: "f = (p, cell)" by fastforce
  from Cons.prems f obtain h where h: "path_hash lib p = Inr h" by (auto simp: sbind_Inr_iff)
  have new: "fst ` set (AList.update n cell vs) \<subseteq> set (input_columns r)"
    if "h \<in> set (reg_input r)" "map_of (reg_by_hash r) h = Some n" for n
    using input_name [OF assms that] Cons.prems(2) by (simp add: dom_update)
  show ?case
  proof (cases "map_of (reg_by_hash r) h")
    case None
    then show ?thesis using Cons.prems f h Cons.IH [OF _ Cons.prems(2)] by (auto split: option.splits)
  next
    case (Some n)
    then show ?thesis
      using Cons.prems f h Cons.IH [OF _ Cons.prems(2)] Cons.IH [OF _ new] by (auto split: if_splits)
  qed
qed simp

lemma csv_record_ok: "fst ` set r \<subseteq> set cols \<Longrightarrow> csv_record cols r = Inr (map (\<lambda>c. dget r c []) cols)"
  by (auto simp: csv_record_def list_ex_iff)

definition table_fits :: "flatten_registry option \<Rightarrow> output_table \<Rightarrow> bool" where
  "table_fits reg t \<longleftrightarrow> ot_open t \<and> fixed_columns reg t = Inr (ot_columns t)"

definition row_fits :: "pylib \<Rightarrow> flatten_registry option \<Rightarrow> body_format \<Rightarrow> output_row \<Rightarrow> bool" where
  "row_fits lib reg fmt row \<longleftrightarrow>
     map fst (row_metadata row) = metadata_column_names \<and>
     (fmt = JSON_FLATTEN \<longrightarrow> (\<exists>r fs s. reg = Some r \<and> row_fields row = Some fs \<and> split lib r fs = Inr s))"

lemma row_fits_encodes:
  assumes "table_fits reg t" and "row_fits lib reg (ot_body_format t) row"
    and "\<And>r. reg = Some r \<Longrightarrow> \<exists>R. registry_ok R r"
  shows "\<exists>cells. encode_row lib reg t row = Inr cells \<and> length cells = length (ot_columns t)"
proof -
  have meta: "fst ` set (row_metadata row) = set metadata_column_names"
    using assms(2) by (metis list.set_map row_fits_def)
  show ?thesis
  proof (cases "ot_body_format t = JSON_FLATTEN")
    case True
    obtain r fs s where r: "reg = Some r" "row_fields row = Some fs" "split lib r fs = Inr s"
      using assms(2) True by (auto simp: row_fits_def)
    obtain R where "registry_ok R r" using assms(3) [OF r(1)] by blast
    then have "fst ` set (split_values s) \<subseteq> set (input_columns r)"
      using split_unfold [OF r(3)] split_loop_keys by fastforce
    moreover have "ot_columns t = metadata_column_names @ input_columns r @ [UNMAPPED_COLUMN]"
      using assms(1) True r by (simp add: table_fits_def fixed_columns_def)
    ultimately have "fst ` set (AList.update UNMAPPED_COLUMN (split_unmapped s) (dict_update (row_metadata row) (split_values s)))
        \<subseteq> set (ot_columns t)"
      using meta by (auto simp: dom_update keys_dict_update)
    then show ?thesis using True r by (simp add: encode_row_def row_record_def csv_record_ok)
  next
    case False
    then have "ot_columns t = metadata_column_names @ [BODY_COLUMN]"
      using assms(1) by (simp add: table_fits_def fixed_columns_def)
    then have "fst ` set (AList.update BODY_COLUMN b (row_metadata row)) \<subseteq> set (ot_columns t)" for b
      using meta by (auto simp: dom_update)
    then show ?thesis using False by (simp add: encode_row_def row_record_def csv_record_ok)
  qed
qed

lemma smap_Inr_iff: "smap f xs = Inr ys \<longleftrightarrow> list_all2 (\<lambda>x y. f x = Inr y) xs ys"
  by (induction xs arbitrary: ys) (auto simp: sbind_Inr_iff list_all2_Cons1)

lemma smap_total: "(\<And>x. x \<in> set xs \<Longrightarrow> \<exists>y. f x = Inr y \<and> P y) \<Longrightarrow> \<exists>ys. smap f xs = Inr ys \<and> list_all P ys \<and> length ys = length xs"
  by (induction xs) force+

lemma write_rows_total:
  assumes "table_fits reg t" and "\<forall>row \<in> set rows. row_fits lib reg (ot_body_format t) row"
    and "\<And>r. reg = Some r \<Longrightarrow> \<exists>R. registry_ok R r"
  shows "\<exists>cs. write_rows lib reg rows t =
      (Inr (), t\<lparr>ot_csv := ot_csv t @ cs, ot_rows_written := ot_rows_written t + length rows\<rparr>) \<and>
    length cs = length rows \<and> list_all (\<lambda>c. length c = length (ot_columns t)) cs"
proof -
  have "\<exists>cs. smap (encode_row lib reg t) rows = Inr cs \<and> list_all (\<lambda>c. length c = length (ot_columns t)) cs \<and>
      length cs = length rows"
    using assms by (intro smap_total row_fits_encodes) auto
  moreover have "ot_open t" using assms(1) by (simp add: table_fits_def)
  ultimately show ?thesis by (auto simp: write_rows_eq)
qed

subsection \<open>Properties\<close>

definition opened_table :: "flatten_registry option \<Rightarrow> string \<Rightarrow> destination_config \<Rightarrow> body_format \<Rightarrow> output_table" where
  "opened_table reg name dst fmt = snd (open_table reg (new_output_table name dst fmt))"

lemmas table_op_defs = bnd_def gets_def modify_def of_sum_def ret_def raise_def write_manifest_def

lemma open_table_eq:
  assumes "fixed_columns reg t = Inr cols"
  shows "open_table reg t =
    (let d = \<lparr>td_name = ot_table_name t @ ''.csv'', td_schema = schema_for cols,
              td_primary_key = primary_key_columns (primary_key (ot_destination t)),
              td_incremental = incremental (ot_destination t), td_write_always = ot_armed t, td_has_header = True\<rparr>
     in (Inr (), t\<lparr>ot_columns := cols, ot_definition := Some d, ot_manifests := ot_manifests t @ [d],
                   ot_open := True, ot_csv := [cols]\<rparr>))"
  using assms by (simp add: open_table_def table_op_defs Let_def)

lemma primary_key_in_metadata: "u ` set (primary_key_columns k) \<subseteq> set metadata_column_names"
  by (cases k) (simp_all add: metadata_column_names_def METADATA_COLUMNS_def)

text \<open>Opening the output table fixes its columns for the run: the CSV holds the header, exactly one manifest
  is written, without \<^verbatim>\<open>write_always\<close>, and its primary key is among the columns. Every metadata column is
  there; \<^verbatim>\<open>json_flatten\<close> adds the input columns and \<^verbatim>\<open>body_unmapped\<close>, the other formats
  \<^verbatim>\<open>body\<close>. The table then accepts every fitting row.\<close>
theorem open_fixes_columns:
  assumes "fmt = JSON_FLATTEN \<Longrightarrow> reg \<noteq> None"
  shows "let t = opened_table reg name dst fmt in
    fst (open_table reg (new_output_table name dst fmt)) = Inr () \<and> table_fits reg t \<and> ot_csv t = [ot_columns t] \<and>
    ot_rows_written t = 0 \<and>
    (\<exists>d. ot_manifests t = [d] \<and> ot_definition t = Some d \<and> \<not> td_write_always d \<and>
       u ` set (td_primary_key d) \<subseteq> set (ot_columns t)) \<and>
    ot_columns t = metadata_column_names @
      (if fmt = JSON_FLATTEN then input_columns (the reg) @ [UNMAPPED_COLUMN] else [BODY_COLUMN])"
proof -
  define cols where "cols = metadata_column_names @
    (if fmt = JSON_FLATTEN then input_columns (the reg) @ [UNMAPPED_COLUMN] else [BODY_COLUMN])"
  have cols: "fixed_columns reg (new_output_table name dst fmt) = Inr cols"
    using assms by (auto simp: fixed_columns_def new_output_table_def cols_def)
  have pk: "u ` set (primary_key_columns (primary_key dst)) \<subseteq> set cols"
    using primary_key_in_metadata [of "primary_key dst"] by (auto simp: cols_def)
  have fmt: "fixed_columns reg (new_output_table name dst fmt\<lparr>ot_columns := c, ot_definition := d,
      ot_manifests := ms, ot_open := True, ot_csv := cs\<rparr>) = Inr cols" for c d ms cs
    using cols by (simp add: fixed_columns_def new_output_table_def)
  show ?thesis
    using pk fmt unfolding opened_table_def open_table_eq [OF cols] Let_def table_fits_def
    by (simp add: cols_def new_output_table_def)
qed

theorem open_fixes_columns_witness:
  "ot_csv (opened_table None ''orders'' \<lparr>table_name = [], load_type = FULL_LOAD, primary_key = MESSAGE_ID\<rparr> TEXT) =
     [metadata_column_names @ [BODY_COLUMN]]"
  using open_fixes_columns [of TEXT None "''orders''" "\<lparr>table_name = [], load_type = FULL_LOAD, primary_key = MESSAGE_ID\<rparr>"]
  by (simp add: Let_def)

text \<open>Arming \<^verbatim>\<open>write_always\<close> is idempotent: on an opened, unarmed table any positive number of calls
  writes exactly one more manifest, the definition with \<^verbatim>\<open>write_always\<close> set, and touches neither the CSV
  nor the columns.\<close>
theorem arm_writes_one_manifest:
  assumes "ot_definition t = Some d" and "\<not> ot_armed t"
  shows "for_each (\<lambda>_. arm_write_always) (x # xs) t =
    (Inr (), t\<lparr>ot_armed := True, ot_definition := Some (d\<lparr>td_write_always := True\<rparr>),
               ot_manifests := ot_manifests t @ [d\<lparr>td_write_always := True\<rparr>]\<rparr>)"
proof -
  have again: "for_each (\<lambda>_. arm_write_always) xs t = (Inr (), t)" if "ot_armed t" for xs :: "'x list" and t
    using that by (induction xs) (simp_all add: arm_write_always_def table_op_defs)
  have "arm_write_always t = (Inr (), t\<lparr>ot_armed := True, ot_definition := Some (d\<lparr>td_write_always := True\<rparr>),
      ot_manifests := ot_manifests t @ [d\<lparr>td_write_always := True\<rparr>]\<rparr>)"
    using assms by (simp add: arm_write_always_def table_op_defs)
  then show ?thesis by (simp add: bnd_def again)
qed

definition sample_table :: output_table where
  "sample_table = opened_table None ''orders'' \<lparr>table_name = [], load_type = FULL_LOAD, primary_key = MESSAGE_ID\<rparr> TEXT"

lemma sample_table_eq:
  "sample_table =
     (let d = \<lparr>td_name = ''orders.csv'', td_schema = schema_for (metadata_column_names @ [BODY_COLUMN]),
               td_primary_key = [''message_id''], td_incremental = False, td_write_always = False, td_has_header = True\<rparr>
      in \<lparr>ot_table_name = ''orders'', ot_destination = \<lparr>table_name = [], load_type = FULL_LOAD, primary_key = MESSAGE_ID\<rparr>,
          ot_body_format = TEXT, ot_columns = metadata_column_names @ [BODY_COLUMN], ot_definition = Some d,
          ot_open = True, ot_csv = [metadata_column_names @ [BODY_COLUMN]], ot_armed = False, ot_rows_written = 0,
          ot_manifests = [d]\<rparr>)"
proof -
  have "fixed_columns None (new_output_table ''orders'' \<lparr>table_name = [], load_type = FULL_LOAD, primary_key = MESSAGE_ID\<rparr> TEXT) =
      Inr (metadata_column_names @ [BODY_COLUMN])"
    by (simp add: fixed_columns_def new_output_table_def)
  from open_table_eq [OF this] show ?thesis
    by (simp add: sample_table_def opened_table_def Let_def new_output_table_def incremental_def)
qed

theorem arm_writes_one_manifest_witness:
  "length (ot_manifests (snd (for_each (\<lambda>_. arm_write_always) [(), ()] sample_table))) = 2"
proof -
  obtain d where d: "ot_definition sample_table = Some d" "\<not> ot_armed sample_table" "length (ot_manifests sample_table) = 1"
    by (simp add: sample_table_eq Let_def)
  show ?thesis by (simp only: arm_writes_one_manifest [OF d(1,2)] snd_conv) (simp add: d(3))
qed


definition sample_row :: output_row where
  "sample_row = \<lparr>row_metadata = fst (message_metadata sample_lib sample_message sample_ref COMPLETE 0),
     row_body = Some (u ''hi''), row_fields = None\<rparr>"

definition bad_row :: output_row where
  "bad_row = \<lparr>row_metadata = [(u ''no_such_column'', [])], row_body = None, row_fields = None\<rparr>"

lemma sample_row_fits: "row_fits lib reg TEXT sample_row"
  using metadata_row_complete by (simp add: row_fits_def sample_row_def)

lemma sample_table_fits: "table_fits reg sample_table"
  by (simp add: table_fits_def sample_table_eq fixed_columns_def Let_def)

lemma sample_table_format: "ot_body_format sample_table = TEXT"
  by (simp add: sample_table_eq Let_def)


text \<open>A failing write is not atomic: the rows before the one that raises are already in the CSV, although
  none of them is counted as written.\<close>
theorem partial_batch_reaches_csv:
  assumes "ot_open t" and "encode_row lib reg t good = Inr cells" and "encode_row lib reg t bad = Inl e"
  shows "write_rows lib reg [good, bad] t = (Inl e, t\<lparr>ot_csv := ot_csv t @ [cells]\<rparr>)"
  using assms by (simp add: write_rows_eq)

theorem partial_batch_reaches_csv_witness:
  "length (ot_csv (snd (write_rows sample_lib None [sample_row, bad_row] sample_table))) = 2"
proof -
  have op: "ot_open sample_table" using sample_table_fits by (simp add: table_fits_def)
  obtain cells where good: "encode_row sample_lib None sample_table sample_row = Inr cells"
    using row_fits_encodes [OF sample_table_fits, of sample_lib None sample_row] sample_row_fits sample_table_format
    by auto
  have "u ''no_such_column'' \<notin> set (metadata_column_names @ [BODY_COLUMN])"
    by (simp add: metadata_column_names_def METADATA_COLUMNS_def BODY_COLUMN_def)
  then have bad: "encode_row sample_lib None sample_table bad_row = Inl (builtin ''ValueError'')"
    by (simp add: encode_row_def row_record_def sample_table_eq Let_def bad_row_def csv_record_def)
  have "length (ot_csv sample_table) = 1" by (simp add: sample_table_eq Let_def)
  then show ?thesis by (simp add: partial_batch_reaches_csv [OF op good bad])
qed

end
