(* ===== verification/Run_State.thy ===== *)
theory Run_State
  imports Output Stats
begin

text \<open>
  What one run shares between its collaborators, and the Service Bus SDK as the run sees it.

  \<^item> The record \<open>sdk\<close> has one operation per SDK call the source makes. The SDK and the broker are not
    code of the repository, so their state is a type parameter and every operation an arbitrary
    computation on it that may raise any exception; a receiver is a number.
  \<^item> The record \<open>run_state\<close> holds the objects the collaborators mutate: statistics, registry, pending
    set, output table, unreadable handler, the settler's armed flag, and that SDK state. Its last field
    is a trace of the calls that matter for the properties; no definition reads it.
  \<^item> The record \<open>env\<close> holds what never changes during a run.
\<close>

subsection \<open>The SDK\<close>

type_synonym handle = nat

datatype receive_mode = PEEK_LOCK | MODE_RECEIVE_AND_DELETE

datatype session_request = NoSession | NextAvailable int | SessionId string

text \<open>A client of the connector: with the SDK's retries (\<^verbatim>\<open>receive_client\<close>), or with none, for deferred
  receives and for the probe of sessions (\<^verbatim>\<open>commit_client\<close>, \<^verbatim>\<open>session_probe_client\<close>). And the keyword
  arguments of a receiver: \<open>NextAvailable w\<close> is \<^verbatim>\<open>NEXT_AVAILABLE_SESSION\<close> with \<^verbatim>\<open>max_wait_time\<close> \<open>w\<close>.\<close>

datatype client_kind = ReceiveClient | CommitClient

record receiver_request =
  rq_client :: handle
  rq_entity :: entity_ref
  rq_mode :: receive_mode
  rq_prefetch :: int
  rq_session :: session_request

record 'w sdk =
  sdk_clock :: "'w \<Rightarrow> datetime \<times> 'w"
  sdk_monotonic :: "'w \<Rightarrow> int \<times> 'w"
  sdk_sleep :: "int \<Rightarrow> 'w \<Rightarrow> 'w"
  sdk_credential :: "(exn, 'w, unit) py"
  sdk_client :: "client_kind \<Rightarrow> (exn, 'w, handle) py"
  sdk_receiver :: "receiver_request \<Rightarrow> (exn, 'w, handle) py"
  sdk_enter :: "handle \<Rightarrow> (exn, 'w, unit) py"
  sdk_close :: "handle \<Rightarrow> (exn, 'w, unit) py"
  sdk_session_id :: "handle \<Rightarrow> 'w \<Rightarrow> string"
  sdk_session_locked_until :: "handle \<Rightarrow> 'w \<Rightarrow> datetime option"
  sdk_renew_session :: "handle \<Rightarrow> (exn, 'w, unit) py"
  sdk_complete :: "handle \<Rightarrow> message \<Rightarrow> (exn, 'w, unit) py"
  sdk_defer :: "handle \<Rightarrow> message \<Rightarrow> (exn, 'w, unit) py"
  sdk_abandon :: "handle \<Rightarrow> message \<Rightarrow> (exn, 'w, unit) py"
  sdk_renew_message :: "handle \<Rightarrow> message \<Rightarrow> (exn, 'w, unit) py"
  sdk_dead_letter :: "handle \<Rightarrow> message \<Rightarrow> string \<Rightarrow> string \<Rightarrow> (exn, 'w, unit) py"
  sdk_receive :: "handle \<Rightarrow> int \<Rightarrow> int \<Rightarrow> (exn, 'w, message list) py"
  sdk_peek :: "handle \<Rightarrow> int \<Rightarrow> int \<Rightarrow> (exn, 'w, message list) py"
  sdk_receive_deferred :: "handle \<Rightarrow> int list \<Rightarrow> (exn, 'w, message list) py"

subsection \<open>State of a run\<close>

record unreadable_handler =
  uh_retries_enabled :: bool
  uh_first_failure :: "(int \<times> nat) list"
  uh_left :: "int list"
  uh_pending :: "user_error option"

definition new_handler :: unreadable_handler where
  "new_handler = \<lparr>uh_retries_enabled = True, uh_first_failure = [], uh_left = [], uh_pending = None\<rparr>"

datatype event =
    EvWrite "output_row list"
  | EvArm
  | EvComplete int
  | EvDefer int
  | EvAbandon int
  | EvDeadLetter int
  | EvDeleted "int list"
  | EvProcessed int

record 'w run_state =
  rs_world :: 'w
  rs_stats :: run_stats
  rs_registry :: "flatten_registry option"
  rs_pending :: pending_builder
  rs_output :: output_table
  rs_unreadable :: unreadable_handler
  rs_settler_armed :: bool
  rs_info :: entity_info
  rs_trace :: "event list"

record 'w env =
  env_sdk :: "'w sdk"
  env_lib :: pylib
  env_config :: configuration
  env_entity :: entity_ref
  env_text :: textlib
  env_secrets :: "pystr list"

definition mode_of :: "'w env \<Rightarrow> settlement_mode" where
  "mode_of env = settlement_mode (source (env_config env))"

type_synonym ('w, 'a) run = "(exn, 'w run_state, 'a) py"

subsection \<open>Running a part's operation on the whole state\<close>

definition on_world :: "(exn, 'w, 'a) py \<Rightarrow> ('w, 'a) run" where
  "on_world m s = (case m (rs_world s) of (r, w) \<Rightarrow> (r, s\<lparr>rs_world := w\<rparr>))"

definition on_output :: "(exn, output_table, 'a) py \<Rightarrow> ('w, 'a) run" where
  "on_output m s = (case m (rs_output s) of (r, t) \<Rightarrow> (r, s\<lparr>rs_output := t\<rparr>))"

definition on_stats :: "(run_stats \<Rightarrow> run_stats) \<Rightarrow> ('w, unit) run" where
  "on_stats f = modify (\<lambda>s. s\<lparr>rs_stats := f (rs_stats s)\<rparr>)"

definition trace :: "event \<Rightarrow> ('w, unit) run" where
  "trace e = modify (\<lambda>s. s\<lparr>rs_trace := rs_trace s @ [e]\<rparr>)"

definition clock :: "'w env \<Rightarrow> ('w, datetime) run" where
  "clock env s = (case sdk_clock (env_sdk env) (rs_world s) of (t, w) \<Rightarrow> (Inr t, s\<lparr>rs_world := w\<rparr>))"

definition monotonic :: "'w env \<Rightarrow> ('w, int) run" where
  "monotonic env s = (case sdk_monotonic (env_sdk env) (rs_world s) of (t, w) \<Rightarrow> (Inr t, s\<lparr>rs_world := w\<rparr>))"

definition sleep :: "'w env \<Rightarrow> int \<Rightarrow> ('w, unit) run" where
  "sleep env n = modify (\<lambda>s. s\<lparr>rs_world := sdk_sleep (env_sdk env) n (rs_world s)\<rparr>)"

lemma wp_on_world [wp_simps]:
  "wp (on_world m) Q E s = wp m (\<lambda>x w. Q x (s\<lparr>rs_world := w\<rparr>)) (\<lambda>e w. E e (s\<lparr>rs_world := w\<rparr>)) (rs_world s)"
  by (simp add: wp_def on_world_def split: prod.split sum.split)

lemma wp_on_output [wp_simps]:
  "wp (on_output m) Q E s = wp m (\<lambda>x t. Q x (s\<lparr>rs_output := t\<rparr>)) (\<lambda>e t. E e (s\<lparr>rs_output := t\<rparr>)) (rs_output s)"
  by (simp add: wp_def on_output_def split: prod.split sum.split)

lemma wp_on_stats [wp_simps]: "wp (on_stats f) Q E s = Q () (s\<lparr>rs_stats := f (rs_stats s)\<rparr>)"
  by (simp add: on_stats_def wp_simps)

lemma wp_trace [wp_simps]: "wp (trace e) Q E s = Q () (s\<lparr>rs_trace := rs_trace s @ [e]\<rparr>)"
  by (simp add: trace_def wp_simps)

lemma wp_clock [wp_simps]:
  "wp (clock env) Q E s = (case sdk_clock (env_sdk env) (rs_world s) of (t, w) \<Rightarrow> Q t (s\<lparr>rs_world := w\<rparr>))"
  by (simp add: wp_def clock_def split: prod.split)

lemma wp_monotonic [wp_simps]:
  "wp (monotonic env) Q E s = (case sdk_monotonic (env_sdk env) (rs_world s) of (t, w) \<Rightarrow> Q t (s\<lparr>rs_world := w\<rparr>))"
  by (simp add: wp_def monotonic_def split: prod.split)

lemma wp_sleep [wp_simps]: "wp (sleep env n) Q E s = Q () (s\<lparr>rs_world := sdk_sleep (env_sdk env) n (rs_world s)\<rparr>)"
  by (simp add: sleep_def wp_simps)

text \<open>An operation of the SDK can do anything to the SDK's state, and to nothing else.\<close>

lemma wp_anything: "(\<And>x t. Q x t) \<Longrightarrow> (\<And>e t. E e t) \<Longrightarrow> wp m Q E s"
  by (simp add: wp_def split: prod.split sum.split)

subsection \<open>Variables of a collaborator\<close>

text \<open>A collaborator that keeps variables of its own runs on the pair of the run's state and its variables.\<close>

type_synonym ('w, 'x, 'a) run_with = "(exn, 'w run_state \<times> 'x, 'a) py"

definition in_run :: "('w, 'a) run \<Rightarrow> ('w, 'x, 'a) run_with" where
  "in_run m sx = (case m (fst sx) of (r, s) \<Rightarrow> (r, (s, snd sx)))"

definition var :: "('x \<Rightarrow> 'a) \<Rightarrow> ('w, 'x, 'a) run_with" where
  "var f = gets (\<lambda>sx. f (snd sx))"

definition set_var :: "('x \<Rightarrow> 'x) \<Rightarrow> ('w, 'x, unit) run_with" where
  "set_var f = modify (\<lambda>sx. (fst sx, f (snd sx)))"

lemma wp_in_run [wp_simps]:
  "wp (in_run m) Q E sx = wp m (\<lambda>a s. Q a (s, snd sx)) (\<lambda>e s. E e (s, snd sx)) (fst sx)"
  by (simp add: wp_def in_run_def split: prod.split sum.split)

lemma wp_var [wp_simps]: "wp (var f) Q E sx = Q (f (snd sx)) sx"
  by (simp add: var_def wp_simps)

lemma wp_set_var [wp_simps]: "wp (set_var f) Q E sx = Q () (fst sx, f (snd sx))"
  by (simp add: set_var_def wp_simps)

text \<open>A collaborator's run on fresh variables.\<close>

definition run_vars :: "'x \<Rightarrow> ('w, 'x, 'a) run_with \<Rightarrow> ('w, 'a) run" where
  "run_vars x m s = (case m (s, x) of (r, (s', x')) \<Rightarrow> (r, s'))"

lemma wp_run_vars [wp_simps]:
  "wp (run_vars x m) Q E s = wp m (\<lambda>a sx. Q a (fst sx)) (\<lambda>e sx. E e (fst sx)) (s, x)"
  by (simp add: wp_def run_vars_def split: prod.split sum.split)

subsection \<open>A sample run\<close>

text \<open>For the applied theorems: an SDK whose operations all succeed and whose state is the list of the batches
  that its receive and peek calls still return, and the start of a run of \<open>sample_configuration\<close> on it.\<close>

definition next_batch :: "(exn, message list list, message list) py" where
  "next_batch bs = (Inr (case bs of [] \<Rightarrow> [] | b # _ \<Rightarrow> b), tl bs)"

definition sample_sdk :: "message list list sdk" where
  "sample_sdk = \<lparr>sdk_clock = (\<lambda>w. (0, w)), sdk_monotonic = (\<lambda>w. (0, w)), sdk_sleep = (\<lambda>n w. w),
     sdk_credential = ret (), sdk_client = (\<lambda>k. ret 0), sdk_receiver = (\<lambda>rq. ret 0), sdk_enter = (\<lambda>h. ret ()), sdk_close = (\<lambda>h. ret ()),
     sdk_session_id = (\<lambda>h w. []), sdk_session_locked_until = (\<lambda>h w. None), sdk_renew_session = (\<lambda>h. ret ()),
     sdk_complete = (\<lambda>h m. ret ()), sdk_defer = (\<lambda>h m. ret ()), sdk_abandon = (\<lambda>h m. ret ()),
     sdk_renew_message = (\<lambda>h m. ret ()), sdk_dead_letter = (\<lambda>h m r d. ret ()),
     sdk_receive = (\<lambda>h n t. next_batch), sdk_peek = (\<lambda>h n q. next_batch),
     sdk_receive_deferred = (\<lambda>h qs. ret (map (\<lambda>q. sample_message\<lparr>m_seq := q\<rparr>) qs))\<rparr>"

definition sample_env :: "message list list env" where
  "sample_env = \<lparr>env_sdk = sample_sdk, env_lib = sample_lib, env_config = sample_configuration,
     env_entity = sample_ref, env_text = ascii_text, env_secrets = []\<rparr>"

definition sample_run :: "message list list \<Rightarrow> message list list run_state" where
  "sample_run bs = \<lparr>rs_world = bs, rs_stats = new_stats ''complete'', rs_registry = None, rs_pending = empty_builder,
     rs_output = sample_table, rs_unreadable = new_handler, rs_settler_armed = False,
     rs_info = default_entity_info, rs_trace = []\<rparr>"

lemma sample_mode [simp]: "mode_of sample_env = COMPLETE"
  by (simp add: mode_of_def sample_env_def sample_configuration_def)

lemma sample_env_fields [simp]:
  "env_sdk sample_env = sample_sdk" "env_lib sample_env = sample_lib" "env_config sample_env = sample_configuration"
  "env_entity sample_env = sample_ref"
  by (simp_all add: sample_env_def)

lemma sample_format [simp]: "body_format (body sample_configuration) = TEXT"
  by (simp add: sample_configuration_def)

end
