(* ===== verification/Settlement.thy ===== *)
theory Settlement
  imports Run_State
begin

text \<open>
  \<^verbatim>\<open>src/settlement.py\<close>: the settlers, the unreadable-body policy and the batch processor.

  The processor takes its sink and its settler as arguments, as the source's object takes them. Their
  contracts are the locales \<open>settler\<close> and \<open>sink\<close>; the processor's guarantees are proved from the
  contracts alone and interpreted on the program's own settlers and output table.
\<close>

subsection \<open>Settlers\<close>

definition arm_output :: "('w, unit) run" where
  "arm_output = bnd (on_output arm_write_always) (\<lambda>_. trace EvArm)"

definition complete_settle :: "'w env \<Rightarrow> handle \<Rightarrow> message \<Rightarrow> nat \<Rightarrow> ('w, unit) run" where
  "complete_settle env h m body_bytes =
     bnd (gets rs_settler_armed) (\<lambda>armed.
     bnd (when_py (\<not> armed) (bnd arm_output (\<lambda>_. modify (\<lambda>s. s\<lparr>rs_settler_armed := True\<rparr>)))) (\<lambda>_.
     bnd (trace (EvComplete (m_seq m))) (\<lambda>_.
     bnd (on_world (sdk_complete (env_sdk env) h m)) (\<lambda>_.
       on_stats (\<lambda>st. st\<lparr>s_completed := s_completed st + 1\<rparr>)))))"

definition defer_settle :: "'w env \<Rightarrow> handle \<Rightarrow> message \<Rightarrow> nat \<Rightarrow> ('w, unit) run" where
  "defer_settle env h m body_bytes =
     bnd (trace (EvDefer (m_seq m))) (\<lambda>_.
     bnd (on_world (sdk_defer (env_sdk env) h m)) (\<lambda>_.
     bnd (modify (\<lambda>s. s\<lparr>rs_pending := builder_add (env_entity env) (m_seq m) (m_session_id m) (int body_bytes) (rs_pending s)\<rparr>)) (\<lambda>_.
       on_stats (\<lambda>st. st\<lparr>s_deferred := s_deferred st + 1\<rparr>))))"

definition noop_settle :: "bool \<Rightarrow> handle \<Rightarrow> message \<Rightarrow> nat \<Rightarrow> ('w, unit) run" where
  "noop_settle count_as_deleted h m body_bytes =
     when_py count_as_deleted (on_stats (\<lambda>st. st\<lparr>s_deleted_on_receive := s_deleted_on_receive st + 1\<rparr>))"

text \<open>\<^verbatim>\<open>make_settler\<close>; the run always passes a pending-set builder.\<close>

definition make_settler :: "'w env \<Rightarrow> handle \<Rightarrow> message \<Rightarrow> nat \<Rightarrow> ('w, unit) run" where
  "make_settler env =
     (case mode_of env of
        COMPLETE \<Rightarrow> complete_settle env
      | DEFER_COMMIT \<Rightarrow> defer_settle env
      | RECEIVE_AND_DELETE \<Rightarrow> noop_settle True
      | PEEK \<Rightarrow> noop_settle False)"

definition lock_lost :: "exn \<Rightarrow> bool" where
  "lock_lost e \<longleftrightarrow> exn_class e = SB MessageLockLostError \<or> exn_class e = MessageAlreadySettled"

definition safe_settle :: "('w, unit) run \<Rightarrow> ('w, bool) run" where
  "safe_settle action =
     try_py (bnd action (\<lambda>_. ret True))
       (\<lambda>e. if lock_lost e
            then bnd (on_stats (\<lambda>st. warn ''settlement_failures'' (st\<lparr>s_settlement_failures := s_settlement_failures st + 1\<rparr>)))
                   (\<lambda>_. ret False)
            else raise e)"

definition LOCK_RENEW_MARGIN :: int where "LOCK_RENEW_MARGIN = 10 * 1000000"

definition renew_if_needed :: "'w env \<Rightarrow> handle \<Rightarrow> message \<Rightarrow> datetime \<Rightarrow> ('w, unit) run" where
  "renew_if_needed env h m now =
     (case m_locked_until m of
        None \<Rightarrow> ret ()
      | Some locked_until \<Rightarrow>
          when_py (locked_until - now < LOCK_RENEW_MARGIN) (on_world (sdk_renew_message (env_sdk env) h m)))"

subsection \<open>Unreadable bodies\<close>

datatype unreadable_action = RETRY | DISPOSED | SKIPPED | FAILED

definition MAX_UNREADABLE_RECYCLES :: nat where "MAX_UNREADABLE_RECYCLES = 50"
definition UNREADABLE_ABORT_MIN :: nat where "UNREADABLE_ABORT_MIN = 10"

definition lock_holding :: "settlement_mode \<Rightarrow> bool" where
  "lock_holding m \<longleftrightarrow> m = COMPLETE \<or> m = DEFER_COMMIT"

fun reason_of :: "unreadable_error \<Rightarrow> string" where
  "reason_of (NotJsonError c) = ''NotJson''"
| "reason_of BodyTooLargeError = ''BodyTooLarge''"
| "reason_of (BodyDecodeError c) = ''UnreadableBody''"

text \<open>\<^verbatim>\<open>type(error.__cause__ or error).__name__\<close>\<close>

fun description_of :: "unreadable_error \<Rightarrow> string" where
  "description_of (NotJsonError c) = c"
| "description_of BodyTooLargeError = ''BodyTooLargeError''"
| "description_of (BodyDecodeError c) = c"

fun is_decode_error :: "unreadable_error \<Rightarrow> bool" where
  "is_decode_error (BodyDecodeError c) = True"
| "is_decode_error e = False"

definition on_handler :: "(unreadable_handler \<Rightarrow> unreadable_handler) \<Rightarrow> ('w, unit) run" where
  "on_handler f = modify (\<lambda>s. s\<lparr>rs_unreadable := f (rs_unreadable s)\<rparr>)"

definition count_reason :: "string \<Rightarrow> string \<Rightarrow> ('w, unit) run" where
  "count_reason reason disposition = on_stats (count_unreadable (reason @ '':'' @ disposition))"

definition count_disposition :: "string \<Rightarrow> string \<Rightarrow> ('w, unit) run" where
  "count_disposition reason disposition =
     bnd (count_reason reason disposition) (\<lambda>_.
       on_stats (warn (''unreadable_'' @ reason @ ''_'' @ disposition)))"

definition should_retry :: "'w env \<Rightarrow> message \<Rightarrow> nat \<Rightarrow> ('w, bool) run" where
  "should_retry env m generation =
     bnd (gets rs_unreadable) (\<lambda>uh.
       let first = map_of (uh_first_failure uh) (m_seq m) in
       if first \<noteq> None \<and> first \<noteq> Some generation then ret False
       else if mode_of env = RECEIVE_AND_DELETE \<or> \<not> uh_retries_enabled uh then ret False
       else bnd (gets (s_unreadable_recycles \<circ> rs_stats)) (\<lambda>n.
              if MAX_UNREADABLE_RECYCLES \<le> n
              then bnd (on_stats (warn ''unreadable_retry_budget'')) (\<lambda>_. ret False)
              else ret True))"

definition retry_unreadable :: "'w env \<Rightarrow> handle \<Rightarrow> message \<Rightarrow> nat \<Rightarrow> string \<Rightarrow> ('w, unreadable_action) run" where
  "retry_unreadable env h m generation reason =
     bnd (on_handler (\<lambda>uh. uh\<lparr>uh_first_failure := setdefault (m_seq m) generation (uh_first_failure uh)\<rparr>)) (\<lambda>_.
     bnd (when_py (lock_holding (mode_of env))
            (bnd (safe_settle (bnd (trace (EvAbandon (m_seq m))) (\<lambda>_. on_world (sdk_abandon (env_sdk env) h m)))) (\<lambda>_. ret ()))) (\<lambda>_.
     bnd (count_reason reason ''retry'') (\<lambda>_. ret RETRY)))"

definition policy_of :: "'w env \<Rightarrow> unreadable_policy" where
  "policy_of env = unreadable_body (body (env_config env))"

definition dispose_unreadable :: "'w env \<Rightarrow> handle \<Rightarrow> message \<Rightarrow> unreadable_error \<Rightarrow> ('w, unreadable_action) run" where
  "dispose_unreadable env h m err =
     (let reason = reason_of err in
      if policy_of env = POLICY_FAIL then
        bnd (count_reason reason ''failed'') (\<lambda>_.
        bnd (on_handler (\<lambda>uh. uh\<lparr>uh_pending := (case uh_pending uh of
               None \<Rightarrow> Some (UnreadableFailPolicy (m_seq m) reason) | Some p \<Rightarrow> Some p)\<rparr>)) (\<lambda>_. ret FAILED))
      else if \<not> lock_holding (mode_of env) then
        bnd (count_disposition reason ''skipped'') (\<lambda>_. ret SKIPPED)
      else if policy_of env = POLICY_DEAD_LETTER \<and> \<not> is_sub_queue (env_entity env) then
        bnd (safe_settle (bnd (trace (EvDeadLetter (m_seq m))) (\<lambda>_.
               on_world (sdk_dead_letter (env_sdk env) h m reason (description_of err))))) (\<lambda>_.
        bnd (count_disposition reason ''dead_lettered'') (\<lambda>_. ret DISPOSED))
      else
        bnd (when_py (policy_of env = POLICY_DEAD_LETTER) (on_stats (warn ''dead_letter_on_sub_queue''))) (\<lambda>_.
        bnd (on_handler (\<lambda>uh. uh\<lparr>uh_left := List.insert (m_seq m) (uh_left uh)\<rparr>)) (\<lambda>_.
        bnd (count_disposition reason ''left'') (\<lambda>_. ret DISPOSED))))"

definition handle_unreadable ::
  "'w env \<Rightarrow> handle \<Rightarrow> message \<Rightarrow> unreadable_error \<Rightarrow> nat \<Rightarrow> ('w, unreadable_action) run" where
  "handle_unreadable env h m err generation =
     bnd (gets (uh_left \<circ> rs_unreadable)) (\<lambda>left.
       if m_seq m \<in> set left then ret DISPOSED
       else if is_decode_error err
       then bnd (should_retry env m generation) (\<lambda>r.
              if r then retry_unreadable env h m generation (reason_of err) else dispose_unreadable env h m err)
       else dispose_unreadable env h m err)"

definition raise_pending :: "('w, unit) run" where
  "raise_pending =
     bnd (gets (uh_pending \<circ> rs_unreadable)) (\<lambda>pending.
     bnd (on_handler (\<lambda>uh. uh\<lparr>uh_pending := None\<rparr>)) (\<lambda>_.
       case pending of None \<Rightarrow> ret () | Some ue \<Rightarrow> raise (user_exception ue None)))"

text \<open>\<^verbatim>\<open>total > 0.10 * received\<close>: for integers below $2^{50}$ the float product is never below the exact
  tenth of \<^verbatim>\<open>received\<close> and exceeds it by less than a tenth, so the comparison is the exact one.\<close>

definition check_abort_share :: "('w, unit) run" where
  "check_abort_share =
     bnd (gets rs_stats) (\<lambda>st.
       let total = unreadable_total st; received = s_received st in
       if received < 10 * total \<and> UNREADABLE_ABORT_MIN \<le> total
       then raise (user_exception (UnreadableAbortShare total received) None) else ret ())"

subsection \<open>The batch processor\<close>

record batch_result =
  br_written :: nat
  br_needs_recycle :: bool
  br_progressed :: bool
  br_retried :: "int list"

definition register_path :: "pylib \<Rightarrow> path \<Rightarrow> (body_failure, 'w run_state, unit) py" where
  "register_path lib p =
     bnd (gets rs_registry) (\<lambda>reg.
       case reg of
         None \<Rightarrow> raise (Escaping ''AssertionError'')
       | Some r \<Rightarrow>
           (case register lib p r of
              Inl e \<Rightarrow> raise (Escaping e)
            | Inr (name, r') \<Rightarrow> modify (\<lambda>s. s\<lparr>rs_registry := Some r'\<rparr>)))"

definition split_now :: "pylib \<Rightarrow> field_map \<Rightarrow> (body_failure, 'w run_state, unit) py" where
  "split_now lib fs =
     bnd (gets rs_registry) (\<lambda>reg.
       case reg of
         None \<Rightarrow> raise (Escaping ''AssertionError'')
       | Some r \<Rightarrow> (case split lib r fs of Inl e \<Rightarrow> raise e | Inr sp \<Rightarrow> ret ()))"

definition to_row :: "'w env \<Rightarrow> message \<Rightarrow> datetime \<Rightarrow> (body_failure, 'w run_state, output_row \<times> nat) py" where
  "to_row env m extracted_at =
     bnd (of_sum (encode_body (env_lib env) m (body_format (body (env_config env))))) (\<lambda>e.
     bnd (case enc_fields e of
            None \<Rightarrow> ret ()
          | Some fs \<Rightarrow> bnd (for_each (register_path (env_lib env)) (map fst fs)) (\<lambda>_. split_now (env_lib env) fs)) (\<lambda>_.
       let meta = message_metadata (env_lib env) m (env_entity env) (mode_of env) extracted_at in
       bnd (modify (\<lambda>s. s\<lparr>rs_stats := (note_amqp_out_of_range ^^ snd meta) (rs_stats s)\<rparr>)) (\<lambda>_.
         ret (case enc_fields e of
                None \<Rightarrow> \<lparr>row_metadata = fst meta, row_body = enc_cell e, row_fields = None\<rparr>
              | Some fs \<Rightarrow> \<lparr>row_metadata = fst meta, row_body = None, row_fields = Some fs\<rparr>,
              enc_size_bytes e))))"

record batch_acc =
  ba_rows :: "output_row list"
  ba_readable :: "(message \<times> nat) list"
  ba_retried :: "int list"
  ba_disposed :: bool

definition read_message ::
  "'w env \<Rightarrow> handle \<Rightarrow> nat \<Rightarrow> datetime \<Rightarrow> message \<Rightarrow> batch_acc \<Rightarrow> ('w, batch_acc) run" where
  "read_message env h generation extracted_at m acc =
     bnd (on_stats (\<lambda>st. note_delivery_count (delivery_count m) (st\<lparr>s_received := s_received st + 1\<rparr>))) (\<lambda>_.
       catch_py
         (bnd (to_row env m extracted_at) (\<lambda>(row, body_bytes).
            ret (acc\<lparr>ba_rows := ba_rows acc @ [row], ba_readable := ba_readable acc @ [(m, body_bytes)]\<rparr>)))
         (\<lambda>f. case f of
            Escaping c \<Rightarrow> raise (builtin c)
          | Unreadable err \<Rightarrow>
              bnd (handle_unreadable env h m err generation) (\<lambda>action.
                ret (if action = RETRY then acc\<lparr>ba_retried := ba_retried acc @ [m_seq m]\<rparr>
                     else acc\<lparr>ba_disposed := True\<rparr>))))"

fun read_messages ::
  "'w env \<Rightarrow> handle \<Rightarrow> nat \<Rightarrow> datetime \<Rightarrow> message list \<Rightarrow> batch_acc \<Rightarrow> ('w, batch_acc) run" where
  "read_messages env h generation extracted_at [] acc = ret acc"
| "read_messages env h generation extracted_at (m # ms) acc =
     bnd (read_message env h generation extracted_at m acc) (read_messages env h generation extracted_at ms)"

definition settle_one ::
  "'w env \<Rightarrow> (handle \<Rightarrow> message \<Rightarrow> nat \<Rightarrow> ('w, unit) run) \<Rightarrow> handle \<Rightarrow> message \<times> nat \<Rightarrow> ('w, unit) run" where
  "settle_one env settle h mb =
     bnd (safe_settle
            (bnd (when_py (lock_holding (mode_of env))
                    (bnd (clock env) (renew_if_needed env h (fst mb)))) (\<lambda>_.
               settle h (fst mb) (snd mb)))) (\<lambda>_. ret ())"

definition check_overflow :: "('w, unit) run" where
  "check_overflow =
     bnd (gets rs_registry) (\<lambda>reg.
       case reg of
         Some r \<Rightarrow> if reg_overflowed r then raise (user_exception TooManyColumns None) else ret ()
       | None \<Rightarrow> ret ())"

definition empty_acc :: batch_acc where
  "empty_acc = \<lparr>ba_rows = [], ba_readable = [], ba_retried = [], ba_disposed = False\<rparr>"

definition write_batch :: "(output_row list \<Rightarrow> ('w, unit) run) \<Rightarrow> batch_acc \<Rightarrow> ('w, unit) run" where
  "write_batch put acc =
     when_py (ba_rows acc \<noteq> [])
       (bnd (put (ba_rows acc)) (\<lambda>_. on_stats (\<lambda>st. st\<lparr>s_written := s_written st + length (ba_rows acc)\<rparr>)))"

definition final_checks :: "('w, unit) run" where
  "final_checks = bnd raise_pending (\<lambda>_. bnd check_overflow (\<lambda>_. check_abort_share))"

definition process ::
  "(output_row list \<Rightarrow> ('w, unit) run) \<Rightarrow> (handle \<Rightarrow> message \<Rightarrow> nat \<Rightarrow> ('w, unit) run) \<Rightarrow>
   'w env \<Rightarrow> handle \<Rightarrow> message list \<Rightarrow> nat \<Rightarrow> ('w, batch_result) run" where
  "process put settle env h messages generation =
     bnd (clock env) (\<lambda>extracted_at.
     bnd (read_messages env h generation extracted_at messages empty_acc) (\<lambda>acc.
     bnd (write_batch put acc) (\<lambda>_.
     bnd (for_each (settle_one env settle h) (ba_readable acc)) (\<lambda>_.
     bnd final_checks (\<lambda>_.
       ret \<lparr>br_written = length (ba_rows acc), br_needs_recycle = (ba_retried acc \<noteq> []),
            br_progressed = (ba_rows acc \<noteq> [] \<or> ba_disposed acc), br_retried = ba_retried acc\<rparr>)))))"

text \<open>The sink of a run is its output table.\<close>

definition write_output :: "'w env \<Rightarrow> output_row list \<Rightarrow> ('w, unit) run" where
  "write_output env rows =
     bnd (gets rs_registry) (\<lambda>reg.
     bnd (on_output (write_rows (env_lib env) reg rows)) (\<lambda>_. trace (EvWrite rows)))"

definition process_batch :: "'w env \<Rightarrow> handle \<Rightarrow> message list \<Rightarrow> nat \<Rightarrow> ('w, batch_result) run" where
  "process_batch env = process (write_output env) (make_settler env) env"

subsection \<open>Contracts\<close>

definition row_cell :: "output_row \<Rightarrow> pystr" where
  "row_cell row = dget (row_metadata row) (u ''sequence_number'') []"

text \<open>What reading a batch may do: note statistics, register paths, handle unreadable bodies. It neither writes
  a row nor settles a readable message.\<close>

fun unreadable_event :: "event \<Rightarrow> bool" where
  "unreadable_event (EvAbandon q) = True"
| "unreadable_event (EvDeadLetter q) = True"
| "unreadable_event e = False"

fun settle_event :: "int \<Rightarrow> event \<Rightarrow> bool" where
  "settle_event q EvArm = True"
| "settle_event q (EvComplete q') = (q' = q)"
| "settle_event q (EvDefer q') = (q' = q)"
| "settle_event q e = False"

definition extends_trace :: "(event \<Rightarrow> bool) \<Rightarrow> 'w run_state \<Rightarrow> 'w run_state \<Rightarrow> bool" where
  "extends_trace P s s' \<longleftrightarrow> (\<exists>new. rs_trace s' = rs_trace s @ new \<and> (\<forall>e \<in> set new. P e))"

lemma extends_trace_refl [simp]: "extends_trace P s s"
  by (simp add: extends_trace_def)

lemma extends_trace_same: "rs_trace s' = rs_trace s \<Longrightarrow> extends_trace P s s'"
  by (simp add: extends_trace_def)

lemma extends_trace_trans: "extends_trace P s t \<Longrightarrow> extends_trace P t v \<Longrightarrow> extends_trace P s v"
  by (fastforce simp: extends_trace_def)

definition read_frame :: "'w run_state \<Rightarrow> 'w run_state \<Rightarrow> bool" where
  "read_frame s s' \<longleftrightarrow>
     extends_trace unreadable_event s s' \<and> rs_output s' = rs_output s \<and> rs_pending s' = rs_pending s \<and>
     rs_settler_armed s' = rs_settler_armed s \<and> s_written (rs_stats s') = s_written (rs_stats s) \<and>
     s_completed (rs_stats s') = s_completed (rs_stats s) \<and> s_deferred (rs_stats s') = s_deferred (rs_stats s) \<and>
     rs_info s' = rs_info s"

lemma read_frame_refl [simp]: "read_frame s s"
  by (simp add: read_frame_def)

lemma read_frame_trans: "read_frame s t \<Longrightarrow> read_frame t v \<Longrightarrow> read_frame s v"
  by (auto simp: read_frame_def intro: extends_trace_trans)

text \<open>What settling may do, \<open>P\<close> describing its events. Arming comes before the first complete.\<close>

fun arms_first :: "bool \<Rightarrow> event list \<Rightarrow> bool" where
  "arms_first armed [] = True"
| "arms_first armed (EvArm # es) = arms_first True es"
| "arms_first armed (EvComplete q # es) = (armed \<and> arms_first armed es)"
| "arms_first armed (e # es) = arms_first armed es"

lemma arms_first_append: "arms_first b (xs @ ys) \<longleftrightarrow> arms_first b xs \<and> arms_first (b \<or> EvArm \<in> set xs) ys"
  by (induction b xs rule: arms_first.induct) auto

definition settle_trace :: "(event \<Rightarrow> bool) \<Rightarrow> 'w run_state \<Rightarrow> 'w run_state \<Rightarrow> bool" where
  "settle_trace P s s' \<longleftrightarrow>
     (\<exists>new. rs_trace s' = rs_trace s @ new \<and> (\<forall>e \<in> set new. P e) \<and> arms_first (rs_settler_armed s) new \<and>
        rs_settler_armed s' = (rs_settler_armed s \<or> EvArm \<in> set new))"

definition settle_frame :: "(event \<Rightarrow> bool) \<Rightarrow> 'w run_state \<Rightarrow> 'w run_state \<Rightarrow> bool" where
  "settle_frame P s s' \<longleftrightarrow>
     settle_trace P s s' \<and> rs_registry s' = rs_registry s \<and> rs_unreadable s' = rs_unreadable s \<and>
     ot_csv (rs_output s') = ot_csv (rs_output s) \<and>
     s_received (rs_stats s') = s_received (rs_stats s) \<and> s_written (rs_stats s') = s_written (rs_stats s) \<and>
     s_unreadable (rs_stats s') = s_unreadable (rs_stats s) \<and> rs_info s' = rs_info s"

lemma settle_frame_refl [simp]: "settle_frame P s s"
  by (simp add: settle_frame_def settle_trace_def)

lemma settle_trace_trans: "settle_trace P s t \<Longrightarrow> settle_trace P t v \<Longrightarrow> settle_trace P s v"
  unfolding settle_trace_def by (elim exE conjE) (rule exI, auto simp: arms_first_append)

lemma settle_frame_trans: "settle_frame P s t \<Longrightarrow> settle_frame P t v \<Longrightarrow> settle_frame P s v"
  by (auto simp: settle_frame_def intro: settle_trace_trans)

lemma settle_frame_mono: "settle_frame P s t \<Longrightarrow> (\<And>e. P e \<Longrightarrow> P' e) \<Longrightarrow> settle_frame P' s t"
  by (fastforce simp: settle_frame_def settle_trace_def)

definition write_frame :: "output_row list \<Rightarrow> 'w run_state \<Rightarrow> 'w run_state \<Rightarrow> bool" where
  "write_frame rows s s' \<longleftrightarrow> rs_trace s' = rs_trace s @ [EvWrite rows] \<and>
     s'\<lparr>rs_output := rs_output s, rs_trace := rs_trace s\<rparr> = s"

locale settler =
  fixes settle :: "handle \<Rightarrow> message \<Rightarrow> nat \<Rightarrow> ('w, unit) run"
  assumes settle_law: "wp (settle h m n) (\<lambda>_. settle_frame (settle_event (m_seq m)) s)
    (\<lambda>_. settle_frame (settle_event (m_seq m)) s) s"

locale sink =
  fixes put :: "output_row list \<Rightarrow> ('w, unit) run"
  assumes write_law: "wp (put rows) (\<lambda>_. write_frame rows s)
    (\<lambda>_ s'. rs_trace s' = rs_trace s \<and> rs_settler_armed s' = rs_settler_armed s) s"

subsection \<open>Reading\<close>

lemma wp_on_world_any:
  "(\<And>x w. Q x (s\<lparr>rs_world := w\<rparr>)) \<Longrightarrow> (\<And>e w. E e (s\<lparr>rs_world := w\<rparr>)) \<Longrightarrow> wp (on_world m) Q E s"
  by (simp add: wp_on_world wp_anything)

lemma trace_frame_simps [simp]:
  "extends_trace P s (s'\<lparr>rs_world := w\<rparr>) = extends_trace P s s'"
  "extends_trace P s (s'\<lparr>rs_stats := st\<rparr>) = extends_trace P s s'"
  "extends_trace P s (s'\<lparr>rs_registry := r\<rparr>) = extends_trace P s s'"
  "extends_trace P s (s'\<lparr>rs_pending := p\<rparr>) = extends_trace P s s'"
  "extends_trace P s (s'\<lparr>rs_output := t\<rparr>) = extends_trace P s s'"
  "extends_trace P s (s'\<lparr>rs_unreadable := uh\<rparr>) = extends_trace P s s'"
  "extends_trace P s (s'\<lparr>rs_settler_armed := b\<rparr>) = extends_trace P s s'"
  by (simp_all add: extends_trace_def)

lemma extends_trace_snoc [simp]:
  "P e \<Longrightarrow> rs_trace s' = rs_trace s \<Longrightarrow> extends_trace P s (s'\<lparr>rs_trace := rs_trace s @ [e]\<rparr>)"
  by (simp add: extends_trace_def)

lemma count_unreadable_frame [simp]:
  "s_written (count_unreadable k st) = s_written st" "s_completed (count_unreadable k st) = s_completed st"
  "s_deferred (count_unreadable k st) = s_deferred st" "s_received (count_unreadable k st) = s_received st"
  by (simp_all add: count_unreadable_def)

text \<open>Handling an unreadable body stays within the frame, returns an action and raises only what the SDK
  raises.\<close>

lemma wp_safe_settle [wp_simps]:
  "wp (safe_settle action) Q E s =
     wp action (\<lambda>_. Q True)
       (\<lambda>e t. if lock_lost e
              then Q False (t\<lparr>rs_stats := warn ''settlement_failures''
                     ((rs_stats t)\<lparr>s_settlement_failures := s_settlement_failures (rs_stats t) + 1\<rparr>)\<rparr>)
              else E e t) s"
  unfolding safe_settle_def wp_try wp_bnd wp_ret wp_if wp_raise wp_on_stats ..

lemmas unreadable_defs = handle_unreadable_def should_retry_def retry_unreadable_def dispose_unreadable_def
  on_handler_def count_reason_def count_disposition_def

lemma handle_unreadable_frame:
  "wp (handle_unreadable env h m err generation)
     (\<lambda>_ s'. read_frame s s' \<and> s_received (rs_stats s') = s_received (rs_stats s))
     (\<lambda>_ s'. read_frame s s' \<and> s_received (rs_stats s') = s_received (rs_stats s)) s"
  by (auto simp: unreadable_defs wp_simps Let_def read_frame_def intro!: wp_anything)

lemma amqp_frame [simp]:
  "s_written ((note_amqp_out_of_range ^^ n) st) = s_written st"
  "s_completed ((note_amqp_out_of_range ^^ n) st) = s_completed st"
  "s_deferred ((note_amqp_out_of_range ^^ n) st) = s_deferred st"
  "s_received ((note_amqp_out_of_range ^^ n) st) = s_received st"
  by (induction n) (simp_all add: note_amqp_out_of_range_def)

lemma register_path_frame:
  "wp (register_path lib p) (\<lambda>_. read_frame s) (\<lambda>_. read_frame s) s"
  by (auto simp: register_path_def wp_simps read_frame_def split: option.split sum.split)

text \<open>A row: the cell of its sequence number is the message's.\<close>

lemma row_cell_metadata:
  "row_cell \<lparr>row_metadata = fst (message_metadata lib m entity mode t), row_body = b, row_fields = fs\<rparr> = str_of_int (m_seq m)"
  using metadata_row_complete [of lib m entity mode t] by (simp add: row_cell_def dget_def)

definition same_reading :: "'w run_state \<Rightarrow> 'w run_state \<Rightarrow> bool" where
  "same_reading s s' \<longleftrightarrow> read_frame s s' \<and> s_received (rs_stats s') = s_received (rs_stats s)"

lemma to_row_frame:
  "wp (to_row env m t)
     (\<lambda>rb s'. same_reading s s' \<and> row_cell (fst rb) = str_of_int (m_seq m))
     (\<lambda>_. same_reading s) s"
proof -
  have step: "wp (for_each (register_path lib) ps) (\<lambda>_. same_reading s) (\<lambda>_. same_reading s) s" for lib ps
  proof (rule wp_for_each_inv)
    fix p t
    assume "same_reading s t"
    then show "wp (register_path lib p) (\<lambda>_. same_reading s) (\<lambda>_. same_reading s) t"
      by (auto simp: register_path_def wp_simps read_frame_def same_reading_def split: option.split sum.split)
  qed (simp add: same_reading_def)
  show ?thesis
  proof (cases "encode_body (env_lib env) m (body_format (body (env_config env)))")
    case (Inl e)
    then show ?thesis by (simp add: to_row_def wp_simps same_reading_def)
  next
    case (Inr e)
    show ?thesis
    proof (cases "enc_fields e")
      case None
      with Inr show ?thesis
        by (simp add: to_row_def wp_simps Let_def same_reading_def read_frame_def row_cell_metadata)
    next
      case (Some fs)
      show ?thesis
        unfolding to_row_def Inr of_sum_def sum.case Some option.case Let_def wp_bnd wp_ret
        by (rule wp_mono [OF step])
          (auto simp: split_now_def wp_simps same_reading_def read_frame_def row_cell_metadata
            split: option.split sum.split)
    qed
  qed
qed

text \<open>What reading messages adds to the accumulator.\<close>

definition acc_covers :: "message list \<Rightarrow> batch_acc \<Rightarrow> bool" where
  "acc_covers ms acc \<longleftrightarrow>
     map row_cell (ba_rows acc) = map (\<lambda>mb. str_of_int (m_seq (fst mb))) (ba_readable acc) \<and>
     length (ba_rows acc) + length (ba_retried acc) \<le> length ms \<and>
     (\<not> ba_disposed acc \<longrightarrow> length (ba_rows acc) + length (ba_retried acc) = length ms) \<and>
     (\<forall>m \<in> set ms. m \<in> fst ` set (ba_readable acc) \<or> m_seq m \<in> set (ba_retried acc) \<or> ba_disposed acc)"

lemma same_reading_trans:
  "same_reading s t \<Longrightarrow> read_frame t v \<and> s_received (rs_stats v) = s_received (rs_stats t) \<Longrightarrow> same_reading s v"
  by (auto simp: same_reading_def intro: read_frame_trans)

lemma acc_covers_retried: "acc_covers ms acc \<Longrightarrow> acc_covers (ms @ [m]) (acc\<lparr>ba_retried := ba_retried acc @ [m_seq m]\<rparr>)"
  by (auto simp: acc_covers_def)

lemma acc_covers_disposed: "acc_covers ms acc \<Longrightarrow> acc_covers (ms @ [m]) (acc\<lparr>ba_disposed := True\<rparr>)"
  by (auto simp: acc_covers_def)

lemma acc_covers_row:
  "acc_covers ms acc \<Longrightarrow> row_cell row = str_of_int (m_seq m) \<Longrightarrow>
     acc_covers (ms @ [m]) (acc\<lparr>ba_rows := ba_rows acc @ [row], ba_readable := ba_readable acc @ [(m, n)]\<rparr>)"
  by (auto simp: acc_covers_def)

lemma read_message_frame:
  assumes "acc_covers ms acc"
  shows "wp (read_message env h generation t m acc)
     (\<lambda>acc' s'. read_frame s s' \<and> s_received (rs_stats s') = s_received (rs_stats s) + 1 \<and> acc_covers (ms @ [m]) acc')
     (\<lambda>_. read_frame s) s"
proof -
  let ?s = "s\<lparr>rs_stats := note_delivery_count (delivery_count m) ((rs_stats s)\<lparr>s_received := s_received (rs_stats s) + 1\<rparr>)\<rparr>"
  have frame: "read_frame s s'" "s_received (rs_stats s') = s_received (rs_stats s) + 1" if "same_reading ?s s'" for s'
    using that by (auto simp: same_reading_def read_frame_def note_delivery_count_def extends_trace_def)
  have handle: "wp (bnd (handle_unreadable env h m err generation) (\<lambda>action.
        ret (if action = RETRY then acc\<lparr>ba_retried := ba_retried acc @ [m_seq m]\<rparr> else acc\<lparr>ba_disposed := True\<rparr>)))
      (\<lambda>acc' s'. read_frame s s' \<and> s_received (rs_stats s') = s_received (rs_stats s) + 1 \<and> acc_covers (ms @ [m]) acc')
      (\<lambda>_. read_frame s) s1" if "same_reading ?s s1" for err s1
  proof -
    note frame' = frame [OF same_reading_trans [OF that]]
    show ?thesis
      unfolding wp_bnd
    proof (rule wp_mono [OF handle_unreadable_frame])
      fix action s'
      assume "read_frame s1 s' \<and> s_received (rs_stats s') = s_received (rs_stats s1)"
      then show "wp (ret (if action = RETRY then acc\<lparr>ba_retried := ba_retried acc @ [m_seq m]\<rparr> else acc\<lparr>ba_disposed := True\<rparr>))
          (\<lambda>acc' s'. read_frame s s' \<and> s_received (rs_stats s') = s_received (rs_stats s) + 1 \<and> acc_covers (ms @ [m]) acc')
          (\<lambda>_. read_frame s) s'"
        using frame' acc_covers_retried [OF assms] acc_covers_disposed [OF assms] by (simp add: wp_ret)
    qed (use frame' in blast)
  qed
  have "wp (to_row env m t)
     (\<lambda>rb s'. same_reading ?s s' \<and> row_cell (fst rb) = str_of_int (m_seq m)) (\<lambda>_. same_reading ?s) ?s"
    by (rule to_row_frame)
  then show ?thesis
    unfolding read_message_def wp_bnd wp_on_stats wp_catch
    by (rule wp_mono)
      (use acc_covers_row [OF assms] frame handle in \<open>auto simp: wp_simps split: body_failure.split\<close>)
qed

lemma read_messages_frame:
  "acc_covers ms0 acc \<Longrightarrow>
   wp (read_messages env h generation t ms acc)
     (\<lambda>acc' s'. read_frame s s' \<and> s_received (rs_stats s') = s_received (rs_stats s) + length ms \<and>
        acc_covers (ms0 @ ms) acc')
     (\<lambda>_. read_frame s) s"
proof (induction ms arbitrary: ms0 acc s)
  case Nil
  then show ?case by (simp add: wp_simps)
next
  case (Cons m ms)
  show ?case
    unfolding read_messages.simps wp_bnd
  proof (rule wp_mono [OF read_message_frame [OF Cons.prems]])
    fix acc' s'
    assume a: "read_frame s s' \<and> s_received (rs_stats s') = s_received (rs_stats s) + 1 \<and> acc_covers (ms0 @ [m]) acc'"
    show "wp (read_messages env h generation t ms acc')
       (\<lambda>acc' s'. read_frame s s' \<and> s_received (rs_stats s') = s_received (rs_stats s) + length (m # ms) \<and>
          acc_covers (ms0 @ m # ms) acc') (\<lambda>_. read_frame s) s'"
      by (rule wp_mono [OF Cons.IH [of "ms0 @ [m]" acc' s']]) (use a in \<open>auto intro: read_frame_trans\<close>)
  qed
qed

subsection \<open>Writing before settling\<close>

text \<open>\<open>settles_after_write W es\<close>: in the trace \<open>es\<close> every completed or deferred message had its row
  written before, \<open>W\<close> being the rows' sequence-number cells written before \<open>es\<close>.\<close>

fun settles_after_write :: "pystr set \<Rightarrow> event list \<Rightarrow> bool" where
  "settles_after_write W [] = True"
| "settles_after_write W (EvWrite rows # es) = settles_after_write (W \<union> row_cell ` set rows) es"
| "settles_after_write W (EvComplete q # es) = (str_of_int q \<in> W \<and> settles_after_write W es)"
| "settles_after_write W (EvDefer q # es) = (str_of_int q \<in> W \<and> settles_after_write W es)"
| "settles_after_write W (e # es) = settles_after_write W es"

fun written_cells :: "event list \<Rightarrow> pystr set" where
  "written_cells [] = {}"
| "written_cells (EvWrite rows # es) = row_cell ` set rows \<union> written_cells es"
| "written_cells (e # es) = written_cells es"

lemma settles_after_write_append:
  "settles_after_write W (xs @ ys) \<longleftrightarrow> settles_after_write W xs \<and> settles_after_write (W \<union> written_cells xs) ys"
  by (induction W xs rule: settles_after_write.induct) (auto simp: Un_assoc)

lemma written_cells_append [simp]: "written_cells (xs @ ys) = written_cells xs \<union> written_cells ys"
  by (induction xs rule: written_cells.induct) auto

lemma settles_after_write_reading: "\<forall>e \<in> set es. unreadable_event e \<Longrightarrow> settles_after_write W es \<and> written_cells es = {}"
  by (induction W es rule: settles_after_write.induct) auto

lemma arms_first_reading: "\<forall>e \<in> set es. unreadable_event e \<Longrightarrow> arms_first b es \<and> EvArm \<notin> set es"
  by (induction b es rule: arms_first.induct) auto

definition settles_in :: "pystr set \<Rightarrow> event \<Rightarrow> bool" where
  "settles_in W e \<longleftrightarrow> (\<exists>q. str_of_int q \<in> W \<and> settle_event q e)"

lemma settles_after_write_settling: "\<forall>e \<in> set es. settles_in W e \<Longrightarrow> settles_after_write W es"
  by (induction W es rule: settles_after_write.induct) (auto simp: settles_in_def)

text \<open>The guarantee of a batch: its trace, whatever the outcome.\<close>

definition batch_trace :: "'w run_state \<Rightarrow> 'w run_state \<Rightarrow> bool" where
  "batch_trace s s' \<longleftrightarrow>
     (\<exists>new. rs_trace s' = rs_trace s @ new \<and> settles_after_write {} new \<and> arms_first (rs_settler_armed s) new \<and>
        (rs_settler_armed s' \<longrightarrow> rs_settler_armed s \<or> EvArm \<in> set new))"

lemma settle_frame_simps [simp]:
  "settle_frame P s (s'\<lparr>rs_world := w\<rparr>) = settle_frame P s s'"
  "settle_frame P s (s'\<lparr>rs_stats := warn k ((rs_stats s')\<lparr>s_settlement_failures := n\<rparr>)\<rparr>) = settle_frame P s s'"
  by (simp_all add: settle_frame_def settle_trace_def)

lemma read_then_write:
  assumes "read_frame s s1" and "write_frame rows s1 s2"
  shows "\<exists>es. rs_trace s2 = rs_trace s @ es \<and> settles_after_write {} es \<and> written_cells es = row_cell ` set rows \<and>
    arms_first (rs_settler_armed s) es \<and> EvArm \<notin> set es \<and> rs_settler_armed s2 = rs_settler_armed s"
proof -
  obtain es where es: "rs_trace s1 = rs_trace s @ es" "\<forall>e \<in> set es. unreadable_event e"
    "rs_settler_armed s1 = rs_settler_armed s"
    using assms(1) by (auto simp: read_frame_def extends_trace_def)
  have "rs_settler_armed (s2\<lparr>rs_output := rs_output s1, rs_trace := rs_trace s1\<rparr>) = rs_settler_armed s1"
    using assms(2) by (simp only: write_frame_def)
  then have "rs_settler_armed s2 = rs_settler_armed s" using es(3) by simp
  moreover have "rs_trace s2 = rs_trace s @ es @ [EvWrite rows]" using assms(2) es(1) by (simp add: write_frame_def)
  ultimately show ?thesis
    using settles_after_write_reading [OF es(2), of "{}"] arms_first_reading [OF es(2), of "rs_settler_armed s"]
    by (intro exI [of _ "es @ [EvWrite rows]"])
      (auto simp: settles_after_write_append arms_first_append)
qed

lemma batch_trace_reading: "read_frame s s' \<Longrightarrow> batch_trace s s'"
  unfolding read_frame_def extends_trace_def batch_trace_def
  using settles_after_write_reading arms_first_reading by blast

lemma batch_trace_same:
  "batch_trace s t \<Longrightarrow> rs_trace t' = rs_trace t \<Longrightarrow> rs_settler_armed t' = rs_settler_armed t \<Longrightarrow> batch_trace s t'"
  by (simp add: batch_trace_def)

lemma settles_after_write_mono: "settles_after_write W es \<Longrightarrow> W \<subseteq> W' \<Longrightarrow> settles_after_write W' es"
proof (induction W es arbitrary: W' rule: settles_after_write.induct)
  case (2 W rows es)
  then show ?case by (simp add: "2.IH" [of "W' \<union> row_cell ` set rows"] sup.coboundedI1)
qed auto

lemma arms_first_mono: "arms_first b es \<Longrightarrow> (b \<longrightarrow> b') \<Longrightarrow> arms_first b' es"
  by (induction b es arbitrary: b' rule: arms_first.induct) auto

text \<open>Batches compose: a run of batches keeps the guarantee of each.\<close>

lemma batch_trace_refl [simp]: "batch_trace s s"
  by (simp add: batch_trace_def)

lemma batch_trace_trans: "batch_trace s t \<Longrightarrow> batch_trace t v \<Longrightarrow> batch_trace s v"
  unfolding batch_trace_def
  by (elim exE conjE, rule exI)
    (auto simp: settles_after_write_append arms_first_append intro: settles_after_write_mono arms_first_mono)

definition batch_accounts :: "message list \<Rightarrow> batch_result \<Rightarrow> 'w run_state \<Rightarrow> 'w run_state \<Rightarrow> bool" where
  "batch_accounts ms r s s' \<longleftrightarrow>
     s_received (rs_stats s') = s_received (rs_stats s) + length ms \<and>
     s_written (rs_stats s') = s_written (rs_stats s) + br_written r \<and>
     br_written r + length (br_retried r) \<le> length ms \<and>
     br_needs_recycle r = (br_retried r \<noteq> []) \<and>
     (br_written r + length (br_retried r) < length ms \<longrightarrow> br_progressed r) \<and>
     (0 < br_written r \<longrightarrow> br_progressed r)"

lemma batch_trace_settled:
  assumes "read_frame s s1" and "write_frame rows s1 s2" and "settle_frame (settles_in (row_cell ` set rows)) s2 s3"
  shows "batch_trace s s3"
proof -
  obtain es where es: "rs_trace s2 = rs_trace s @ es" "settles_after_write {} es" "written_cells es = row_cell ` set rows"
    "arms_first (rs_settler_armed s) es" "EvArm \<notin> set es" "rs_settler_armed s2 = rs_settler_armed s"
    using read_then_write [OF assms(1,2)] by blast
  obtain fs where fs: "rs_trace s3 = rs_trace s2 @ fs" "\<forall>e \<in> set fs. settles_in (row_cell ` set rows) e"
    "arms_first (rs_settler_armed s) fs" "rs_settler_armed s3 = (rs_settler_armed s \<or> EvArm \<in> set fs)"
    using assms(3) es(6) by (auto simp: settle_frame_def settle_trace_def)
  have "settles_after_write {} (es @ fs)"
    using es(2,3) settles_after_write_settling [OF fs(2)] by (simp add: settles_after_write_append)
  moreover have "arms_first (rs_settler_armed s) (es @ fs)"
    using es(4,5) fs(3) by (simp add: arms_first_append)
  ultimately show ?thesis using es(1) fs(1,4) by (auto simp: batch_trace_def)
qed

lemma write_frame_fields:
  assumes "write_frame rows s1 s2"
  shows "rs_stats s2 = rs_stats s1" "rs_registry s2 = rs_registry s1" "rs_unreadable s2 = rs_unreadable s1"
    "rs_settler_armed s2 = rs_settler_armed s1" "rs_pending s2 = rs_pending s1" "rs_info s2 = rs_info s1"
proof -
  have eq: "s2\<lparr>rs_output := rs_output s1, rs_trace := rs_trace s1\<rparr> = s1" using assms by (simp add: write_frame_def)
  show "rs_stats s2 = rs_stats s1" by (subst eq [symmetric]) simp
  show "rs_registry s2 = rs_registry s1" by (subst eq [symmetric]) simp
  show "rs_unreadable s2 = rs_unreadable s1" by (subst eq [symmetric]) simp
  show "rs_settler_armed s2 = rs_settler_armed s1" by (subst eq [symmetric]) simp
  show "rs_pending s2 = rs_pending s1" by (subst eq [symmetric]) simp
  show "rs_info s2 = rs_info s1" by (subst eq [symmetric]) simp
qed

lemma final_checks_frame:
  "wp final_checks
     (\<lambda>_ s'. rs_trace s' = rs_trace s \<and> rs_stats s' = rs_stats s \<and> rs_output s' = rs_output s \<and>
        rs_settler_armed s' = rs_settler_armed s)
     (\<lambda>e s'. rs_trace s' = rs_trace s \<and> rs_stats s' = rs_stats s \<and> rs_output s' = rs_output s \<and>
        rs_settler_armed s' = rs_settler_armed s \<and> is_user_exception e) s"
  by (auto simp: final_checks_def raise_pending_def check_overflow_def check_abort_share_def on_handler_def wp_simps Let_def
      split: option.split)

text \<open>The result of a batch from what reading it collected.\<close>

definition result_of :: "batch_acc \<Rightarrow> batch_result" where
  "result_of acc = \<lparr>br_written = length (ba_rows acc), br_needs_recycle = (ba_retried acc \<noteq> []),
     br_progressed = (ba_rows acc \<noteq> [] \<or> ba_disposed acc), br_retried = ba_retried acc\<rparr>"

locale batch = settler settle + sink put
  for settle :: "handle \<Rightarrow> message \<Rightarrow> nat \<Rightarrow> ('w, unit) run" and put :: "output_row list \<Rightarrow> ('w, unit) run"
begin

lemma settle_one_frame:
  "wp (settle_one env settle h mb) (\<lambda>_. settle_frame (settle_event (m_seq (fst mb))) s)
     (\<lambda>_. settle_frame (settle_event (m_seq (fst mb))) s) s"
proof -
  have settle: "wp (settle h m n) (\<lambda>_. settle_frame (settle_event (m_seq m)) s) (\<lambda>_. settle_frame (settle_event (m_seq m)) s) t"
    if "settle_frame (settle_event (m_seq m)) s t" for m n t
    by (rule wp_mono [OF settle_law]) (use that settle_frame_trans in blast)+
  let ?P = "settle_event (m_seq (fst mb))"
  have body: "wp (bnd (when_py (lock_holding (mode_of env)) (bnd (clock env) (renew_if_needed env h (fst mb))))
        (\<lambda>_. settle h (fst mb) (snd mb))) (\<lambda>_. settle_frame ?P s) (\<lambda>_. settle_frame ?P s) s"
    by (auto simp: wp_simps renew_if_needed_def split: option.split prod.split intro!: wp_anything settle)
  show ?thesis
    unfolding settle_one_def wp_bnd wp_safe_settle wp_ret
    by (rule wp_mono [OF body [unfolded wp_bnd]]) auto
qed

lemma settle_all_frame:
  assumes "\<forall>mb \<in> set mbs. str_of_int (m_seq (fst mb)) \<in> W"
  shows "wp (for_each (settle_one env settle h) mbs) (\<lambda>_. settle_frame (settles_in W) s)
    (\<lambda>_. settle_frame (settles_in W) s) s"
proof (rule wp_for_each_inv)
  fix mb t
  assume mb: "mb \<in> set mbs" and t: "settle_frame (settles_in W) s t"
  have "settle_frame (settles_in W) s v" if "settle_frame (settle_event (m_seq (fst mb))) t v" for v
  proof -
    have "settle_frame (settles_in W) t v"
      by (rule settle_frame_mono [OF that]) (use assms mb in \<open>auto simp: settles_in_def\<close>)
    then show ?thesis using t settle_frame_trans by blast
  qed
  then show "wp (settle_one env settle h mb) (\<lambda>_. settle_frame (settles_in W) s) (\<lambda>_. settle_frame (settles_in W) s) t"
    by (intro wp_mono [OF settle_one_frame]) auto
qed simp

lemma settle_and_check:
  assumes t: "t = s2\<lparr>rs_stats := st\<rparr>" and read: "read_frame s s1" and put: "write_frame (ba_rows acc) s1 s2"
    and cells: "row_cell ` set (ba_rows acc) = (\<lambda>mb. str_of_int (m_seq (fst mb))) ` set (ba_readable acc)"
    and Q: "\<And>v. batch_trace s v \<Longrightarrow> s_received (rs_stats v) = s_received st \<Longrightarrow> s_written (rs_stats v) = s_written st \<Longrightarrow> Q v"
  shows "wp (for_each (settle_one env settle h) (ba_readable acc))
    (\<lambda>_. wp final_checks (\<lambda>_ s'. Q s') (\<lambda>_. batch_trace s)) (\<lambda>_. batch_trace s) t"
proof -
  let ?W = "row_cell ` set (ba_rows acc)"
  have tr: "batch_trace s v" if "settle_frame (settles_in ?W) t v" for v
  proof -
    have "settle_frame (settles_in ?W) s2 (v\<lparr>rs_stats := rs_stats s2\<rparr>)"
      using that write_frame_fields [OF put] by (simp add: t settle_frame_def settle_trace_def)
    then have "batch_trace s (v\<lparr>rs_stats := rs_stats s2\<rparr>)" by (rule batch_trace_settled [OF read put])
    then show ?thesis by (simp add: batch_trace_def)
  qed
  have stats: "s_received (rs_stats v) = s_received st" "s_written (rs_stats v) = s_written st"
    if "settle_frame (settles_in ?W) t v" for v
    using that by (simp_all add: t settle_frame_def)
  have checks: "wp final_checks (\<lambda>_ s'. Q s') (\<lambda>_. batch_trace s) v" if v: "settle_frame (settles_in ?W) t v" for v
    by (rule wp_mono [OF final_checks_frame])
      (use batch_trace_same [OF tr [OF v]] stats [OF v] Q in auto)
  have "\<forall>mb \<in> set (ba_readable acc). str_of_int (m_seq (fst mb)) \<in> ?W" using cells by auto
  then show ?thesis
    by (rule wp_mono [OF settle_all_frame]) (use tr checks in auto)
qed

lemma read_batch:
  "wp (read_messages env h generation t ms empty_acc)
     (\<lambda>acc s'. read_frame s s' \<and> s_received (rs_stats s') = s_received (rs_stats s) + length ms \<and> acc_covers ms acc)
     (\<lambda>_. read_frame s) (s\<lparr>rs_world := w\<rparr>)"
proof -
  have start: "read_frame s s'" if "read_frame (s\<lparr>rs_world := w\<rparr>) s'" for s'
    using that by (simp add: read_frame_def extends_trace_def)
  have "acc_covers [] empty_acc" by (simp add: acc_covers_def empty_acc_def)
  then show ?thesis
    by (rule wp_mono [OF read_messages_frame [of "[]"]]) (use start in auto)
qed

lemma write_settle_check:
  assumes s1: "read_frame s s1" "s_received (rs_stats s1) = s_received (rs_stats s) + length ms" and acc: "acc_covers ms acc"
  shows "wp (write_batch put acc)
    (\<lambda>_. wp (for_each (settle_one env settle h) (ba_readable acc))
       (\<lambda>_. wp final_checks (\<lambda>_ s'. batch_trace s s' \<and> batch_accounts ms (result_of acc) s s')
          (\<lambda>_. batch_trace s)) (\<lambda>_. batch_trace s)) (\<lambda>_. batch_trace s) s1"
proof (cases "ba_rows acc = []")
  case True
  have checks: "wp final_checks (\<lambda>_ s'. Q s') (\<lambda>_. batch_trace s) s1"
    if "\<And>v. batch_trace s v \<Longrightarrow> s_received (rs_stats v) = s_received (rs_stats s1) \<Longrightarrow>
      s_written (rs_stats v) = s_written (rs_stats s1) \<Longrightarrow> Q v" for Q
    by (rule wp_mono [OF final_checks_frame])
      (use batch_trace_same [OF batch_trace_reading [OF s1(1)]] that in auto)
  from True have "ba_readable acc = []" using acc by (auto simp: acc_covers_def)
  with True show ?thesis
    by (auto simp: write_batch_def wp_simps batch_accounts_def result_of_def s1 read_frame_def [of s s1]
        intro!: checks) (use acc s1 in \<open>auto simp: acc_covers_def read_frame_def\<close>)
next
  case False
  have cells: "row_cell ` set (ba_rows acc) = (\<lambda>mb. str_of_int (m_seq (fst mb))) ` set (ba_readable acc)"
    using acc unfolding acc_covers_def by (metis list.set_map)
  have raised: "batch_trace s v" if "rs_trace v = rs_trace s1" "rs_settler_armed v = rs_settler_armed s1" for v
    using batch_trace_reading [OF s1(1)] that by (rule batch_trace_same)
  show ?thesis
    unfolding write_batch_def when_py_def if_P [OF False] wp_bnd wp_on_stats
  proof (rule wp_mono [OF write_law])
    fix x s2
    assume put: "write_frame (ba_rows acc) s1 s2"
    have "s_written (rs_stats s2) = s_written (rs_stats s)" "s_received (rs_stats s2) = s_received (rs_stats s) + length ms"
      using write_frame_fields [OF put] s1 by (simp_all add: read_frame_def)
    then show "wp (for_each (settle_one env settle h) (ba_readable acc))
       (\<lambda>_. wp final_checks (\<lambda>_ s'. batch_trace s s' \<and> batch_accounts ms (result_of acc) s s')
          (\<lambda>_. batch_trace s)) (\<lambda>_. batch_trace s)
       (s2\<lparr>rs_stats := (rs_stats s2)\<lparr>s_written := s_written (rs_stats s2) + length (ba_rows acc)\<rparr>\<rparr>)"
      by (intro settle_and_check [OF refl s1(1) put cells])
        (use acc False in \<open>auto simp: batch_accounts_def acc_covers_def result_of_def\<close>)
  qed (use raised in blast)
qed

lemma process_trace:
  "wp (process put settle env h ms generation)
     (\<lambda>r s'. batch_trace s s' \<and> batch_accounts ms r s s') (\<lambda>_. batch_trace s) s"
proof -
  obtain t w where now: "sdk_clock (env_sdk env) (rs_world s) = (t, w)" by fastforce
  show ?thesis
    unfolding process_def wp_bnd wp_clock wp_ret now prod.case result_of_def [symmetric]
    by (rule wp_mono [OF read_batch]) (elim conjE, erule (2) write_settle_check, erule batch_trace_reading)
qed

end

subsection \<open>The program's settlers and sink\<close>

lemma wp_imp: "wp m Q E s \<Longrightarrow> (\<forall>x t. Q x t \<longrightarrow> Q' x t) \<Longrightarrow> (\<forall>e t. E e t \<longrightarrow> E' e t) \<Longrightarrow> wp m Q' E' s"
  by (erule wp_mono) auto

lemma arm_frame: "wp arm_write_always (\<lambda>_ t'. ot_csv t' = ot_csv t) (\<lambda>_ t'. ot_csv t' = ot_csv t) t"
  by (auto simp: arm_write_always_def write_manifest_def wp_simps split: option.split)

lemma settle_frame_event:
  "P e \<Longrightarrow> e \<noteq> EvArm \<Longrightarrow> (\<forall>q. e \<noteq> EvComplete q) \<or> rs_settler_armed s \<Longrightarrow>
     settle_frame P s (s\<lparr>rs_trace := rs_trace s @ [e], rs_world := w\<rparr>)"
  by (cases e) (auto simp: settle_frame_def settle_trace_def)

lemma complete_settle_frame:
  "wp (complete_settle env h m n) (\<lambda>_. settle_frame (settle_event (m_seq m)) s) (\<lambda>_. settle_frame (settle_event (m_seq m)) s) s"
proof (cases "rs_settler_armed s")
  case True
  then show ?thesis
    by (auto simp: complete_settle_def wp_simps settle_frame_def settle_trace_def intro!: wp_anything)
next
  case False
  then show ?thesis
    by (simp add: complete_settle_def arm_output_def wp_simps)
      (rule wp_imp [OF arm_frame], auto simp: settle_frame_def settle_trace_def intro!: wp_anything)
qed

interpretation program_batch: batch "make_settler env" "write_output env" for env :: "'w env"
proof
  fix h m n and s :: "'w run_state"
  have "wp (defer_settle env h m n) (\<lambda>_. settle_frame (settle_event (m_seq m)) s) (\<lambda>_. settle_frame (settle_event (m_seq m)) s) s"
    by (auto simp: defer_settle_def wp_simps settle_frame_def settle_trace_def intro!: wp_anything)
  moreover have "wp (noop_settle b h m n) (\<lambda>_. settle_frame (settle_event (m_seq m)) s) (\<lambda>_. settle_frame (settle_event (m_seq m)) s) s" for b
    by (auto simp: noop_settle_def wp_simps settle_frame_def settle_trace_def)
  ultimately show "wp (make_settler env h m n) (\<lambda>_. settle_frame (settle_event (m_seq m)) s)
      (\<lambda>_. settle_frame (settle_event (m_seq m)) s) s"
    using complete_settle_frame by (cases "mode_of env") (simp_all add: make_settler_def)
next
  fix rows and s :: "'w run_state"
  show "wp (write_output env rows) (\<lambda>_. write_frame rows s)
    (\<lambda>_ s'. rs_trace s' = rs_trace s \<and> rs_settler_armed s' = rs_settler_armed s) s"
    by (auto simp: write_output_def wp_simps write_frame_def intro!: wp_anything)
qed

subsection \<open>Properties\<close>

text \<open>C2: Write before settle: whatever the broker and the SDK do, and however the batch ends, every message the
  batch completed or deferred had its row written earlier in the same batch, and no message is completed
  before \<^verbatim>\<open>write_always\<close> was armed (in this batch or before it).\<close>
theorem write_before_settle:
  "\<exists>new. rs_trace (snd (process_batch env h ms generation s)) = rs_trace s @ new \<and>
     settles_after_write {} new \<and> arms_first (rs_settler_armed s) new"
proof -
  have "wp (process_batch env h ms generation) (\<lambda>_. batch_trace s) (\<lambda>_. batch_trace s) s"
    unfolding process_batch_def by (rule wp_imp [OF program_batch.process_trace]) auto
  then have "batch_trace s (snd (process_batch env h ms generation s))"
    by (simp add: wp_def split: prod.splits sum.splits)
  then show ?thesis by (auto simp: batch_trace_def)
qed


subsection \<open>The write of a batch cannot fail\<close>

definition registry_grows :: "flatten_registry option \<Rightarrow> flatten_registry option \<Rightarrow> bool" where
  "registry_grows reg reg' \<longleftrightarrow>
     (case reg of None \<Rightarrow> reg' = None
      | Some r \<Rightarrow> \<exists>r'. reg' = Some r' \<and> extends r r' \<and> reg_input_order r' = reg_input_order r \<and>
                     (\<forall>R. registry_ok R r \<longrightarrow> registry_ok R r'))"

lemma registry_grows_refl [simp]: "registry_grows reg reg"
  by (auto simp: registry_grows_def split: option.split)

lemma registry_grows_trans: "registry_grows a b \<Longrightarrow> registry_grows b c \<Longrightarrow> registry_grows a c"
  by (fastforce simp: registry_grows_def intro: extends_trans split: option.splits)

lemma register_grows:
  assumes "register lib p r = Inr (n, r')" shows "registry_grows (Some r) (Some r')"
proof -
  have "reg_input_order r' = reg_input_order r"
    using assms by (cases rule: register_cases) auto
  then show ?thesis using register_extends [OF assms] register_ok [OF _ assms] by (auto simp: registry_grows_def)
qed

lemma row_fits_grows:
  "row_fits lib reg fmt row \<Longrightarrow> registry_grows reg reg' \<Longrightarrow> row_fits lib reg' fmt row"
  by (auto simp: row_fits_def registry_grows_def split: option.splits intro: split_extends)

lemma input_columns_grow:
  assumes "registry_grows (Some r) (Some r')" and "registry_ok R r" shows "input_columns r' = input_columns r"
proof -
  have ext: "extends r r'" "reg_input_order r' = reg_input_order r" using assms(1) by (auto simp: registry_grows_def)
  have "map_of (reg_by_hash r') h = map_of (reg_by_hash r) h" if "h \<in> set (reg_input_order r)" for h
  proof -
    have "set (reg_input_order r) \<subseteq> set (map fst (reg_by_hash r))" using assms(2) by (simp add: registry_ok_def)
    then have "h \<in> fst ` set (assigned r)" using that by (auto simp: assigned_def)
    then have "assigned_name r h \<noteq> None" by (simp add: assigned_name_None)
    then show ?thesis by (rule extendsD [OF ext(1)])
  qed
  then show ?thesis using ext(2) by (simp add: input_columns_def dget_def)
qed

lemma table_fits_grows:
  assumes "table_fits reg t" and "registry_grows reg reg'" and "\<And>r. reg = Some r \<Longrightarrow> \<exists>R. registry_ok R r"
  shows "table_fits reg' t"
proof (cases reg)
  case (Some r)
  with assms obtain r' R where "reg' = Some r'" "registry_grows (Some r) (Some r')" "registry_ok R r"
    by (auto simp: registry_grows_def)
  moreover from this have "input_columns r' = input_columns r" by (blast intro: input_columns_grow)
  ultimately show ?thesis using Some assms(1) by (auto simp: table_fits_def fixed_columns_def split: if_splits)
qed (use assms in \<open>auto simp: registry_grows_def table_fits_def\<close>)

lemma handle_unreadable_registry:
  "wp (handle_unreadable env h m err generation)
     (\<lambda>_ s'. rs_registry s' = rs_registry s \<and> rs_output s' = rs_output s)
     (\<lambda>_ s'. rs_registry s' = rs_registry s \<and> rs_output s' = rs_output s) s"
  by (auto simp: unreadable_defs wp_simps Let_def intro!: wp_anything)

lemma to_row_fits:
  fixes s :: "'w run_state"
  shows "wp (to_row env m t)
     (\<lambda>rb s'. registry_grows (rs_registry s) (rs_registry s') \<and> rs_output s' = rs_output s \<and>
        row_fits (env_lib env) (rs_registry s') (body_format (body (env_config env))) (fst rb))
     (\<lambda>_ s'. registry_grows (rs_registry s) (rs_registry s') \<and> rs_output s' = rs_output s) s"
proof -
  let ?G = "\<lambda>s' :: 'w run_state. registry_grows (rs_registry s) (rs_registry s') \<and> rs_output s' = rs_output s"
  have step: "wp (for_each (register_path lib) ps) (\<lambda>_. ?G) (\<lambda>_. ?G) s" for lib ps
  proof (rule wp_for_each_inv)
    fix p and t :: "'w run_state"
    assume "?G t"
    then show "wp (register_path lib p) (\<lambda>_. ?G) (\<lambda>_. ?G) t"
      by (auto simp: register_path_def wp_simps split: option.split sum.split
          intro: registry_grows_trans register_grows)
  qed simp
  have names: "map fst (fst (message_metadata lib m e mode t)) = metadata_column_names" for lib e mode
    using metadata_row_complete [of lib m e mode t] by simp
  show ?thesis
  proof (cases "encode_body (env_lib env) m (body_format (body (env_config env)))")
    case (Inl e)
    then show ?thesis by (simp add: to_row_def wp_simps)
  next
    case (Inr e)
    show ?thesis
    proof (cases "enc_fields e")
      case None
      then have "body_format (body (env_config env)) \<noteq> JSON_FLATTEN" using encoded_cells [OF Inr] by simp
      with Inr None show ?thesis by (simp add: to_row_def wp_simps Let_def row_fits_def names)
    next
      case (Some fs)
      show ?thesis
        unfolding to_row_def Inr of_sum_def sum.case Some option.case Let_def wp_bnd wp_ret
        by (rule wp_mono [OF step])
          (auto simp: split_now_def wp_simps row_fits_def names split: option.split sum.split)
    qed
  qed
qed

definition reading_fits :: "'w env \<Rightarrow> 'w run_state \<Rightarrow> batch_acc \<Rightarrow> 'w run_state \<Rightarrow> bool" where
  "reading_fits env s acc s' \<longleftrightarrow>
     registry_grows (rs_registry s) (rs_registry s') \<and> rs_output s' = rs_output s \<and>
     (\<forall>row \<in> set (ba_rows acc). row_fits (env_lib env) (rs_registry s') (body_format (body (env_config env))) row)"

lemma reading_fits_grows:
  "reading_fits env s acc t \<Longrightarrow> registry_grows (rs_registry t) (rs_registry v) \<Longrightarrow> rs_output v = rs_output t \<Longrightarrow>
     reading_fits env s acc v"
  by (auto simp: reading_fits_def intro: registry_grows_trans row_fits_grows)

lemma read_message_fits:
  assumes "reading_fits env s acc t"
  shows "wp (read_message env h g now m acc) (\<lambda>acc'. reading_fits env s acc') (\<lambda>_ _. True) t"
proof -
  let ?t = "t\<lparr>rs_stats := note_delivery_count (delivery_count m) ((rs_stats t)\<lparr>s_received := s_received (rs_stats t) + 1\<rparr>)\<rparr>"
  have same: "reading_fits env s acc v" if "registry_grows (rs_registry ?t) (rs_registry v)" "rs_output v = rs_output ?t" for v
    using reading_fits_grows [OF assms] that by simp
  have handle: "wp (bnd (handle_unreadable env h m err g) (\<lambda>action.
        ret (if action = RETRY then acc\<lparr>ba_retried := ba_retried acc @ [m_seq m]\<rparr> else acc\<lparr>ba_disposed := True\<rparr>)))
      (\<lambda>acc'. reading_fits env s acc') (\<lambda>_ _. True) v" if "reading_fits env s acc v" for err v
    unfolding wp_bnd wp_ret
    by (rule wp_imp [OF handle_unreadable_registry]) (use that in \<open>auto simp: reading_fits_def\<close>)
  show ?thesis
    unfolding read_message_def wp_bnd wp_on_stats wp_catch
    by (rule wp_imp [OF to_row_fits])
      (use same handle in \<open>auto simp: wp_simps reading_fits_def split: body_failure.split\<close>)
qed

lemma read_messages_fits:
  "reading_fits env s acc t \<Longrightarrow>
     wp (read_messages env h g now ms acc) (\<lambda>acc'. reading_fits env s acc') (\<lambda>_ _. True) t"
proof (induction ms arbitrary: acc t)
  case (Cons m ms)
  show ?case
    unfolding read_messages.simps wp_bnd
    by (rule wp_imp [OF read_message_fits [OF Cons.prems]]) (use Cons.IH in auto)
qed (simp add: wp_simps)

lemma batch_write:
  assumes "read_messages env h generation t ms empty_acc s = (Inr acc, s1)"
    and "table_fits (rs_registry s) (rs_output s)" and "ot_body_format (rs_output s) = body_format (body (env_config env))"
    and "\<forall>r. rs_registry s = Some r \<longrightarrow> (\<exists>R. registry_ok R r)"
  shows "\<exists>cs. write_output env (ba_rows acc) s1 =
      (Inr (), s1\<lparr>rs_output := (rs_output s)\<lparr>ot_csv := ot_csv (rs_output s) @ cs,
          ot_rows_written := ot_rows_written (rs_output s) + length (ba_rows acc)\<rparr>,
        rs_trace := rs_trace s1 @ [EvWrite (ba_rows acc)]\<rparr>) \<and>
    length cs = length (ba_rows acc) \<and> list_all (\<lambda>c. length c = length (ot_columns (rs_output s))) cs"
proof -
  have "reading_fits env s empty_acc s" by (simp add: reading_fits_def empty_acc_def)
  from wp_normalD [OF read_messages_fits [OF this] assms(1)] have fits: "reading_fits env s acc s1" .
  have grows: "registry_grows (rs_registry s) (rs_registry s1)" and out: "rs_output s1 = rs_output s"
    using fits by (simp_all add: reading_fits_def)
  have "table_fits (rs_registry s1) (rs_output s)"
    by (rule table_fits_grows [OF assms(2) grows]) (use assms(4) in blast)
  moreover have "\<exists>R. registry_ok R r" if r: "rs_registry s1 = Some r" for r
  proof -
    obtain r0 where "rs_registry s = Some r0" "\<forall>R. registry_ok R r0 \<longrightarrow> registry_ok R r"
      using grows r by (cases "rs_registry s") (auto simp: registry_grows_def)
    then show ?thesis using assms(4) by blast
  qed
  moreover have "\<forall>row \<in> set (ba_rows acc). row_fits (env_lib env) (rs_registry s1) (ot_body_format (rs_output s)) row"
    using fits assms(3) by (simp add: reading_fits_def)
  ultimately obtain cs where "write_rows (env_lib env) (rs_registry s1) (ba_rows acc) (rs_output s) =
      (Inr (), (rs_output s)\<lparr>ot_csv := ot_csv (rs_output s) @ cs,
        ot_rows_written := ot_rows_written (rs_output s) + length (ba_rows acc)\<rparr>)"
    "length cs = length (ba_rows acc)" "list_all (\<lambda>c. length c = length (ot_columns (rs_output s))) cs"
    using write_rows_total by blast
  then show ?thesis
    by (intro exI [of _ cs]) (simp add: write_output_def bnd_def gets_def on_output_def trace_def modify_def out)
qed

text \<open>C10: Writing a batch cannot fail: when the messages of a batch have been read, the output table accepts all of
  their rows in one write, one full record per row, also after later messages of the batch registered new
  JSON paths. (The table is open with the columns of the registry at the start of the batch.)\<close>
theorem batch_write_succeeds:
  assumes "read_messages env h generation t ms empty_acc s = (Inr acc, s1)"
    and "table_fits (rs_registry s) (rs_output s)" and "ot_body_format (rs_output s) = body_format (body (env_config env))"
    and "\<forall>r. rs_registry s = Some r \<longrightarrow> (\<exists>R. registry_ok R r)"
  shows "\<exists>cs. write_output env (ba_rows acc) s1 =
      (Inr (), s1\<lparr>rs_output := (rs_output s)\<lparr>ot_csv := ot_csv (rs_output s) @ cs,
          ot_rows_written := ot_rows_written (rs_output s) + length (ba_rows acc)\<rparr>,
        rs_trace := rs_trace s1 @ [EvWrite (ba_rows acc)]\<rparr>) \<and>
    length cs = length (ba_rows acc) \<and> list_all (\<lambda>c. length c = length (ot_columns (rs_output s))) cs"
  by (rule batch_write [OF assms])

subsection \<open>A sample batch\<close>

lemmas run_prims = ret_def raise_def bnd_def gets_def modify_def try_py_def when_py_def catch_py_def on_world_def
  on_output_def on_stats_def trace_def clock_def

lemma sample_encoded:
  "encode_body sample_lib sample_message TEXT =
     Inr \<lparr>enc_body_type = ''DATA'', enc_size_bytes = 2, enc_cell = Some (u ''hi''), enc_fields = None\<rparr>"
  by (simp add: encode_body_defs sample_message_def sample_lib_def charset_of_def utf8_ascii CELL_LIMIT_BYTES_def u_def)

definition sample_acc :: batch_acc where
  "sample_acc = \<lparr>ba_rows = [sample_row], ba_readable = [(sample_message, 2)], ba_retried = [], ba_disposed = False\<rparr>"

lemma amqp_times: "(note_amqp_out_of_range ^^ n) st = st\<lparr>s_amqp_out_of_range := s_amqp_out_of_range st + n\<rparr>"
  by (induction n) (simp_all add: note_amqp_out_of_range_def)

lemma sample_read:
  "\<exists>st. read_messages sample_env h g 0 [sample_message] empty_acc s = (Inr sample_acc, s\<lparr>rs_stats := st\<rparr>) \<and>
     s_unreadable st = s_unreadable (rs_stats s)"
  by (intro exI [of _ "(note_amqp_out_of_range ^^ snd (message_metadata sample_lib sample_message sample_ref COMPLETE 0))
         (note_delivery_count (delivery_count sample_message) ((rs_stats s)\<lparr>s_received := Suc (s_received (rs_stats s))\<rparr>))"])
    (simp add: read_message_def run_prims to_row_def sample_encoded of_sum_def Let_def empty_acc_def sample_acc_def
      sample_row_def note_delivery_count_def amqp_times)

lemma sample_write:
  "\<exists>t. write_output sample_env [sample_row] ((sample_run bs)\<lparr>rs_stats := st\<rparr>) =
     (Inr (), (sample_run bs)\<lparr>rs_stats := st, rs_output := t, rs_trace := [EvWrite [sample_row]]\<rparr>) \<and>
     (\<exists>d. ot_definition t = Some d) \<and> ot_open t"
proof -
  have "\<exists>cs. write_rows sample_lib None [sample_row] sample_table = (Inr (), sample_table\<lparr>ot_csv := ot_csv sample_table @ cs,
      ot_rows_written := ot_rows_written sample_table + 1\<rparr>)"
    using write_rows_total [OF sample_table_fits, of "[sample_row]" sample_lib None] sample_row_fits sample_table_format by auto
  then show ?thesis
    by (auto simp: write_output_def run_prims sample_run_def) (auto simp: sample_table_eq Let_def)
qed

lemma arm_succeeds: "ot_definition t = Some d \<Longrightarrow> \<exists>t'. arm_write_always t = (Inr (), t')"
  by (simp add: arm_write_always_def write_manifest_def run_prims)

lemma sample_settles:
  assumes "ot_definition (rs_output s) = Some d"
  shows "\<exists>s'. settle_one sample_env (make_settler sample_env) h (sample_message, 2) s = (Inr (), s') \<and>
    rs_unreadable s' = rs_unreadable s \<and> rs_registry s' = rs_registry s \<and>
    s_unreadable (rs_stats s') = s_unreadable (rs_stats s)"
proof -
  obtain t where "arm_write_always (rs_output s) = (Inr (), t)" using arm_succeeds [OF assms] ..
  then show ?thesis
    by (cases "rs_settler_armed s")
    (simp_all add: settle_one_def safe_settle_def run_prims renew_if_needed_def make_settler_def complete_settle_def arm_output_def
      sample_message_def LOCK_RENEW_MARGIN_def lock_holding_def sample_sdk_def)
qed
lemma sample_process: "\<exists>r s'. process_batch sample_env h [sample_message] g (sample_run bs) = (Inr r, s')"
proof -
  obtain st where rd: "read_messages sample_env h g 0 [sample_message] empty_acc (sample_run bs) =
      (Inr sample_acc, (sample_run bs)\<lparr>rs_stats := st\<rparr>)" "s_unreadable st = []"
    using sample_read [of h g "sample_run bs"] by (auto simp: sample_run_def new_stats_def)
  obtain t d where wr: "write_output sample_env [sample_row] ((sample_run bs)\<lparr>rs_stats := st\<rparr>) =
     (Inr (), (sample_run bs)\<lparr>rs_stats := st, rs_output := t, rs_trace := [EvWrite [sample_row]]\<rparr>)"
    "ot_definition t = Some d"
    using sample_write by blast
  define s2 where "s2 = (sample_run bs)\<lparr>rs_stats := st\<lparr>s_written := Suc (s_written st)\<rparr>, rs_output := t,
    rs_trace := [EvWrite [sample_row]]\<rparr>"
  obtain s3 where st: "settle_one sample_env (make_settler sample_env) h (sample_message, 2) s2 = (Inr (), s3)"
    "rs_unreadable s3 = new_handler" "rs_registry s3 = None" "s_unreadable (rs_stats s3) = []"
    using sample_settles [of s2 d h] wr(2) rd(2) by (auto simp: s2_def sample_run_def)
  have wb: "write_batch (write_output sample_env) sample_acc ((sample_run bs)\<lparr>rs_stats := st\<rparr>) = (Inr (), s2)"
    by (simp add: write_batch_def sample_acc_def run_prims wr(1) s2_def)
  have "final_checks s3 = (Inr (), s3\<lparr>rs_unreadable := new_handler\<rparr>)"
    by (simp add: final_checks_def raise_pending_def check_overflow_def check_abort_share_def on_handler_def run_prims st(2-4)
        new_handler_def unreadable_total_def UNREADABLE_ABORT_MIN_def Let_def)
  moreover have "sdk_clock sample_sdk bs = (0, bs)" by (simp add: sample_sdk_def)
  ultimately show ?thesis
    using rd(1) wb st(1)
    by (simp add: process_batch_def process_def run_prims sample_run_def sample_acc_def)
qed


theorem batch_write_succeeds_witness:
  "\<exists>s1. read_messages sample_env 0 0 0 [sample_message] empty_acc (sample_run []) = (Inr sample_acc, s1) \<and>
     fst (write_output sample_env [sample_row] s1) = Inr ()"
proof -
  obtain st where rd: "read_messages sample_env 0 0 0 [sample_message] empty_acc (sample_run []) =
      (Inr sample_acc, (sample_run [])\<lparr>rs_stats := st\<rparr>)"
    using sample_read by blast
  from batch_write_succeeds [OF this] show ?thesis
    using rd by (fastforce simp: sample_run_def sample_table_fits sample_table_format sample_acc_def)
qed

subsection \<open>Retrying and lost locks\<close>

lemma handle_unreadable_retry:
  "wp (handle_unreadable env h m err g)
     (\<lambda>a s'. a = RETRY \<longrightarrow> is_decode_error err \<and> mode_of env \<noteq> RECEIVE_AND_DELETE \<and> uh_retries_enabled (rs_unreadable s) \<and>
        s_unreadable_recycles (rs_stats s) < MAX_UNREADABLE_RECYCLES \<and> m_seq m \<notin> set (uh_left (rs_unreadable s)) \<and>
        map_of (uh_first_failure (rs_unreadable s)) (m_seq m) \<in> {None, Some g} \<and>
        map_of (uh_first_failure (rs_unreadable s')) (m_seq m) = Some g)
     (\<lambda>_ _. True) s"
  by (auto simp: unreadable_defs wp_simps Let_def intro!: wp_anything)



definition keeps_locks :: "('w, 'a) run \<Rightarrow> bool" where
  "keeps_locks m \<longleftrightarrow> (\<forall>s. wp m (\<lambda>_ _. True) (\<lambda>e _. \<not> lock_lost e) s)"

lemma keeps_locksD: "keeps_locks m \<Longrightarrow> wp m (\<lambda>_ _. True) (\<lambda>e _. \<not> lock_lost e) s"
  by (simp add: keeps_locks_def)

lemma lock_lost_simps [simp]: "\<not> lock_lost (builtin c)" "\<not> lock_lost (user_exception ue k)"
  by (simp_all add: lock_lost_def builtin_def user_exception_def)

lemma keeps_locks_bnd: "keeps_locks m \<Longrightarrow> (\<And>x. keeps_locks (f x)) \<Longrightarrow> keeps_locks (bnd m f)"
  by (auto simp: keeps_locks_def wp_bnd intro: wp_imp)

lemma keeps_locks_raise: "\<not> lock_lost e \<Longrightarrow> keeps_locks (raise e)"
  by (simp add: keeps_locks_def wp_simps)

lemma wp_anything_else: "wp m (\<lambda>_ _. True) (\<lambda>e _. \<not> lock_lost e \<or> lock_lost e) s"
  by (rule wp_anything) auto

lemma keeps_locks_safe: "keeps_locks (safe_settle action)"
  by (auto simp: keeps_locks_def wp_safe_settle intro: wp_anything)

lemma keeps_locks_simple [simp]:
  "keeps_locks (ret x)" "keeps_locks (gets f)" "keeps_locks (on_stats f')" "keeps_locks (modify g)" "keeps_locks (clock env)"
  by (auto simp: keeps_locks_def wp_simps on_handler_def split: prod.split)

lemma keeps_locks_each: "(\<And>x. keeps_locks (f x)) \<Longrightarrow> keeps_locks (for_each f xs)"
  by (induction xs) (auto intro: keeps_locks_bnd)

lemma keeps_locks_handle: "keeps_locks (handle_unreadable env h m err g)"
  unfolding unreadable_defs when_py_def
  by (intro keeps_locks_bnd keeps_locks_safe) (auto simp: Let_def intro!: keeps_locks_bnd keeps_locks_safe)
 
lemma keeps_locks_checks: "keeps_locks final_checks"
  unfolding keeps_locks_def
proof
  fix s :: "'w run_state"
  show "wp final_checks (\<lambda>_ _. True) (\<lambda>e _. \<not> lock_lost e) s"
    by (rule wp_imp [OF final_checks_frame]) (auto simp: is_user_exception_iff lock_lost_def)
qed

lemma encode_row_error: "encode_row lib reg t row = Inl e \<Longrightarrow> \<exists>c. e = builtin c"
proof -
  have "\<exists>c. body_failure_exn f = builtin c" for f by (cases f rule: body_failure_exn.cases) auto
  then show "encode_row lib reg t row = Inl e \<Longrightarrow> \<exists>c. e = builtin c"
    by (auto simp: encode_row_def row_record_def csv_record_def sbind_def split: if_splits option.splits sum.splits)
qed

lemma keeps_locks_write: "keeps_locks (write_output env rows)"
proof -
  have rows: "wp (write_rows lib reg rows) (\<lambda>_ _. True) (\<lambda>e _. \<not> lock_lost e) t" for lib reg and t :: output_table
  proof -
    have each: "wp (for_each (write_row lib reg) rows) (\<lambda>_ _. True) (\<lambda>e _. \<not> lock_lost e) t" for t
      by (rule wp_for_each_inv [where I = "\<lambda>_. True"])
        (auto simp: wp_def write_row_eq split: sum.split dest!: encode_row_error)
    show ?thesis
      by (auto simp: write_rows_def wp_simps intro!: wp_imp [OF each])
  qed
  show ?thesis
    by (auto simp: keeps_locks_def write_output_def wp_simps intro!: wp_imp [OF rows])
qed

lemma keeps_locks_read: "keeps_locks (read_message env h g t m acc)"
  unfolding keeps_locks_def read_message_def wp_bnd wp_on_stats wp_catch
  by (intro allI, rule wp_anything)
    (auto simp: wp_ret wp_bnd wp_raise split: body_failure.split intro: wp_imp [OF keeps_locksD [OF keeps_locks_handle]])

lemma keeps_locks_reads: "keeps_locks (read_messages env h g t ms acc)"
  by (induction ms arbitrary: acc) (auto intro: keeps_locks_bnd keeps_locks_read)

lemma keeps_locks_process: "keeps_locks (process_batch env h ms g)"
  unfolding process_batch_def process_def settle_one_def write_batch_def when_py_def
  by (intro keeps_locks_bnd keeps_locks_each keeps_locks_safe keeps_locks_reads keeps_locks_checks)
    (auto intro!: keeps_locks_bnd keeps_locks_write)

text \<open>C13: A lost lock never fails a batch: whatever the SDK raises while the batch settles, abandons or dead-letters
  messages, no \<^verbatim>\<open>MessageLockLostError\<close> or \<^verbatim>\<open>MessageAlreadySettled\<close> leaves the batch.\<close>
theorem lock_loss_never_fatal:
  "case fst (process_batch env h ms g s) of Inl e \<Rightarrow> \<not> lock_lost e | Inr _ \<Rightarrow> True"
  using keeps_locksD [OF keeps_locks_process [of env h ms g], of s]
  by (auto simp: wp_def split: prod.splits sum.splits)

end
