(* ===== verification/Links.thy ===== *)
theory Links
  imports Settlement
begin

text \<open>
  What every part that talks to the broker shares: opening and closing receivers
  (\<^verbatim>\<open>EntityRef.open_receiver\<close> of \<^verbatim>\<open>src/entity.py\<close>, the helpers at the top of
  \<^verbatim>\<open>src/receiver.py\<close>), the predicates on messages, and the connection-recovery budget
  \<^verbatim>\<open>RecoveryTracker\<close>. Times are microseconds.
\<close>

definition seconds :: "int \<Rightarrow> int" where
  "seconds n = n * 1000000"

subsection \<open>Clients\<close>

text \<open>\<^verbatim>\<open>ServiceBusConnector\<close>: the credential and the client are built by the SDK; a \<^verbatim>\<open>ValueError\<close> of either
  is a user error.\<close>

definition is_value_error :: "exn \<Rightarrow> bool" where
  "is_value_error e \<longleftrightarrow> exn_class e = Builtin ''ValueError''"

definition invalid_connection_string :: "'w env \<Rightarrow> exn \<Rightarrow> exn" where
  "invalid_connection_string env e =
     user_exception (InvalidConnectionString
       (redact_secrets [u (effective_connection_string (env_config env))] (exn_text e))) (Some e)"

definition client_secret_credential :: "'w env \<Rightarrow> ('w, unit) run" where
  "client_secret_credential env =
     try_py (on_world (sdk_credential (env_sdk env)))
       (\<lambda>e. if is_value_error e
            then raise (user_exception (InvalidServicePrincipal
                   (redact_secrets [u (client_secret (env_config env))] (exn_text e))) (Some e))
            else raise e)"

definition build_client :: "'w env \<Rightarrow> (exn, 'w, handle) py \<Rightarrow> ('w, handle) run" where
  "build_client env constructor =
     (case effective_auth_type (env_config env) of
        CONNECTION_STRING \<Rightarrow>
          try_py (on_world constructor)
            (\<lambda>e. if is_value_error e then raise (invalid_connection_string env e) else raise e)
      | SERVICE_PRINCIPAL \<Rightarrow> bnd (client_secret_credential env) (\<lambda>_. on_world constructor))"

definition data_client :: "'w env \<Rightarrow> client_kind \<Rightarrow> ('w, handle) run" where
  "data_client env k = build_client env (sdk_client (env_sdk env) k)"

definition connector_secrets :: "configuration \<Rightarrow> pystr list" where
  "connector_secrets c = map u (filter (\<lambda>s. s \<noteq> []) [connection_string c, row_connection_string c, client_secret c])"

subsection \<open>Receivers\<close>

text \<open>The keep-alive setting and the client identifier are the same for every receiver and left out.\<close>

definition receiver_profile :: "'w env \<Rightarrow> handle \<Rightarrow> receive_mode \<Rightarrow> int \<Rightarrow> int option \<Rightarrow> receiver_request" where
  "receiver_profile env client mode prefetch session_wait =
     \<lparr>rq_client = client, rq_entity = env_entity env, rq_mode = mode, rq_prefetch = prefetch,
      rq_session = (case session_wait of None \<Rightarrow> NoSession | Some w \<Rightarrow> NextAvailable w)\<rparr>"

definition open_receiver :: "'w env \<Rightarrow> receiver_request \<Rightarrow> ('w, handle) run" where
  "open_receiver env rq =
     try_py (on_world (sdk_receiver (env_sdk env) rq))
       (\<lambda>e. if is_value_error e
            then raise (user_exception (EntityPathMismatch (entity_path (rq_entity rq)) (redact_secrets [] (exn_text e))) (Some e))
            else raise e)"

definition close_handle :: "'w env \<Rightarrow> handle \<Rightarrow> ('w, unit) run" where
  "close_handle env h = on_world (sdk_close (env_sdk env) h)"

definition close_quietly :: "'w env \<Rightarrow> handle \<Rightarrow> ('w, unit) run" where
  "close_quietly env h = try_py (close_handle env h) (\<lambda>e. ret ())"

definition enter_receiver :: "'w env \<Rightarrow> handle \<Rightarrow> ('w, handle) run" where
  "enter_receiver env h =
     try_py (bnd (on_world (sdk_enter (env_sdk env) h)) (\<lambda>_. ret h))
       (\<lambda>e. bnd (close_quietly env h) (\<lambda>_. raise e))"

definition renew_session_if_needed :: "'w env \<Rightarrow> handle \<Rightarrow> datetime \<Rightarrow> ('w, unit) run" where
  "renew_session_if_needed env h now =
     bnd (gets (\<lambda>s. sdk_session_locked_until (env_sdk env) h (rs_world s))) (\<lambda>lu.
       case lu of None \<Rightarrow> ret ()
       | Some locked_until \<Rightarrow>
           when_py (locked_until - now < LOCK_RENEW_MARGIN) (on_world (sdk_renew_session (env_sdk env) h)))"

text \<open>\<^verbatim>\<open>with handle:\<close> around a body; the handle is closed on every path.\<close>

definition with_handle :: "'w env \<Rightarrow> handle \<Rightarrow> ('w, 'x, 'a) run_with \<Rightarrow> ('w, 'x, 'a) run_with" where
  "with_handle env h m = finally_py m (in_run (close_handle env h))"

subsection \<open>Messages\<close>

definition after_watermark :: "datetime \<Rightarrow> message \<Rightarrow> bool" where
  "after_watermark t0 m \<longleftrightarrow>
     m_state m \<noteq> ST_SCHEDULED \<and> (case m_enqueued_time m of None \<Rightarrow> False | Some t \<Rightarrow> t0 \<le> t)"

definition is_pending_activation :: "message \<Rightarrow> bool" where
  "is_pending_activation m \<longleftrightarrow>
     m_state m = ST_SCHEDULED \<and>
     (case (m_scheduled_time m, m_enqueued_time m) of
        (Some scheduled, Some enqueued) \<Rightarrow> enqueued < scheduled | _ \<Rightarrow> True)"

subsection \<open>\<open>RecoveryTracker\<close>\<close>

definition fatal_errors :: "sb_class list" where
  "fatal_errors = [ServiceBusAuthenticationError, ServiceBusAuthorizationError, MessagingEntityNotFoundError,
     MessagingEntityDisabledError]"

definition is_fatal :: "exn \<Rightarrow> bool" where
  "is_fatal e \<longleftrightarrow> has_sb_class fatal_errors e \<or> is_session_mismatch e \<or> is_credential_failure e"

definition MAX_RECOVERIES :: nat where "MAX_RECOVERIES = 5"

record recovery_tracker =
  rt_max :: nat
  rt_generation :: nat
  rt_count :: nat
  rt_progressed :: bool

definition new_tracker :: recovery_tracker where
  "new_tracker = \<lparr>rt_max = MAX_RECOVERIES, rt_generation = 0, rt_count = 0, rt_progressed = True\<rparr>"

definition note_progress :: "recovery_tracker \<Rightarrow> recovery_tracker" where
  "note_progress t = t\<lparr>rt_progressed := True\<rparr>"

definition note_retry :: "recovery_tracker \<Rightarrow> recovery_tracker" where
  "note_retry t = t\<lparr>rt_generation := rt_generation t + 1\<rparr>"

definition note_failure :: "'w env \<Rightarrow> exn \<Rightarrow> recovery_tracker \<Rightarrow> exn + recovery_tracker" where
  "note_failure env e t =
     (if is_user_exception e then Inl e
      else if is_servicebus_error e \<and> is_fatal e
        then Inl (mapped_from (env_text env) e (entity_path (env_entity env)) (env_secrets env))
      else if rt_max t \<le> rt_count t \<or> \<not> rt_progressed t then
        (if is_servicebus_error e
         then Inl (user_exception (ConnectionLost (rt_count t + 1) (redact_secrets (env_secrets env) (exn_text e))) (Some e))
         else Inl e)
      else Inr (t\<lparr>rt_count := rt_count t + 1, rt_generation := rt_generation t + 1, rt_progressed := False\<rparr>))"

subsection \<open>The recovery budget\<close>

text \<open>What happens to a tracker in the course of a run, as a list of events, and the tracker afterwards. The
  run goes on exactly while \<open>tracker_after\<close> is an \<open>Inr\<close>.\<close>

datatype tracker_event = Progressed | Retried | Failed exn

fun tracker_step :: "'w env \<Rightarrow> tracker_event \<Rightarrow> recovery_tracker \<Rightarrow> exn + recovery_tracker" where
  "tracker_step env Progressed t = Inr (note_progress t)"
| "tracker_step env Retried t = Inr (note_retry t)"
| "tracker_step env (Failed e) t = note_failure env e t"

fun tracker_after :: "'w env \<Rightarrow> tracker_event list \<Rightarrow> recovery_tracker \<Rightarrow> exn + recovery_tracker" where
  "tracker_after env [] t = Inr t"
| "tracker_after env (ev # evs) t = sbind (tracker_step env ev t) (tracker_after env evs)"

fun is_failed :: "tracker_event \<Rightarrow> bool" where
  "is_failed (Failed e) = True" | "is_failed ev = False"

text \<open>Between two failures there is progress; \<open>ok\<close>: a failure may come now.\<close>

fun failures_apart :: "bool \<Rightarrow> tracker_event list \<Rightarrow> bool" where
  "failures_apart ok [] = True"
| "failures_apart ok (Progressed # evs) = failures_apart True evs"
| "failures_apart ok (Retried # evs) = failures_apart ok evs"
| "failures_apart ok (Failed e # evs) = (ok \<and> failures_apart False evs)"

lemma note_failure_Inr:
  "note_failure env e t = Inr t' \<longleftrightarrow>
     \<not> is_user_exception e \<and> \<not> (is_servicebus_error e \<and> is_fatal e) \<and> rt_count t < rt_max t \<and> rt_progressed t \<and>
     t' = t\<lparr>rt_count := rt_count t + 1, rt_generation := rt_generation t + 1, rt_progressed := False\<rparr>"
  by (auto simp: note_failure_def)

lemma tracker_after_Inr:
  "tracker_after env evs t = Inr t' \<Longrightarrow> rt_count t \<le> rt_max t \<Longrightarrow>
     rt_max t' = rt_max t \<and> rt_count t' \<le> rt_max t \<and> rt_count t' = rt_count t + length (filter is_failed evs) \<and>
     rt_generation t' = rt_generation t + length (filter (\<lambda>ev. ev \<noteq> Progressed) evs) \<and>
     failures_apart (rt_progressed t) evs \<and>
     (\<forall>e. Failed e \<in> set evs \<longrightarrow> \<not> is_user_exception e \<and> \<not> (is_servicebus_error e \<and> is_fatal e))"
proof (induction evs arbitrary: t)
  case (Cons ev evs)
  then obtain t1 where "tracker_step env ev t = Inr t1" "tracker_after env evs t1 = Inr t'"
    by (auto simp: sbind_Inr_iff)
  then show ?case
    using Cons.IH [of t1] Cons.prems(2)
    by (cases ev) (auto simp: note_progress_def note_retry_def note_failure_Inr)
qed simp

text \<open>C21: The recovery budget: as long as a run survives it has recovered from at most five connection failures, none
  of them a user error or a fatal error, with progress (a row written or an unreadable body disposed of) between any
  two of them; the generation grows with every fresh connection, so it tells connections apart.\<close>
theorem recovery_budget:
  assumes "tracker_after env evs new_tracker = Inr t"
  shows "rt_count t = length (filter is_failed evs) \<and> rt_count t \<le> 5 \<and> failures_apart True evs \<and>
    rt_generation t = length (filter (\<lambda>ev. ev \<noteq> Progressed) evs) \<and>
    (\<forall>e. Failed e \<in> set evs \<longrightarrow> \<not> is_user_exception e \<and> \<not> (is_servicebus_error e \<and> is_fatal e))"
  using tracker_after_Inr [OF assms] by (simp add: new_tracker_def MAX_RECOVERIES_def)

theorem recovery_budget_witness:
  "\<exists>t. tracker_after sample_env [Failed (builtin ''OSError''), Retried, Progressed, Failed (builtin ''OSError'')] new_tracker = Inr t \<and>
     rt_count t = 2 \<and> rt_generation t = 3"
proof -
  obtain t where run: "tracker_after sample_env [Failed (builtin ''OSError''), Retried, Progressed, Failed (builtin ''OSError'')] new_tracker = Inr t"
    by (simp add: note_failure_def note_progress_def note_retry_def new_tracker_def MAX_RECOVERIES_def builtin_def)
  from recovery_budget [OF run] run show ?thesis by simp
qed

end
