(* ===== verification/Commit.thy ===== *)
theory Commit
  imports Links
begin

text \<open>
  The first half of \<^verbatim>\<open>src/commit.py\<close>: deleting the pending set of the previous defer-commit run
  (\<open>PendingCommitter\<close>) with its chunked, retried and bisected deferred receives.

  \<open>deferred_store\<close> states the broker's documented behaviour on a deferred receive over an abstract set of
  deferred messages; the theorems that need it, or its weaker part \<open>returns_requested\<close>, name it as a
  hypothesis.
\<close>

subsection \<open>Deferred receives\<close>

definition COMMIT_MAX_COUNT :: int where "COMMIT_MAX_COUNT = 250"
definition COMMIT_MAX_BYTES :: int where "COMMIT_MAX_BYTES = 16 * 1024 * 1024"
definition TRANSIENT_BACKOFF_SECONDS :: "int list" where "TRANSIENT_BACKOFF_SECONDS = [2, 4, 8]"

definition transient_errors :: "sb_class list" where
  "transient_errors = [ServiceBusServerBusyError, ServiceBusConnectionError, ServiceBusCommunicationError, OperationTimeoutError]"

definition stale_errors :: "sb_class list" where
  "stale_errors = [MessagingEntityNotFoundError, ServiceBusAuthenticationError, ServiceBusAuthorizationError]"

definition commit_chunk_size :: "int \<Rightarrow> int" where
  "commit_chunk_size largest = max 1 (min COMMIT_MAX_COUNT (COMMIT_MAX_BYTES div max 1 largest))"

fun retry_delays :: "'w env \<Rightarrow> sb_class list \<Rightarrow> ('w, 'a) run \<Rightarrow> int list \<Rightarrow> ('w, 'a) run" where
  "retry_delays env retryable fn [] = fn"
| "retry_delays env retryable fn (delay # delays) =
     try_py fn (\<lambda>e. if has_sb_class retryable e
                    then bnd (sleep env (seconds delay)) (\<lambda>_. retry_delays env retryable fn delays)
                    else raise e)"

definition with_transient_retry :: "'w env \<Rightarrow> sb_class list \<Rightarrow> ('w, 'a) run \<Rightarrow> ('w, 'a) run" where
  "with_transient_retry env extra fn = retry_delays env (transient_errors @ extra) fn TRANSIENT_BACKOFF_SECONDS"

function receive_deferred_bisect ::
  "'w env \<Rightarrow> sb_class list \<Rightarrow> handle \<Rightarrow> int list \<Rightarrow> ('w, message list \<times> int list) run" where
  "receive_deferred_bisect env extra h qs =
     (if qs = [] then ret ([], [])
      else try_py
        (bnd (with_transient_retry env extra (on_world (sdk_receive_deferred (env_sdk env) h qs))) (\<lambda>ms. ret (ms, [])))
        (\<lambda>e. if \<not> has_sb_class [MessageNotFoundError] e then raise e
             else if length qs = 1 then ret ([], qs)
             else bnd (receive_deferred_bisect env extra h (take (length qs div 2) qs)) (\<lambda>left.
                  bnd (receive_deferred_bisect env extra h (drop (length qs div 2) qs)) (\<lambda>right.
                    ret (fst left @ fst right, snd left @ snd right)))))"
  by pat_completeness auto
termination
  by (relation "measure (\<lambda>(env, extra, h, qs). length qs)") (auto simp: neq_Nil_conv)

declare receive_deferred_bisect.simps [simp del]

subsection \<open>\<open>PendingCommitter\<close>\<close>

definition group_total :: "pending_group list \<Rightarrow> int" where
  "group_total groups = sum_list (map group_count groups)"

definition open_group_receiver :: "'w env \<Rightarrow> handle \<Rightarrow> entity_ref \<Rightarrow> string option \<Rightarrow> ('w, handle) run" where
  "open_group_receiver env client ref session_id =
     bnd (open_receiver env
            \<lparr>rq_client = client, rq_entity = ref, rq_mode = MODE_RECEIVE_AND_DELETE, rq_prefetch = 1,
             rq_session = (case session_id of
                Some sid \<Rightarrow> if is_sub_queue ref then NoSession else SessionId sid | None \<Rightarrow> NoSession)\<rparr>) (\<lambda>h.
       try_py (bnd (on_world (sdk_enter (env_sdk env) h)) (\<lambda>_. ret h))
         (\<lambda>e. bnd (close_handle env h) (\<lambda>_. raise e)))"

text \<open>The variable is \<^verbatim>\<open>progress.next_seq\<close>; \<open>extra\<close> holds the session-lock class for the first chunk only.\<close>

fun delete_chunks :: "'w env \<Rightarrow> handle \<Rightarrow> sb_class list \<Rightarrow> int list list \<Rightarrow> ('w, int, unit) run_with" where
  "delete_chunks env h extra [] = ret ()"
| "delete_chunks env h extra (chunk # cs) =
     bnd (in_run (receive_deferred_bisect env extra h chunk)) (\<lambda>r.
     bnd (in_run (trace (EvDeleted chunk))) (\<lambda>_.
     bnd (in_run (on_stats (\<lambda>st. st\<lparr>s_committed := s_committed st + length (fst r),
                                     s_already_gone := s_already_gone st + length (snd r)\<rparr>))) (\<lambda>_.
     bnd (set_var (\<lambda>_. last chunk + 1)) (\<lambda>_. delete_chunks env h [] cs))))"

definition delete_group :: "'w env \<Rightarrow> handle \<Rightarrow> entity_ref \<Rightarrow> pending_group \<Rightarrow> ('w, int, unit) run_with" where
  "delete_group env client ref g =
     bnd (in_run (with_transient_retry env [SessionCannotBeLockedError] (open_group_receiver env client ref (g_session_id g)))) (\<lambda>h.
       with_handle env h
         (delete_chunks env h [SessionCannotBeLockedError]
            (chunks (nat (commit_chunk_size (g_max_body_bytes g))) (iter_sequence_numbers g))))"

text \<open>The outcome of one group: no error or the error, and how far it got.\<close>

definition attempt_group :: "'w env \<Rightarrow> handle \<Rightarrow> entity_ref \<Rightarrow> pending_group \<Rightarrow> ('w, exn option \<times> int) run" where
  "attempt_group env client ref g s =
     (case delete_group env client ref g (s, 0) of
        (Inl e, (s', next_seq)) \<Rightarrow> (Inr (Some e, next_seq), s')
      | (Inr _, (s', next_seq)) \<Rightarrow> (Inr (None, next_seq), s'))"

definition drop_stale :: "int \<Rightarrow> ('w, unit) run" where
  "drop_stale n = on_stats (\<lambda>st. warn ''commit_stale_entity'' (st\<lparr>s_dropped_stale := s_dropped_stale st + nat n\<rparr>))"

text \<open>One entity's groups, \<open>acc\<close> being the groups carried so far.\<close>

fun commit_groups ::
  "'w env \<Rightarrow> handle \<Rightarrow> entity_ref \<Rightarrow> pending_group list \<Rightarrow> pending_group list \<Rightarrow> ('w, pending_group list) run" where
  "commit_groups env client ref acc [] = ret acc"
| "commit_groups env client ref acc (g # groups) =
     bnd (attempt_group env client ref g) (\<lambda>(outcome, next_seq).
       case outcome of
         None \<Rightarrow> commit_groups env client ref acc groups
       | Some e \<Rightarrow>
           (let left = group_tail next_seq g in
            if has_sb_class [SessionCannotBeLockedError] e then
              bnd (on_stats (\<lambda>st. st\<lparr>s_carried_forward := s_carried_forward st + nat (group_count left)\<rparr>)) (\<lambda>_.
                commit_groups env client ref (acc @ [left]) groups)
            else if has_sb_class stale_errors e \<or> is_user_exception e then
              (if ref = env_entity env
               then (if is_user_exception e then raise e
                     else raise (mapped_from (env_text env) e (entity_path ref) (env_secrets env)))
               else bnd (drop_stale (group_count left + group_total groups)) (\<lambda>_. ret acc))
            else if has_sb_class transient_errors e then
              raise (user_exception
                (CommitTransient (nat (group_total acc + group_count left + group_total groups)) (entity_path ref)
                   (redact_secrets (env_secrets env) (exn_text e))) (Some e))
            else if is_servicebus_error e
              then raise (mapped_from (env_text env) e (entity_path ref) (env_secrets env))
            else raise e))"

fun dict_error_name :: "dict_error \<Rightarrow> string" where
  "dict_error_name (KeyError k) = ''KeyError''"
| "dict_error_name (ValueError t) = ''ValueError''"

definition commit_entity :: "'w env \<Rightarrow> handle \<Rightarrow> pending_entity \<Rightarrow> ('w, pending_group list) run" where
  "commit_entity env client pe =
     (case pe_entity_ref pe of
        Inl err \<Rightarrow> raise (builtin (dict_error_name err))
      | Inr ref \<Rightarrow>
          bnd (commit_groups env client ref [] (filter (\<lambda>g. g_ranges g \<noteq> []) (pe_groups pe))) (\<lambda>groups.
          bnd (when_py (groups \<noteq> []) (on_stats (warn ''commit_session_locked''))) (\<lambda>_. ret groups)))"

fun commit_entities :: "'w env \<Rightarrow> handle \<Rightarrow> pending_entity list \<Rightarrow> ('w, pending_entity list) run" where
  "commit_entities env client [] = ret []"
| "commit_entities env client (pe # pes) =
     bnd (commit_entity env client pe) (\<lambda>groups.
     bnd (commit_entities env client pes) (\<lambda>rest.
       ret ((if groups \<noteq> [] then [pe\<lparr>pe_groups := groups\<rparr>] else []) @ rest)))"

definition has_work :: "pending_entity \<Rightarrow> bool" where
  "has_work pe \<longleftrightarrow> list_ex (\<lambda>g. g_ranges g \<noteq> []) (pe_groups pe)"

definition commit :: "'w env \<Rightarrow> pending_entity list \<Rightarrow> ('w, pending_entity list) run" where
  "commit env pending =
     (let work = filter has_work pending in
      if work = [] then ret []
      else bnd (data_client env CommitClient) (\<lambda>client.
             finally_py (commit_entities env client work) (close_handle env client)))"

subsection \<open>The broker\<close>

definition returns_requested :: "'w sdk \<Rightarrow> bool" where
  "returns_requested sdk \<longleftrightarrow>
     (\<forall>h qs w. wp (sdk_receive_deferred sdk h qs) (\<lambda>ms _. map m_seq ms = qs) (\<lambda>_ _. True) w)"

definition deferred_store :: "'w sdk \<Rightarrow> ('w \<Rightarrow> int set) \<Rightarrow> bool" where
  "deferred_store sdk B \<longleftrightarrow>
     (\<forall>h qs w. wp (sdk_receive_deferred sdk h qs)
        (\<lambda>ms w'. set qs \<subseteq> B w \<and> map m_seq ms = qs \<and> B w' = B w - set qs)
        (\<lambda>e w'. B w' = B w \<and> (has_sb_class [MessageNotFoundError] e \<longrightarrow> \<not> set qs \<subseteq> B w)) w) \<and>
     (\<forall>n w. B (sdk_sleep sdk n w) = B w)"

lemma deferred_store_returns: "deferred_store sdk B \<Longrightarrow> returns_requested sdk"
  unfolding deferred_store_def returns_requested_def by (blast intro: wp_mono)

subsection \<open>Retrying\<close>

text \<open>The rule of a retried call: the state in which it is called again satisfies its precondition.\<close>

lemma wp_retry_delays:
  assumes "\<And>t. I t \<Longrightarrow> wp fn Q (\<lambda>e t'. E e t' \<and> (has_sb_class retryable e \<longrightarrow>
      (\<forall>n. I (t'\<lparr>rs_world := sdk_sleep (env_sdk env) n (rs_world t')\<rparr>)))) t"
    and "I s"
  shows "wp (retry_delays env retryable fn delays) Q E s"
  using assms(2)
proof (induction delays arbitrary: s)
  case Nil
  then show ?case by (auto intro: wp_mono [OF assms(1)])
next
  case (Cons delay delays)
  show ?case
    unfolding retry_delays.simps wp_try
    by (rule wp_mono [OF assms(1) [OF Cons.prems]]) (use Cons.IH in \<open>auto simp: wp_simps\<close>)
qed

definition same_but_world :: "'w run_state \<Rightarrow> 'w run_state \<Rightarrow> bool" where
  "same_but_world s s' \<longleftrightarrow> (\<exists>w. s' = s\<lparr>rs_world := w\<rparr>)"

lemma same_but_world_simps [simp]:
  "same_but_world s s" "same_but_world s (s'\<lparr>rs_world := w\<rparr>) = same_but_world s s'"
  by (auto simp: same_but_world_def intro: exI [of _ "rs_world s"]) (metis run_state.update_convs(1) run_state.surjective)

lemma same_but_world_trans: "same_but_world s t \<Longrightarrow> same_but_world t v \<Longrightarrow> same_but_world s v"
  by (auto simp: same_but_world_def)

text \<open>A transient-retried call of the SDK changes the SDK's state only, and the last call decides.\<close>

lemma wp_transient_sdk:
  fixes env :: "'w env"
  assumes "\<And>w. wp m (\<lambda>x _. P x) (\<lambda>_ _. True) w"
  shows "wp (with_transient_retry env extra (on_world m)) (\<lambda>x s'. same_but_world s s' \<and> P x) (\<lambda>_. same_but_world s) s"
  unfolding with_transient_retry_def
proof (rule wp_retry_delays [where I = "same_but_world s"])
  fix t :: "'w run_state"
  assume "same_but_world s t"
  then show "wp (on_world m) (\<lambda>x s'. same_but_world s s' \<and> P x)
      (\<lambda>e t'. same_but_world s t' \<and> (has_sb_class (transient_errors @ extra) e \<longrightarrow>
         (\<forall>n. same_but_world s (t'\<lparr>rs_world := sdk_sleep (env_sdk env) n (rs_world t')\<rparr>)))) t"
    unfolding wp_on_world by (auto intro: wp_imp [OF assms])
qed simp

subsection \<open>Bisection\<close>

text \<open>The rule of a bisected receive: \<open>P\<close> relates what was asked for to the outcome, \<open>N\<close> describes a call that
  failed because a message is missing, \<open>E\<close> any other failure.\<close>

lemma wp_bisect:
  assumes empty: "\<And>s. P [] ([], []) s s"
    and call: "\<And>qs s. wp (with_transient_retry env extra (on_world (sdk_receive_deferred (env_sdk env) h qs)))
      (\<lambda>ms. P qs (ms, []) s) (\<lambda>e s'. if has_sb_class [MessageNotFoundError] e then N qs s s' else E s s') s"
    and single: "\<And>q s s'. N [q] s s' \<Longrightarrow> P [q] ([], [q]) s s'"
    and split: "\<And>xs ys l r s s1 s2 s3. N (xs @ ys) s s1 \<Longrightarrow> P xs l s1 s2 \<Longrightarrow> P ys r s2 s3 \<Longrightarrow>
      P (xs @ ys) (fst l @ fst r, snd l @ snd r) s s3"
    and raised: "\<And>qs xs l s s1 s2 s3. N qs s s1 \<Longrightarrow> E s1 s3 \<Longrightarrow> E s s3"
      "\<And>qs xs l s s1 s2 s3. N qs s s1 \<Longrightarrow> P xs l s1 s2 \<Longrightarrow> E s2 s3 \<Longrightarrow> E s s3"
  shows "wp (receive_deferred_bisect env extra h qs) (\<lambda>r. P qs r s) (\<lambda>_. E s) s"
proof (induction "length qs" arbitrary: qs s rule: less_induct)
  case less
  show ?case
  proof (cases "qs = []")
    case True
    then show ?thesis by (subst receive_deferred_bisect.simps) (simp add: wp_ret empty)
  next
    case False
    let ?xs = "take (length qs div 2) qs" and ?ys = "drop (length qs div 2) qs"
    have halves: "wp (bnd (receive_deferred_bisect env extra h ?xs) (\<lambda>left.
          bnd (receive_deferred_bisect env extra h ?ys) (\<lambda>right. ret (fst left @ fst right, snd left @ snd right))))
        (\<lambda>r. P qs r s) (\<lambda>_. E s) s1" if n: "N qs s s1" and len: "length qs \<noteq> 1" for s1
    proof -
      from len False have "1 < length qs" by (cases qs) auto
      then have shorter: "length ?xs < length qs" "length ?ys < length qs" by auto
      have right: "wp (receive_deferred_bisect env extra h ?ys)
          (\<lambda>r. P qs (fst l @ fst r, snd l @ snd r) s) (\<lambda>_. E s) s2" if "P ?xs l s1 s2" for l s2
        by (rule wp_mono [OF less [OF shorter(2)]])
          (use split [of ?xs ?ys s s1 l s2] raised(2) n that in auto)
      show ?thesis
        unfolding wp_bnd wp_ret
        by (rule wp_mono [OF less [OF shorter(1)]]) (use right raised(1) n in auto)
    qed
    have one: "P qs ([], qs) s s1" if "N qs s s1" "length qs = 1" for s1
      using single that by (cases qs) auto
    show ?thesis
      unfolding receive_deferred_bisect.simps [of _ _ _ qs] if_not_P [OF False] wp_try wp_bnd wp_ret
      by (rule wp_mono [OF call]) (use halves one in \<open>auto simp: wp_raise wp_ret\<close>)
  qed
qed

lemma bisect_counts:
  fixes env :: "'w env"
  assumes "returns_requested (env_sdk env)"
  shows "wp (receive_deferred_bisect env extra h qs)
    (\<lambda>r s'. same_but_world s s' \<and> length (fst r) + length (snd r) = length qs) (\<lambda>_. same_but_world s) s"
proof (rule wp_bisect [where P = "\<lambda>qs r s s'. same_but_world s s' \<and> length (fst r) + length (snd r) = length qs"
      and N = "\<lambda>_. same_but_world" and E = same_but_world])
  fix qs and s :: "'w run_state"
  have "wp (sdk_receive_deferred (env_sdk env) h qs) (\<lambda>ms _. length ms = length qs) (\<lambda>_ _. True) w" for w
    by (rule wp_imp [OF assms [unfolded returns_requested_def, rule_format]]) auto
  from wp_transient_sdk [OF this]
  show "wp (with_transient_retry env extra (on_world (sdk_receive_deferred (env_sdk env) h qs)))
      (\<lambda>ms s'. same_but_world s s' \<and> length (fst (ms, [] :: int list)) + length (snd (ms, [] :: int list)) = length qs)
      (\<lambda>e s'. if has_sb_class [MessageNotFoundError] e then same_but_world s s' else same_but_world s s') s"
    by (rule wp_imp) auto
qed (auto intro: same_but_world_trans)

lemma filter_present:
  "set qs \<subseteq> X \<Longrightarrow> filter (\<lambda>q. q \<in> X) qs = qs" "set qs \<subseteq> X \<Longrightarrow> filter (\<lambda>q. q \<notin> X) qs = []"
  by (auto simp: filter_id_conv filter_empty_conv)

text \<open>C17: Bisection is exact: on a broker that fails a deferred receive as a whole when a sequence number is missing, a
  bisected receive that returns has received exactly the requested messages the broker had, in the order asked for,
  has reported exactly the others as not found, and has removed what it received.\<close>
theorem bisect_exact:
  fixes env :: "'w env"
  assumes "deferred_store (env_sdk env) B" and "distinct qs"
    and "receive_deferred_bisect env extra h qs s = (Inr (ms, gone), s')"
  shows "map m_seq ms = filter (\<lambda>q. q \<in> B (rs_world s)) qs \<and> gone = filter (\<lambda>q. q \<notin> B (rs_world s)) qs \<and>
    B (rs_world s') = B (rs_world s) - set qs"
proof -
  let ?B = "\<lambda>s. B (rs_world s)"
  let ?P = "\<lambda>qs r s s'. distinct qs \<longrightarrow> map m_seq (fst r) = filter (\<lambda>q. q \<in> ?B s) qs \<and>
    snd r = filter (\<lambda>q. q \<notin> ?B s) qs \<and> ?B s' = ?B s - set qs"
  have "wp (receive_deferred_bisect env extra h qs) (\<lambda>r. ?P qs r s) (\<lambda>_ _. True) s"
  proof (rule wp_bisect [where P = ?P and N = "\<lambda>qs s s'. ?B s' = ?B s \<and> \<not> set qs \<subseteq> ?B s" and E = "\<lambda>_ _. True"])
    fix qs and s :: "'w run_state"
    have sdk: "wp (on_world (sdk_receive_deferred (env_sdk env) h qs))
        (\<lambda>ms t'. set qs \<subseteq> ?B t \<and> map m_seq ms = qs \<and> ?B t' = ?B t - set qs)
        (\<lambda>e t'. ?B t' = ?B t \<and> (has_sb_class [MessageNotFoundError] e \<longrightarrow> \<not> set qs \<subseteq> ?B t)) t" for t
      using assms(1) by (simp add: wp_on_world deferred_store_def)
    show "wp (with_transient_retry env extra (on_world (sdk_receive_deferred (env_sdk env) h qs)))
        (\<lambda>ms. ?P qs (ms, []) s)
        (\<lambda>e s'. if has_sb_class [MessageNotFoundError] e then ?B s' = ?B s \<and> \<not> set qs \<subseteq> ?B s else True) s"
      unfolding with_transient_retry_def
    proof (rule wp_retry_delays [where I = "\<lambda>t. ?B t = ?B s"])
      fix t :: "'w run_state"
      assume "?B t = ?B s"
      then show "wp (on_world (sdk_receive_deferred (env_sdk env) h qs)) (\<lambda>ms. ?P qs (ms, []) s)
         (\<lambda>e t'. (if has_sb_class [MessageNotFoundError] e then ?B t' = ?B s \<and> \<not> set qs \<subseteq> ?B s else True) \<and>
           (has_sb_class (transient_errors @ extra) e \<longrightarrow>
             (\<forall>n. ?B (t'\<lparr>rs_world := sdk_sleep (env_sdk env) n (rs_world t')\<rparr>) = ?B s))) t"
        by (intro wp_imp [OF sdk]) (use assms(1) in \<open>auto simp: deferred_store_def filter_present simp del: filter_map\<close>)
    qed simp
  next
    fix xs ys and l r :: "message list \<times> int list" and s s1 s2 s3 :: "'w run_state"
    assume "?B s1 = ?B s \<and> \<not> set (xs @ ys) \<subseteq> ?B s" and "?P xs l s1 s2" and "?P ys r s2 s3"
    then show "?P (xs @ ys) (fst l @ fst r, snd l @ snd r) s s3"
      by (auto intro!: filter_cong)
  qed auto
  from wp_normalD [OF this assms(3)] assms(2) show ?thesis by simp
qed

subsection \<open>What a commit changes, and what it accounts for\<close>

definition deletes_only :: "int set \<Rightarrow> event \<Rightarrow> bool" where
  "deletes_only N e \<longleftrightarrow> (\<exists>qs. e = EvDeleted qs \<and> set qs \<subseteq> N \<and> length qs \<le> 250)"

definition commit_frame :: "int set \<Rightarrow> 'w run_state \<Rightarrow> 'w run_state \<Rightarrow> bool" where
  "commit_frame N s s' \<longleftrightarrow>
     extends_trace (deletes_only N) s s' \<and> rs_registry s' = rs_registry s \<and> rs_pending s' = rs_pending s \<and>
     rs_output s' = rs_output s \<and> rs_unreadable s' = rs_unreadable s \<and> rs_settler_armed s' = rs_settler_armed s \<and>
     rs_info s' = rs_info s \<and> s_received (rs_stats s') = s_received (rs_stats s) \<and>
     s_written (rs_stats s') = s_written (rs_stats s)"

definition deleted_count :: "'w run_state \<Rightarrow> nat" where
  "deleted_count s = s_committed (rs_stats s) + s_already_gone (rs_stats s)"

definition carried_count :: "'w run_state \<Rightarrow> nat" where
  "carried_count s = s_carried_forward (rs_stats s)"

definition dropped_count :: "'w run_state \<Rightarrow> nat" where
  "dropped_count s = s_dropped_stale (rs_stats s)"

lemmas commit_counts = deleted_count_def carried_count_def dropped_count_def

lemma commit_frame_refl [simp]: "commit_frame N s s"
  by (simp add: commit_frame_def)

lemma commit_frame_trans: "commit_frame N s t \<Longrightarrow> commit_frame N t v \<Longrightarrow> commit_frame N s v"
  by (auto simp: commit_frame_def intro: extends_trace_trans)

lemma commit_frame_mono: "commit_frame N s t \<Longrightarrow> N \<subseteq> N' \<Longrightarrow> commit_frame N' s t"
  by (fastforce simp: commit_frame_def extends_trace_def deletes_only_def)

lemma commit_frame_simps [simp]:
  "commit_frame N s (s'\<lparr>rs_world := w\<rparr>) = commit_frame N s s'"
  "commit_frame N s (s'\<lparr>rs_stats := (rs_stats s')\<lparr>s_carried_forward := n\<rparr>\<rparr>) = commit_frame N s s'"
  "commit_frame N s (s'\<lparr>rs_stats := warn k (rs_stats s')\<rparr>) = commit_frame N s s'"
  "commit_frame N s (s'\<lparr>rs_stats := warn k ((rs_stats s')\<lparr>s_dropped_stale := n\<rparr>)\<rparr>) = commit_frame N s s'"
  by (simp_all add: commit_frame_def)

definition commit_same :: "int set \<Rightarrow> 'w run_state \<Rightarrow> 'w run_state \<Rightarrow> bool" where
  "commit_same N s s' \<longleftrightarrow> commit_frame N s s' \<and> carried_count s' = carried_count s \<and> dropped_count s' = dropped_count s"

lemma commit_same_refl [simp]: "commit_same N s s"
  by (simp add: commit_same_def)

lemma commit_same_world [simp]: "commit_same N s (s'\<lparr>rs_world := w\<rparr>) = commit_same N s s'"
  by (simp add: commit_same_def commit_counts)

lemma commit_same_trans: "commit_same N s t \<Longrightarrow> commit_same N t v \<Longrightarrow> commit_same N s v"
  by (auto simp: commit_same_def intro: commit_frame_trans)

lemma deleted_count_world [simp]: "deleted_count (s\<lparr>rs_world := w\<rparr>) = deleted_count s"
  by (simp add: deleted_count_def)

lemma commit_same_but_world: "same_but_world s t \<Longrightarrow> commit_same N s t \<and> deleted_count t = deleted_count s"
  by (auto simp: same_but_world_def)

text \<open>One chunk whose call returned: the counters move by its length, the progress past its end.\<close>

lemma delete_chunks_counts:
  fixes env :: "'w env"
  assumes "returns_requested (env_sdk env)" and "\<forall>c \<in> set cs. c \<noteq> [] \<and> set c \<subseteq> N \<and> length c \<le> 250"
  shows "wp (delete_chunks env h extra cs)
    (\<lambda>_ sx. commit_same N s (fst sx) \<and> deleted_count (fst sx) = deleted_count s + length (concat cs) \<and>
       (concat cs \<noteq> [] \<longrightarrow> snd sx = last (concat cs) + 1))
    (\<lambda>_ sx. commit_same N s (fst sx) \<and> (\<exists>xs ys. concat cs = xs @ ys \<and> deleted_count (fst sx) = deleted_count s + length xs \<and>
       snd sx = (if xs = [] then p else last xs + 1))) (s, p)"
  using assms(2)
proof (induction cs arbitrary: extra s p)
  case Nil
  then show ?case by (simp add: wp_simps)
next
  case (Cons c cs)
  let ?t = "\<lambda>r t. t\<lparr>rs_trace := rs_trace t @ [EvDeleted c], rs_stats := (rs_stats t)\<lparr>
     s_committed := s_committed (rs_stats t) + length (fst r), s_already_gone := s_already_gone (rs_stats t) + length (snd r)\<rparr>\<rparr>"
  have c: "c \<noteq> []" "set c \<subseteq> N" "length c \<le> 250" using Cons.prems by auto
  have step: "commit_same N s (?t r t) \<and> deleted_count (?t r t) = deleted_count s + length c"
    if "same_but_world s t" "length (fst r) + length (snd r) = length c" for t and r :: "message list \<times> int list"
    using that c by (auto simp: same_but_world_def commit_same_def commit_frame_def extends_trace_def deletes_only_def commit_counts)
  have rest: "wp (delete_chunks env h [] cs)
      (\<lambda>_ sx. commit_same N s (fst sx) \<and> deleted_count (fst sx) = deleted_count s + length (concat (c # cs)) \<and>
        (concat (c # cs) \<noteq> [] \<longrightarrow> snd sx = last (concat (c # cs)) + 1))
      (\<lambda>_ sx. commit_same N s (fst sx) \<and> (\<exists>xs ys. concat (c # cs) = xs @ ys \<and>
        deleted_count (fst sx) = deleted_count s + length xs \<and> snd sx = (if xs = [] then p else last xs + 1)))
      (v, last c + 1)" if v: "commit_same N s v \<and> deleted_count v = deleted_count s + length c" for v
  proof (cases "cs = []")
    case True
    then show ?thesis using v c by (simp add: wp_simps)
  next
    case False
    have ne: "concat cs \<noteq> []" using False Cons.prems by (cases cs) auto
    show ?thesis
    proof (rule wp_mono [OF Cons.IH])
      fix sx
      assume "commit_same N v (fst sx) \<and> (\<exists>xs ys. concat cs = xs @ ys \<and> deleted_count (fst sx) = deleted_count v + length xs \<and>
          snd sx = (if xs = [] then last c + 1 else last xs + 1))"
      then obtain xs ys where xs: "commit_same N v (fst sx)" "concat cs = xs @ ys"
        "deleted_count (fst sx) = deleted_count v + length xs" "snd sx = (if xs = [] then last c + 1 else last xs + 1)" by blast
      then show "commit_same N s (fst sx) \<and> (\<exists>xs ys. concat (c # cs) = xs @ ys \<and>
        deleted_count (fst sx) = deleted_count s + length xs \<and> snd sx = (if xs = [] then p else last xs + 1))"
        using v c by (intro conjI exI [of _ "c @ xs"] exI [of _ ys]) (auto intro: commit_same_trans)
    qed (use v ne Cons.prems in \<open>auto intro: commit_same_trans\<close>)
  qed
  show ?case
    unfolding delete_chunks.simps wp_bnd wp_in_run wp_trace wp_on_stats wp_set_var fst_conv snd_conv
  proof (rule wp_mono [OF bisect_counts [OF assms(1)]])
    fix t :: "'w run_state" assume "same_but_world s t"
    from commit_same_but_world [OF this]
    show "commit_same N s t \<and> (\<exists>xs ys. concat (c # cs) = xs @ ys \<and>
        deleted_count t = deleted_count s + length xs \<and> p = (if xs = [] then p else last xs + 1))"
      by (intro conjI exI [of _ "[]"] exI [of _ "concat (c # cs)"]) auto
  qed (use rest step in auto)
qed

text \<open>C34: The size of a commit chunk: at least one and at most 250 sequence numbers, and never more than 16 MiB of
  bodies when the largest body of the group is as recorded, unless that one body alone is larger.\<close>
theorem commit_chunk_bounds:
  "1 \<le> commit_chunk_size largest \<and> commit_chunk_size largest \<le> 250 \<and>
   (commit_chunk_size largest = 1 \<or> commit_chunk_size largest * largest \<le> 16 * 1024 * 1024)"
proof -
  have "n * largest \<le> COMMIT_MAX_BYTES" if "1 < n" and n: "n \<le> COMMIT_MAX_BYTES div max 1 largest" for n
  proof -
    have "n * largest \<le> n * max 1 largest" using that(1) by (simp add: mult_left_mono)
    also have "\<dots> \<le> (COMMIT_MAX_BYTES div max 1 largest) * max 1 largest" using n by (simp add: mult_right_mono)
    also have "\<dots> = COMMIT_MAX_BYTES - COMMIT_MAX_BYTES mod max 1 largest" by (simp only: minus_mod_eq_div_mult)
    also have "\<dots> \<le> COMMIT_MAX_BYTES" by simp
    finally show ?thesis .
  qed
  moreover have "commit_chunk_size largest = 1 \<or>
      (1 < commit_chunk_size largest \<and> commit_chunk_size largest \<le> COMMIT_MAX_BYTES div max 1 largest)"
    unfolding commit_chunk_size_def by linarith
  moreover have "1 \<le> commit_chunk_size largest \<and> commit_chunk_size largest \<le> 250"
    unfolding commit_chunk_size_def COMMIT_MAX_COUNT_def by linarith
  ultimately show ?thesis by (auto simp: COMMIT_MAX_BYTES_def)
qed

lemma chunk_size_range: "0 < nat (commit_chunk_size n)" "nat (commit_chunk_size n) \<le> 250"
  by (auto simp: commit_chunk_size_def COMMIT_MAX_COUNT_def max_def min_def)

lemma wp_transient_frame:
  assumes "\<And>t. wp fn (\<lambda>_. same_but_world t) (\<lambda>_. same_but_world t) t"
  shows "wp (with_transient_retry env extra fn) (\<lambda>_. same_but_world s) (\<lambda>_. same_but_world s) s"
  unfolding with_transient_retry_def
  by (rule wp_retry_delays [where I = "same_but_world s"])
    (auto intro!: wp_imp [OF assms] intro: same_but_world_trans)

lemma open_group_frame:
  "wp (open_group_receiver env client ref sid) (\<lambda>_. same_but_world t) (\<lambda>_. same_but_world t) t"
  by (auto simp: open_group_receiver_def open_receiver_def close_handle_def wp_simps wp_if intro!: wp_anything)

lemma data_client_frame: "wp (data_client env k) (\<lambda>_. same_but_world s) (\<lambda>_. same_but_world s) s"
  by (cases "effective_auth_type (env_config env)")
    (auto simp: data_client_def build_client_def client_secret_credential_def wp_simps wp_if intro!: wp_anything)

text \<open>What one attempt leaves is the tail of the group from the progress on.\<close>

lemma tail_of_split:
  assumes "iter_sequence_numbers g = xs @ ys" and "\<forall>n \<in> set (iter_sequence_numbers g). 0 \<le> n"
  shows "group_count (group_tail (if xs = [] then 0 else last xs + 1) g) = int (length ys)"
proof -
  have sorted: "sorted_wrt (<) (xs @ ys)"
    using iter_ranges_props(1) [of "g_ranges g"] assms(1) by (simp add: iter_sequence_numbers_def)
  have "filter (\<lambda>n. (if xs = [] then 0 else last xs + 1) \<le> n) (xs @ ys) = ys"
  proof (cases "xs = []")
    case True
    then show ?thesis using assms by (auto simp: filter_id_conv)
  next
    case False
    have below: "\<forall>x \<in> set xs. x \<le> last xs"
    proof
      fix x assume "x \<in> set xs"
      have "sorted_wrt (<) (butlast xs @ [last xs])" using sorted False by (simp add: sorted_wrt_append)
      moreover have "x \<in> set (butlast xs @ [last xs])" using \<open>x \<in> set xs\<close> False by simp
      ultimately show "x \<le> last xs" by (auto simp: sorted_wrt_append)
    qed
    have above: "\<forall>y \<in> set ys. last xs < y" using sorted False by (auto simp: sorted_wrt_append)
    have "filter (\<lambda>n. last xs + 1 \<le> n) xs = []" using below by (fastforce simp: filter_empty_conv)
    moreover have "filter (\<lambda>n. last xs + 1 \<le> n) ys = ys" using above by (auto simp: filter_id_conv)
    ultimately show ?thesis using False by simp
  qed
  then show ?thesis using assms(1) by (simp only: group_count_iter iter_group_tail)
qed

lemma group_chunks:
  "concat (chunks (nat (commit_chunk_size n)) xs) = xs"
  "\<forall>c \<in> set (chunks (nat (commit_chunk_size n)) xs). c \<noteq> [] \<and> set c \<subseteq> set xs \<and> length c \<le> 250"
proof -
  show cat: "concat (chunks (nat (commit_chunk_size n)) xs) = xs" by (rule concat_chunks) (rule chunk_size_range)
  show "\<forall>c \<in> set (chunks (nat (commit_chunk_size n)) xs). c \<noteq> [] \<and> set c \<subseteq> set xs \<and> length c \<le> 250"
  proof (intro ballI conjI)
    fix c assume c: "c \<in> set (chunks (nat (commit_chunk_size n)) xs)"
    show "c \<noteq> []" using c by (rule chunks_ne)
    have "set c \<subseteq> set (concat (chunks (nat (commit_chunk_size n)) xs))" using c by auto
    then show "set c \<subseteq> set xs" by (simp only: cat)
    show "length c \<le> 250" using chunks_length [OF c] chunk_size_range(2) by (rule order_trans)
  qed
qed

text \<open>Deleting the group got past \<open>xs\<close>: the next number of the group is after its last one.\<close>

definition deleted_up_to :: "int set \<Rightarrow> pending_group \<Rightarrow> 'w run_state \<Rightarrow> 'w run_state \<times> int \<Rightarrow> int list \<Rightarrow> bool" where
  "deleted_up_to N g s sx xs \<longleftrightarrow>
     commit_same N s (fst sx) \<and> (\<exists>ys. iter_sequence_numbers g = xs @ ys \<and> deleted_count (fst sx) = deleted_count s + length xs \<and>
       (iter_sequence_numbers g \<noteq> [] \<longrightarrow> snd sx = (if xs = [] then 0 else last xs + 1)))"

lemma deleted_up_to_world [simp]: "deleted_up_to N g s (t\<lparr>rs_world := w\<rparr>, n) xs = deleted_up_to N g s (t, n) xs"
  by (simp add: deleted_up_to_def)

lemma deleted_up_to_counts:
  assumes "deleted_up_to N g s sx xs" "\<forall>n \<in> set (iter_sequence_numbers g). 0 \<le> n"
  shows "int (deleted_count (fst sx)) + group_count (group_tail (snd sx) g) = int (deleted_count s) + group_count g"
proof -
  obtain ys where split: "iter_sequence_numbers g = xs @ ys" "deleted_count (fst sx) = deleted_count s + length xs"
    "xs \<noteq> [] \<or> ys \<noteq> [] \<Longrightarrow> snd sx = (if xs = [] then 0 else last xs + 1)"
    using assms(1) by (auto simp: deleted_up_to_def)
  show ?thesis
  proof (cases "xs = [] \<and> ys = []")
    case True
    then have "iter_sequence_numbers (group_tail (snd sx) g) = []" using split by (simp add: iter_group_tail)
    then show ?thesis using True split by (simp add: group_count_iter)
  next
    case False
    then show ?thesis using split tail_of_split [OF split(1) assms(2)] by (simp add: group_count_iter [of g])
  qed
qed

lemma wp_delete_group:
  fixes env :: "'w env"
  assumes "returns_requested (env_sdk env)" and "set (iter_sequence_numbers g) \<subseteq> N"
  shows "wp (delete_group env client ref g) (\<lambda>_ sx. deleted_up_to N g s sx (iter_sequence_numbers g))
    (\<lambda>_ sx. \<exists>xs. deleted_up_to N g s sx xs) (s, 0)"
proof -
  let ?cs = "chunks (nat (commit_chunk_size (g_max_body_bytes g))) (iter_sequence_numbers g)"
  have cs: "\<forall>c \<in> set ?cs. c \<noteq> [] \<and> set c \<subseteq> N \<and> length c \<le> 250"
    using group_chunks(2) [of "g_max_body_bytes g" "iter_sequence_numbers g"] assms(2) by blast
  have closing: "wp (with_handle env h (delete_chunks env h [SessionCannotBeLockedError] ?cs))
      (\<lambda>_ sx. deleted_up_to N g s sx (iter_sequence_numbers g)) (\<lambda>_ sx. \<exists>xs. deleted_up_to N g s sx xs) (t, 0)"
    if t: "same_but_world s t" for h and t :: "'w run_state"
  proof -
    have "wp (delete_chunks env h [SessionCannotBeLockedError] ?cs)
        (\<lambda>_ sx. deleted_up_to N g s sx (iter_sequence_numbers g)) (\<lambda>_ sx. \<exists>xs. deleted_up_to N g s sx xs) (t, 0)"
    proof (rule wp_imp [OF delete_chunks_counts [OF assms(1) cs, unfolded group_chunks(1)]]; intro allI impI; elim conjE exE)
      fix sx assume "commit_same N t (fst sx)"
        "deleted_count (fst sx) = deleted_count t + length (iter_sequence_numbers g)"
        "iter_sequence_numbers g \<noteq> [] \<longrightarrow> snd sx = last (iter_sequence_numbers g) + 1"
      then show "deleted_up_to N g s sx (iter_sequence_numbers g)"
        using commit_same_but_world [OF t] by (auto simp: deleted_up_to_def intro: commit_same_trans)
    next
      fix sx xs ys assume "commit_same N t (fst sx)" "iter_sequence_numbers g = xs @ ys"
        "deleted_count (fst sx) = deleted_count t + length xs" "snd sx = (if xs = [] then 0 else last xs + 1)"
      then have "deleted_up_to N g s sx xs"
        using commit_same_but_world [OF t] by (auto simp: deleted_up_to_def intro: commit_same_trans)
      then show "\<exists>xs. deleted_up_to N g s sx xs" by blast
    qed
    then show ?thesis
      unfolding with_handle_def wp_finally close_handle_def wp_in_run wp_on_world
      by (rule wp_imp) (auto intro!: wp_anything)
  qed
  have start: "deleted_up_to N g s (t, 0) []" if "same_but_world s t" for t :: "'w run_state"
    using commit_same_but_world [OF that] by (simp add: deleted_up_to_def)
  show ?thesis
    unfolding delete_group_def wp_bnd wp_in_run
    by (rule wp_imp [OF wp_transient_frame [OF open_group_frame]]) (use closing start in auto)
qed

lemma attempt_group_counts:
  fixes env :: "'w env"
  assumes "returns_requested (env_sdk env)" and "\<forall>n \<in> set (iter_sequence_numbers g). 0 \<le> n"
    and "set (iter_sequence_numbers g) \<subseteq> N"
  shows "wp (attempt_group env client ref g)
    (\<lambda>r s'. commit_same N s s' \<and>
       int (deleted_count s') + (case fst r of None \<Rightarrow> 0 | Some e \<Rightarrow> group_count (group_tail (snd r) g)) =
       int (deleted_count s) + group_count g) (\<lambda>_ _. False) s"
proof -
  have same: "commit_same N s (fst sx)" if "deleted_up_to N g s sx xs" for sx xs
    using that by (simp add: deleted_up_to_def)
  have whole: "deleted_count (fst sx) = deleted_count s + length (iter_sequence_numbers g)"
    if "deleted_up_to N g s sx (iter_sequence_numbers g)" for sx
    using that by (simp add: deleted_up_to_def)
  show ?thesis
    using wp_delete_group [OF assms(1,3), of client ref s] deleted_up_to_counts [OF _ assms(2), of N s] same whole
    by (fastforce simp: wp_def attempt_group_def group_count_iter [of g] split: prod.splits sum.splits)
qed

definition settled_count :: "'w run_state \<Rightarrow> int" where
  "settled_count s = int (deleted_count s) + int (carried_count s) + int (dropped_count s)"

lemma commit_counts_warn [simp]:
  "deleted_count (s\<lparr>rs_stats := warn k (rs_stats s)\<rparr>) = deleted_count s"
  "carried_count (s\<lparr>rs_stats := warn k (rs_stats s)\<rparr>) = carried_count s"
  "dropped_count (s\<lparr>rs_stats := warn k (rs_stats s)\<rparr>) = dropped_count s"
  "settled_count (s\<lparr>rs_stats := warn k (rs_stats s)\<rparr>) = settled_count s"
  by (simp_all add: commit_counts settled_count_def)

text \<open>The account of a part of a commit: \<open>tot\<close> numbers settled, \<open>kept\<close> of them carried.\<close>

definition commit_accounts :: "int set \<Rightarrow> bool \<Rightarrow> int \<Rightarrow> int \<Rightarrow> 'w run_state \<Rightarrow> 'w run_state \<Rightarrow> bool" where
  "commit_accounts N own tot kept s s' \<longleftrightarrow>
     commit_frame N s s' \<and> settled_count s' = settled_count s + tot \<and>
     int (carried_count s') = int (carried_count s) + kept \<and> (own \<longrightarrow> dropped_count s' = dropped_count s)"

lemma commit_accounts_refl [simp]: "commit_accounts N own 0 0 s s"
  by (simp add: commit_accounts_def)

lemma commit_accounts_trans:
  "commit_accounts N own tot kept s t \<Longrightarrow> commit_accounts N own tot' kept' t v \<Longrightarrow>
     commit_accounts N own (tot + tot') (kept + kept') s v"
  by (auto simp: commit_accounts_def intro: commit_frame_trans)

lemma commit_accounts_frame: "commit_accounts N own tot kept s s' \<Longrightarrow> commit_frame N s s'"
  by (simp add: commit_accounts_def)

lemma commit_accounts_simps [simp]:
  "commit_accounts N own tot kept s (s'\<lparr>rs_world := w\<rparr>) = commit_accounts N own tot kept s s'"
  "commit_accounts N own tot kept s (s'\<lparr>rs_stats := warn k (rs_stats s')\<rparr>) = commit_accounts N own tot kept s s'"
  by (auto simp: commit_accounts_def settled_count_def commit_counts)

lemma group_total_simps [simp]:
  "group_total [] = 0" "group_total (g # gs) = group_count g + group_total gs" "group_total (gs @ hs) = group_total gs + group_total hs"
  by (simp_all add: group_total_def)

lemma group_total_nonneg [simp]: "0 \<le> group_total gs"
  by (induction gs) auto

definition stored_numbers :: "pending_group list \<Rightarrow> int set" where
  "stored_numbers gs = (\<Union>g \<in> set gs. set (iter_sequence_numbers g))"

definition tails_of :: "pending_group list \<Rightarrow> pending_group list \<Rightarrow> bool" where
  "tails_of gs acc \<longleftrightarrow> (\<forall>g' \<in> set acc. \<exists>g \<in> set gs. \<exists>n. g' = group_tail n g)"

lemma commit_groups_accounts:
  fixes env :: "'w env"
  assumes "returns_requested (env_sdk env)"
  shows "stored_numbers groups \<subseteq> N \<Longrightarrow> \<forall>n \<in> stored_numbers groups. 0 \<le> n \<Longrightarrow> tails_of all acc \<Longrightarrow> set groups \<subseteq> set all \<Longrightarrow>
    wp (commit_groups env client ref acc groups)
      (\<lambda>acc' s'. commit_accounts N (ref = env_entity env) (group_total groups) (group_total acc' - group_total acc) s s' \<and>
         tails_of all acc')
      (\<lambda>_. commit_frame N s) s"
proof (induction groups arbitrary: acc s)
  case Nil
  then show ?case by (simp add: wp_simps)
next
  case (Cons g groups)
  let ?own = "ref = env_entity env"
  have rest: "wp (commit_groups env client ref acc1 groups)
      (\<lambda>acc' s'. commit_accounts N ?own (group_count g + group_total groups) (group_total acc' - group_total acc) s s' \<and>
         tails_of all acc') (\<lambda>_. commit_frame N s) t"
    if t: "commit_accounts N ?own (group_count g) (group_total acc1 - group_total acc) s t" and acc1: "tails_of all acc1"
    for acc1 t
  proof (rule wp_mono [OF Cons.IH [of acc1 t]])
    fix acc' s'
    assume "commit_accounts N ?own (group_total groups) (group_total acc' - group_total acc1) t s' \<and> tails_of all acc'"
    then show "commit_accounts N ?own (group_count g + group_total groups) (group_total acc' - group_total acc) s s' \<and>
         tails_of all acc'"
      using commit_accounts_trans [OF t, of "group_total groups" "group_total acc' - group_total acc1" s'] by simp
  next
    fix e s' assume "commit_frame N t s'"
    then show "commit_frame N s s'" using t by (auto simp: commit_accounts_def intro: commit_frame_trans)
  qed (use Cons.prems acc1 in \<open>auto simp: stored_numbers_def\<close>)
  have attempt: "wp (attempt_group env client ref g)
    (\<lambda>r s'. commit_same N s s' \<and>
       int (deleted_count s') + (case fst r of None \<Rightarrow> 0 | Some e \<Rightarrow> group_count (group_tail (snd r) g)) =
       int (deleted_count s) + group_count g) (\<lambda>_ _. False) s"
    by (rule attempt_group_counts [OF assms]) (use Cons.prems in \<open>auto simp: stored_numbers_def\<close>)
  show ?case
    unfolding commit_groups.simps wp_bnd
  proof (rule wp_mono [OF attempt], goal_cases)
    case (1 r t)
    note r = 1
    obtain oc n where rn: "r = (oc, n)" by fastforce
    have frame: "commit_frame N s t" using r by (simp add: commit_same_def)
    show ?case
    proof (cases oc)
      case None
      then have "commit_accounts N ?own (group_count g) (group_total acc - group_total acc) s t"
        using r rn by (auto simp: commit_accounts_def commit_same_def settled_count_def)
      with None rn show ?thesis using rest [OF _ Cons.prems(3)] by simp
    next
      case (Some e)
      let ?left = "group_tail n g"
      let ?carry = "t\<lparr>rs_stats := (rs_stats t)\<lparr>s_carried_forward := s_carried_forward (rs_stats t) + nat (group_count ?left)\<rparr>\<rparr>"
      let ?drop = "t\<lparr>rs_stats := warn ''commit_stale_entity''
        ((rs_stats t)\<lparr>s_dropped_stale := s_dropped_stale (rs_stats t) + nat (group_count ?left + group_total groups)\<rparr>)\<rparr>"
      have carry: "commit_accounts N ?own (group_count g) (group_total (acc @ [?left]) - group_total acc) s ?carry"
        using r rn Some by (auto simp: commit_accounts_def commit_same_def settled_count_def commit_counts)
      have drop: "commit_accounts N False (group_count g + group_total groups) 0 s ?drop"
        using r rn Some by (auto simp: commit_accounts_def commit_same_def settled_count_def commit_counts)
      have "tails_of all (acc @ [?left])" using Cons.prems(3,4) by (auto simp: tails_of_def)
      from rest [OF carry this] drop frame Cons.prems(3) Some rn show ?thesis
        by (auto simp: wp_simps Let_def drop_stale_def commit_accounts_def)
    qed
  qed auto
qed

definition commit_kept :: "pending_entity list \<Rightarrow> pending_entity list \<Rightarrow> bool" where
  "commit_kept pending kept \<longleftrightarrow>
     (\<forall>pe' \<in> set kept. \<exists>pe \<in> set pending. pe_entity pe' = pe_entity pe \<and> tails_of (pe_groups pe) (pe_groups pe'))"

definition own_entities :: "'w env \<Rightarrow> pending_entity list \<Rightarrow> bool" where
  "own_entities env pending \<longleftrightarrow> (\<forall>pe \<in> set pending. pe_entity_ref pe = Inr (env_entity env))"

definition pending_numbers :: "pending_entity list \<Rightarrow> int set" where
  "pending_numbers pending = (\<Union>pe \<in> set pending. stored_numbers (pe_groups pe))"

lemma stored_count_simps [simp]:
  "stored_count [] = 0" "stored_count (pe # pes) = group_total (pe_groups pe) + stored_count pes"
  "stored_count (pes @ pes') = stored_count pes + stored_count pes'"
  by (simp_all add: stored_count_def group_total_def)

lemma group_total_nonempty: "group_total (filter (\<lambda>g. g_ranges g \<noteq> []) gs) = group_total gs"
  by (induction gs) (auto simp: group_count_def count_ranges_card)

lemma commit_entity_accounts:
  fixes env :: "'w env"
  assumes "returns_requested (env_sdk env)" and "stored_numbers (pe_groups pe) \<subseteq> N" and "\<forall>n \<in> stored_numbers (pe_groups pe). 0 \<le> n"
    and "own \<longrightarrow> pe_entity_ref pe = Inr (env_entity env)"
  shows "wp (commit_entity env client pe)
    (\<lambda>groups s'. commit_accounts N own (group_total (pe_groups pe)) (group_total groups) s s' \<and> tails_of (pe_groups pe) groups)
    (\<lambda>_. commit_frame N s) s"
proof (cases "pe_entity_ref pe")
  case (Inl err)
  then show ?thesis by (simp add: commit_entity_def wp_simps)
next
  case (Inr ref)
  let ?gs = "filter (\<lambda>g. g_ranges g \<noteq> []) (pe_groups pe)"
  have "wp (commit_groups env client ref [] ?gs)
      (\<lambda>acc' s'. commit_accounts N (ref = env_entity env) (group_total ?gs) (group_total acc' - group_total []) s s' \<and>
         tails_of (pe_groups pe) acc') (\<lambda>_. commit_frame N s) s"
    by (rule commit_groups_accounts [OF assms(1)]) (use assms(2,3) in \<open>auto simp: stored_numbers_def tails_of_def\<close>)
  then show ?thesis
    unfolding commit_entity_def Inr sum.case wp_bnd
    by (rule wp_mono) (use assms(4) Inr in \<open>auto simp: wp_simps group_total_nonempty commit_accounts_def\<close>)
qed

lemma commit_entities_accounts:
  fixes env :: "'w env"
  assumes "returns_requested (env_sdk env)"
  shows "pending_numbers pes \<subseteq> N \<Longrightarrow> \<forall>n \<in> pending_numbers pes. 0 \<le> n \<Longrightarrow> own \<longrightarrow> own_entities env pes \<Longrightarrow>
    wp (commit_entities env client pes)
      (\<lambda>kept s'. commit_accounts N own (stored_count pes) (stored_count kept) s s' \<and> commit_kept pes kept)
      (\<lambda>_. commit_frame N s) s"
proof (induction pes arbitrary: s)
  case Nil
  then show ?case by (simp add: wp_simps commit_kept_def)
next
  case (Cons pe pes)
  have first: "wp (commit_entity env client pe)
    (\<lambda>groups s'. commit_accounts N own (group_total (pe_groups pe)) (group_total groups) s s' \<and> tails_of (pe_groups pe) groups)
    (\<lambda>_. commit_frame N s) s"
    by (rule commit_entity_accounts [OF assms]) (use Cons.prems in \<open>auto simp: pending_numbers_def own_entities_def\<close>)
  have rest: "wp (commit_entities env client pes)
      (\<lambda>kept s'. commit_accounts N own (stored_count pes) (stored_count kept) t s' \<and> commit_kept pes kept)
      (\<lambda>_. commit_frame N t) t" for t
    by (rule Cons.IH) (use Cons.prems in \<open>auto simp: pending_numbers_def own_entities_def\<close>)
  show ?case
    unfolding commit_entities.simps wp_bnd wp_ret
  proof (rule wp_mono [OF first], goal_cases)
    case (1 groups t)
    show ?case
    proof (rule wp_mono [OF rest [of t]], goal_cases)
      case (1 kept s')
      then show ?case
        using \<open>commit_accounts N own (group_total (pe_groups pe)) (group_total groups) s t \<and> tails_of (pe_groups pe) groups\<close>
          commit_accounts_trans [of N own "group_total (pe_groups pe)" "group_total groups" s t "stored_count pes" "stored_count kept" s']
        by (cases "groups = []") (auto simp: commit_kept_def)
    qed (use 1 in \<open>auto simp: commit_accounts_def intro: commit_frame_trans\<close>)
  qed
qed

lemma stored_count_has_work: "stored_count (filter has_work pending) = stored_count pending"
proof -
  have "group_total (pe_groups pe) = 0" if "\<not> has_work pe" for pe
  proof -
    from that have "filter (\<lambda>g. g_ranges g \<noteq> []) (pe_groups pe) = []"
      by (auto simp: has_work_def list_ex_iff filter_empty_conv)
    then show ?thesis using group_total_nonempty [of "pe_groups pe"] by simp
  qed
  then show ?thesis by (induction pending) auto
qed

lemma commit_kept_has_work: "commit_kept (filter has_work pending) kept \<Longrightarrow> commit_kept pending kept"
  by (auto simp: commit_kept_def)

lemma wp_closed_commit:
  fixes env :: "'w env"
  assumes "returns_requested (env_sdk env)" "\<forall>n \<in> pending_numbers pending. 0 \<le> n" "same_but_world s t"
  shows "wp (finally_py (commit_entities env client (filter has_work pending)) (close_handle env client))
    (\<lambda>kept s'. commit_accounts (pending_numbers pending) (own_entities env pending) (stored_count pending) (stored_count kept) s s' \<and>
       commit_kept pending kept)
    (\<lambda>_. commit_frame (pending_numbers pending) s) t"
proof -
  let ?N = "pending_numbers pending" and ?work = "filter has_work pending"
  have "pending_numbers ?work \<subseteq> ?N" by (auto simp: pending_numbers_def)
  moreover from this have "\<forall>n \<in> pending_numbers ?work. 0 \<le> n" using assms(2) by blast
  moreover have "own_entities env pending \<longrightarrow> own_entities env ?work" by (simp add: own_entities_def)
  ultimately have entities: "wp (commit_entities env client ?work)
      (\<lambda>kept s'. commit_accounts ?N (own_entities env pending) (stored_count ?work) (stored_count kept) t s' \<and> commit_kept ?work kept)
      (\<lambda>_. commit_frame ?N t) t"
    by (rule commit_entities_accounts [OF assms(1)])
  have world: "commit_accounts ?N own tot k t s2 = commit_accounts ?N own tot k s s2"
    "commit_frame ?N t s2 = commit_frame ?N s s2" for own tot k s2
    using assms(3) by (auto simp: same_but_world_def commit_accounts_def commit_frame_def settled_count_def commit_counts extends_trace_def)
  show ?thesis
    unfolding wp_finally close_handle_def
    by (rule wp_mono [OF entities])
      (auto simp: world stored_count_has_work dest: commit_accounts_frame commit_kept_has_work intro!: wp_on_world_any)
qed

lemma wp_commit_accounts:
  fixes env :: "'w env"
  assumes "returns_requested (env_sdk env)" "\<forall>n \<in> pending_numbers pending. 0 \<le> n"
  shows "wp (commit env pending)
    (\<lambda>kept s'. commit_accounts (pending_numbers pending) (own_entities env pending) (stored_count pending) (stored_count kept) s s' \<and>
       commit_kept pending kept)
    (\<lambda>_. commit_frame (pending_numbers pending) s) s"
proof (cases "filter has_work pending = []")
  case True
  then have "stored_count pending = 0" using stored_count_has_work [of pending] by simp
  with True show ?thesis by (simp add: commit_def wp_simps commit_kept_def)
next
  case False
  have lost: "commit_frame (pending_numbers pending) s t" if "same_but_world s t" for t
    using that by (auto simp: same_but_world_def)
  show ?thesis
    unfolding commit_def Let_def if_not_P [OF False] wp_bnd
    by (rule wp_imp [OF data_client_frame]) (use wp_closed_commit [OF assms] lost in simp_all)
qed

text \<open>C15: A commit accounts for every message of the stored pending set: when it returns, the messages deleted, found
  already gone, carried forward and dropped as stale add up to exactly the stored ones; the carried count is what
  the returned groups hold, and each of them is the tail of a stored group of the same entity; nothing is
  dropped unless another entity is stored. However it ends, it has asked the broker to delete only stored numbers,
  at most 250 in one call, and has changed nothing of the run but its counters.\<close>
theorem commit_conserves:
  fixes env :: "'w env"
  assumes "returns_requested (env_sdk env)" and "\<forall>n \<in> pending_numbers pending. 0 \<le> n"
    and "commit env pending s = (r, s')"
  shows "commit_frame (pending_numbers pending) s s' \<and>
    (\<forall>kept. r = Inr kept \<longrightarrow>
       settled_count s' = settled_count s + stored_count pending \<and>
       int (carried_count s') = int (carried_count s) + stored_count kept \<and>
       commit_kept pending kept \<and>
       (own_entities env pending \<longrightarrow> dropped_count s' = dropped_count s))"
proof (cases r)
  case (Inl e)
  then show ?thesis using wp_raiseD [OF wp_commit_accounts [OF assms(1,2)]] assms(3) by simp
next
  case (Inr kept)
  then show ?thesis using wp_normalD [OF wp_commit_accounts [OF assms(1,2)]] assms(3) by (auto simp: commit_accounts_def)
qed

subsection \<open>A broker with deferred messages\<close>

definition stored_seqs :: "message list list \<Rightarrow> int set" where
  "stored_seqs bs = m_seq ` set (concat bs)"

definition missing_error :: exn where
  "missing_error = Exn (SB MessageNotFoundError) [] None None False"

definition take_stored :: "int list \<Rightarrow> (exn, message list list, message list) py" where
  "take_stored qs bs =
     (if set qs \<subseteq> stored_seqs bs
      then (Inr (map (\<lambda>q. sample_message\<lparr>m_seq := q\<rparr>) qs), map (filter (\<lambda>m. m_seq m \<notin> set qs)) bs)
      else (Inl missing_error, bs))"

definition store_sdk :: "message list list sdk" where
  "store_sdk = sample_sdk\<lparr>sdk_receive_deferred := (\<lambda>h. take_stored)\<rparr>"

definition store_env :: "message list list env" where
  "store_env = sample_env\<lparr>env_sdk := store_sdk\<rparr>"

lemma store_sdk_store: "deferred_store store_sdk stored_seqs"
  by (auto simp: deferred_store_def store_sdk_def take_stored_def wp_def stored_seqs_def sample_sdk_def o_def)

definition stored_messages :: "message list list" where
  "stored_messages = [[sample_message, sample_message\<lparr>m_seq := 9\<rparr>]]"

lemma store_env_sdk [simp]: "env_sdk store_env = store_sdk" "env_entity store_env = sample_ref"
  "effective_auth_type (env_config store_env) = CONNECTION_STRING"
  by (simp_all add: store_env_def sample_configuration_def effective_auth_type_def uses_row_connection_string_def)

lemmas bisect_eval = receive_deferred_bisect.simps with_transient_retry_def TRANSIENT_BACKOFF_SECONDS_def run_prims
  store_sdk_def take_stored_def missing_error_def has_sb_class_def transient_errors_def stored_seqs_def stored_messages_def
  sample_message_def sample_run_def

theorem bisect_exact_witness:
  "\<exists>ms gone s'. receive_deferred_bisect store_env [] 0 [7, 8, 9] (sample_run stored_messages) = (Inr (ms, gone), s') \<and>
     map m_seq ms = [7, 9] \<and> gone = [8]"
proof -
  obtain ms gone s' where run: "receive_deferred_bisect store_env [] 0 [7, 8, 9] (sample_run stored_messages) = (Inr (ms, gone), s')"
    by (simp add: bisect_eval)
  have "rs_world (sample_run stored_messages) = stored_messages" by (simp add: sample_run_def)
  moreover have "stored_seqs stored_messages = {7, 9}"
    by (simp add: stored_seqs_def stored_messages_def sample_message_def)
  ultimately show ?thesis
    using bisect_exact [of store_env stored_seqs, simplified, OF store_sdk_store _ run] run by simp
qed

definition sample_pending :: "pending_entity list" where
  "sample_pending = [\<lparr>pe_entity = to_dict sample_ref,
     pe_groups = [\<lparr>g_session_id = None, g_partition = 0, g_max_body_bytes = 100, g_ranges = [(7, 9)]\<rparr>],
     pe_deferred_at_utc = []\<rparr>]"

lemma chunks_whole: "xs \<noteq> [] \<Longrightarrow> length xs \<le> n \<Longrightarrow> chunks n xs = [xs]"
  by (cases n; cases xs) auto

theorem commit_conserves_witness:
  "\<exists>s'. commit store_env sample_pending (sample_run stored_messages) = (Inr [], s') \<and> settled_count s' = 3"
proof -
  have iter: "iter_sequence_numbers \<lparr>g_session_id = None, g_partition = 0, g_max_body_bytes = 100, g_ranges = [(7, 9)]\<rparr> = [7, 8, 9]"
    by (simp add: iter_sequence_numbers_def iter_ranges_def merge_ranges_def upto.simps)
  have size: "chunks (nat (commit_chunk_size 100)) [7, 8, 9] = [[7, 8, 9 :: int]]"
    by (rule chunks_whole) (simp_all add: commit_chunk_size_def COMMIT_MAX_COUNT_def COMMIT_MAX_BYTES_def)
  obtain r s' where run: "commit store_env sample_pending (sample_run stored_messages) = (r, s')" by fastforce
  have kept: "r = Inr []"
    using run by (simp add: commit_def has_work_def sample_pending_def pe_entity_ref_def commit_entity_def attempt_group_def
        delete_group_def size iter open_group_receiver_def open_receiver_def with_handle_def finally_py_def close_handle_def
        in_run_def set_var_def data_client_def build_client_def sample_sdk_def bisect_eval)
  have nonneg: "\<forall>n \<in> pending_numbers sample_pending. 0 \<le> n" and count: "stored_count sample_pending = 3"
    by (simp_all add: pending_numbers_def stored_numbers_def sample_pending_def iter group_count_iter)
  from commit_conserves [OF _ nonneg run] show ?thesis
    using run kept count deferred_store_returns [OF store_sdk_store]
    by (auto simp: settled_count_def commit_counts sample_run_def new_stats_def)
qed

end
