(* ===== verification/Commit_Live.thy ===== *)
theory Commit_Live
  imports Commit
begin

text \<open>
  A deferred commit against a broker that answers: everything pending is gone from the broker afterwards and nothing is
  kept. The broker's contents are the abstract set \<open>B\<close> of \<open>deferred_store\<close>.
\<close>

definition untouched :: "('w \<Rightarrow> int set) \<Rightarrow> (exn, 'w, 'a) py \<Rightarrow> bool" where
  "untouched B m \<longleftrightarrow> (\<forall>w. wp m (\<lambda>_ w'. B w' = B w) (\<lambda>_ _. False) w)"

text \<open>Clients and receivers open and close, which leaves the messages alone; a deferred receive fails only because a message
  is missing.\<close>

definition answers :: "'w sdk \<Rightarrow> ('w \<Rightarrow> int set) \<Rightarrow> bool" where
  "answers sdk B \<longleftrightarrow> deferred_store sdk B \<and>
     untouched B (sdk_credential sdk) \<and> (\<forall>k. untouched B (sdk_client sdk k)) \<and> (\<forall>rq. untouched B (sdk_receiver sdk rq)) \<and>
     (\<forall>h. untouched B (sdk_enter sdk h) \<and> untouched B (sdk_close sdk h)) \<and>
     (\<forall>h qs w. wp (sdk_receive_deferred sdk h qs) (\<lambda>_ _. True) (\<lambda>e _. has_sb_class [MessageNotFoundError] e) w)"

text \<open>A computation that does not fail and takes the numbers \<open>N\<close> out of the view \<open>V\<close> of its state.\<close>

definition removes :: "('s \<Rightarrow> int set) \<Rightarrow> int set \<Rightarrow> ('e, 's, 'a) py \<Rightarrow> bool" where
  "removes V N m \<longleftrightarrow> (\<forall>s. wp m (\<lambda>_ s'. V s' = V s - N) (\<lambda>_ _. False) s)"

lemma removesD: "removes V N m \<Longrightarrow> wp m (\<lambda>_ s'. V s' = V s - N) (\<lambda>_ _. False) s"
  by (simp add: removes_def)

lemma removes_ret: "removes V {} (ret x)"
  by (simp add: removes_def wp_ret)

lemma removes_bnd:
  assumes "removes V M m" and "\<And>x. removes V N (f x)"
  shows "removes V (M \<union> N) (bnd m f)"
proof -
  have "wp (f x) (\<lambda>_ s'. V s' = V s - (M \<union> N)) (\<lambda>_ _. False) t" if "V t = V s - M" for x s t
    by (rule wp_imp [OF removesD [OF assms(2)]]) (use that in auto)
  then show ?thesis unfolding removes_def wp_bnd by (intro allI wp_imp [OF removesD [OF assms(1)]]) auto
qed

lemma removes_quiet: "removes V {} m \<Longrightarrow> (\<And>x. removes V N (f x)) \<Longrightarrow> removes V N (bnd m f)"
  using removes_bnd [of V "{}" m N f] by simp

lemma removes_try: "removes V N m \<Longrightarrow> removes V N (try_py m h)"
  unfolding removes_def wp_try by (intro allI wp_imp [OF removesD]) (auto simp: removes_def)

lemma removes_finally:
  assumes "removes V N m" and "removes V {} c"
  shows "removes V N (finally_py m c)"
proof -
  have "wp c (\<lambda>_ s'. V s' = V s - N) (\<lambda>_ _. False) t" if "V t = V s - N" for s t
    by (rule wp_imp [OF removesD [OF assms(2)]]) (use that in auto)
  then show ?thesis unfolding removes_def wp_finally by (intro allI wp_imp [OF removesD [OF assms(1)]]) auto
qed

lemma removes_world: "untouched B m \<Longrightarrow> removes (B \<circ> rs_world) {} (on_world m)"
  by (simp add: removes_def untouched_def wp_on_world)

lemma removes_in_run: "removes V N m \<Longrightarrow> removes (V \<circ> fst) N (in_run m)"
  by (simp add: removes_def wp_in_run)

lemma removes_steps:
  "(\<And>x. V (fst x, f (snd x)) = V x) \<Longrightarrow> removes V {} (set_var f)"
  "removes (B \<circ> rs_world) {} (on_stats g)" "removes (B \<circ> rs_world) {} (trace e)"
  by (simp_all add: removes_def wp_set_var wp_on_stats wp_trace)

lemma removes_retry: "removes V N m \<Longrightarrow> removes V N (with_transient_retry env extra m)" for V :: "'w run_state \<Rightarrow> int set"
  unfolding with_transient_retry_def TRANSIENT_BACKOFF_SECONDS_def by (simp add: removes_try)

subsection \<open>The steps of a commit\<close>

abbreviation (input) contents :: "('w \<Rightarrow> int set) \<Rightarrow> 'w run_state \<Rightarrow> int set" where
  "contents B \<equiv> B \<circ> rs_world"

lemma removes_bisect:
  fixes env :: "'w env"
  assumes answers: "answers (env_sdk env) B" and "MessageNotFoundError \<notin> set extra"
  shows "removes (contents B) (set qs) (receive_deferred_bisect env extra h qs)"
proof -
  have sdk: "wp (on_world (sdk_receive_deferred (env_sdk env) h qs)) (\<lambda>_ t'. contents B t' = contents B t - set qs)
      (\<lambda>e t'. has_sb_class [MessageNotFoundError] e \<and> contents B t' = contents B t \<and> \<not> set qs \<subseteq> contents B t) t" for qs t
  proof -
    have "wp (sdk_receive_deferred (env_sdk env) h qs) (\<lambda>ms w'. set qs \<subseteq> B w \<and> map m_seq ms = qs \<and> B w' = B w - set qs)
        (\<lambda>e w'. B w' = B w \<and> (has_sb_class [MessageNotFoundError] e \<longrightarrow> \<not> set qs \<subseteq> B w)) w"
      "wp (sdk_receive_deferred (env_sdk env) h qs) (\<lambda>_ _. True) (\<lambda>e _. has_sb_class [MessageNotFoundError] e) w" for w
      using answers by (simp_all add: answers_def deferred_store_def)
    from wp_conj [OF this] show ?thesis unfolding wp_on_world by (rule wp_imp) auto
  qed
  have final: "\<not> has_sb_class (transient_errors @ extra) e" if "has_sb_class [MessageNotFoundError] e" for e
    using that assms(2) by (auto simp: has_sb_class_def transient_errors_def split: exc_class.splits)
  have call: "wp (with_transient_retry env extra (on_world (sdk_receive_deferred (env_sdk env) h qs)))
      (\<lambda>ms s'. contents B s' = contents B s - set qs)
      (\<lambda>e s'. if has_sb_class [MessageNotFoundError] e then contents B s' = contents B s \<and> \<not> set qs \<subseteq> contents B s else False) s" for qs s
    unfolding with_transient_retry_def
    by (rule wp_retry_delays [where I = "\<lambda>t. t = s"], rule wp_imp [OF sdk]) (auto dest: final)
  show ?thesis
    unfolding removes_def
    by (intro allI wp_bisect [where P = "\<lambda>qs r s s'. contents B s' = contents B s - set qs"
          and N = "\<lambda>qs s s'. contents B s' = contents B s \<and> \<not> set qs \<subseteq> contents B s" and E = "\<lambda>_ _. False"] call) auto
qed

text \<open>Every call of the SDK on the way is one that answers.\<close>

lemma untouched_calls:
  assumes "answers (env_sdk env) B"
  shows "untouched B (sdk_credential (env_sdk env))" "untouched B (sdk_client (env_sdk env) k)"
  "untouched B (sdk_receiver (env_sdk env) rq)" "untouched B (sdk_enter (env_sdk env) g)" "untouched B (sdk_close (env_sdk env) g)"
  using assms by (simp_all add: answers_def)

lemma removes_client: "answers (env_sdk env) B \<Longrightarrow> removes (contents B) {} (data_client env k)"
  unfolding data_client_def build_client_def client_secret_credential_def
  by (cases "effective_auth_type (env_config env)")
    (simp_all add: removes_try removes_world untouched_calls removes_quiet)

lemma removes_close: "answers (env_sdk env) B \<Longrightarrow> removes (contents B) {} (close_handle env h)"
  by (simp add: close_handle_def removes_world untouched_calls)

lemma removes_open: "answers (env_sdk env) B \<Longrightarrow> removes (contents B) {} (open_group_receiver env client ref sid)"
  unfolding open_group_receiver_def open_receiver_def
  by (intro removes_quiet removes_try removes_world untouched_calls removes_ret)

lemma removes_chunks:
  assumes "answers (env_sdk env) B"
  shows "MessageNotFoundError \<notin> set extra \<Longrightarrow> removes (contents B \<circ> fst) (set (concat cs)) (delete_chunks env h extra cs)"
proof (induction cs arbitrary: extra)
  case (Cons c cs)
  have "removes (contents B \<circ> fst) (set c \<union> set (concat cs)) (delete_chunks env h extra (c # cs))"
    unfolding delete_chunks.simps
    by (intro removes_bnd [of "contents B \<circ> fst" "set c"] removes_quiet removes_in_run removes_bisect removes_steps assms Cons) simp_all
  then show ?case by (simp only: concat.simps set_append)
qed (simp add: removes_ret)

lemma removes_group:
  assumes answers: "answers (env_sdk env) B"
  shows "removes (contents B \<circ> fst) (set (iter_sequence_numbers g)) (delete_group env client ref g)"
proof -
  have "concat (chunks (nat (commit_chunk_size (g_max_body_bytes g))) (iter_sequence_numbers g)) = iter_sequence_numbers g"
    by (rule concat_chunks) (rule chunk_size_range)
  with removes_chunks [OF answers, of "[SessionCannotBeLockedError]" "chunks (nat (commit_chunk_size (g_max_body_bytes g))) (iter_sequence_numbers g)"]
  show ?thesis
    unfolding delete_group_def with_handle_def
    by (intro removes_quiet [of "contents B \<circ> fst"] removes_in_run removes_retry removes_open removes_finally removes_close answers) simp
qed

lemma no_ranges: "g_ranges g = [] \<Longrightarrow> iter_sequence_numbers g = []"
  by (simp add: iter_sequence_numbers_def iter_ranges_def merge_ranges_def)

text \<open>An attempt that cannot fail: no group is kept.\<close>

lemma attempt_clears:
  assumes "answers (env_sdk env) B"
  shows "wp (attempt_group env client ref g) (\<lambda>r s'. fst r = None \<and> contents B s' = contents B s - set (iter_sequence_numbers g)) (\<lambda>_ _. False) s"
proof -
  obtain r s' n where run: "delete_group env client ref g (s, 0) = (r, s', n)" by (cases "delete_group env client ref g (s, 0)") auto
  have "wp (delete_group env client ref g) (\<lambda>_ t. contents B (fst t) = contents B s - set (iter_sequence_numbers g)) (\<lambda>_ _. False) (s, 0)"
    using removesD [OF removes_group [OF assms, where g = g and client = client and ref = ref], of "(s, 0)"] by simp
  with run obtain x where "r = Inr x" "contents B s' = contents B s - set (iter_sequence_numbers g)"
    by (cases r) (simp_all add: wp_def)
  with run show ?thesis by (simp add: wp_def attempt_group_def)
qed

lemma groups_clear:
  assumes "answers (env_sdk env) B"
  shows "wp (commit_groups env client ref acc gs) (\<lambda>acc' s'. acc' = acc \<and> contents B s' = contents B s - stored_numbers gs) (\<lambda>_ _. False) s"
proof (induction gs arbitrary: s)
  case Nil
  then show ?case by (simp add: wp_ret stored_numbers_def)
next
  case (Cons g gs)
  show ?case
    unfolding commit_groups.simps wp_bnd
    by (rule wp_imp [OF attempt_clears [OF assms]]) (auto intro!: wp_imp [OF Cons.IH] simp: stored_numbers_def)
qed

lemma entities_clear:
  assumes answers: "answers (env_sdk env) B" and "list_all (\<lambda>pe. \<exists>ref. pe_entity_ref pe = Inr ref) pes"
  shows "wp (commit_entities env client pes) (\<lambda>kept s'. kept = [] \<and> contents B s' = contents B s - pending_numbers pes) (\<lambda>_ _. False) s"
  using assms(2)
proof (induction pes arbitrary: s)
  case Nil
  then show ?case by (simp add: wp_ret pending_numbers_def)
next
  case (Cons pe pes)
  obtain ref where ref: "pe_entity_ref pe = Inr ref" using Cons.prems by auto
  have all: "stored_numbers (filter (\<lambda>g. g_ranges g \<noteq> []) gs) = stored_numbers gs" for gs
    using no_ranges by (fastforce simp: stored_numbers_def)
  have one: "wp (commit_entity env client pe) (\<lambda>groups s'. groups = [] \<and> contents B s' = contents B s - stored_numbers (pe_groups pe)) (\<lambda>_ _. False) s" for s
    unfolding commit_entity_def ref sum.case wp_bnd
    by (rule wp_imp [OF groups_clear [OF answers]]) (simp_all add: wp_when wp_ret all)
  show ?case
    unfolding commit_entities.simps wp_bnd
    by (rule wp_imp [OF one])
      (use Cons.prems in \<open>auto intro!: wp_imp [OF Cons.IH] simp: pending_numbers_def wp_ret\<close>)
qed

lemma commit_clears:
  assumes answers: "answers (env_sdk env) B" and "list_all (\<lambda>pe. \<exists>ref. pe_entity_ref pe = Inr ref) pending"
  shows "wp (commit env pending) (\<lambda>kept s'. kept = [] \<and> contents B s' = contents B s - pending_numbers pending) (\<lambda>_ _. False) s"
proof -
  have work: "pending_numbers (filter has_work pending) = pending_numbers pending"
    using no_ranges by (fastforce simp: pending_numbers_def stored_numbers_def has_work_def list_ex_iff)
  have refs: "list_all (\<lambda>pe. \<exists>ref. pe_entity_ref pe = Inr ref) (filter has_work pending)" using assms(2) by (auto simp: list_all_iff)
  have body: "wp (finally_py (commit_entities env client (filter has_work pending)) (close_handle env client))
      (\<lambda>kept s'. kept = [] \<and> contents B s' = contents B s - pending_numbers pending) (\<lambda>_ _. False) t" if "contents B t = contents B s" for client t
    unfolding wp_finally
    by (rule wp_imp [OF entities_clear [OF answers refs]])
      (use that work in \<open>auto intro!: wp_imp [OF removesD [OF removes_close [OF answers]]]\<close>)
  show ?thesis
  proof (cases "filter has_work pending = []")
    case True
    then have "pending_numbers pending = {}" using work by (simp add: pending_numbers_def)
    with True show ?thesis by (simp add: commit_def wp_ret)
  next
    case False
    show ?thesis
      unfolding commit_def Let_def if_not_P [OF False] wp_bnd
      by (rule wp_imp [OF removesD [OF removes_client [OF answers]]]) (use body in auto)
  qed
qed

lemma store_answers: "answers (env_sdk store_env) stored_seqs"
  by
    (simp add: answers_def store_sdk_store, auto simp: store_sdk_def sample_sdk_def untouched_def wp_def take_stored_def
      missing_error_def has_sb_class_def ret_def stored_seqs_def)



end
