(* ===== verification/Frames.thy ===== *)
theory Frames
  imports Links
begin

text \<open>
  Guarantees that compose: a relation between the state before and after a computation, whatever its
  outcome. The locale \<open>frame\<close> asks for a preorder, \<open>run_frame\<close> also that the SDK's operations,
  the statistics and the entity metadata respect it; each gives one rule per construct, so a guarantee
  of a loop follows from that of its parts. An SDK relation the
  guarantee may depend on is a parameter. Both are interpreted on the guarantees of the program.
\<close>

definition keeps :: "('s \<Rightarrow> 's \<Rightarrow> bool) \<Rightarrow> ('e, 's, 'a) py \<Rightarrow> bool" where
  "keeps J m \<longleftrightarrow> (\<forall>s. wp m (\<lambda>_. J s) (\<lambda>_. J s) s)"

lemma keepsI: "(\<And>s. wp m (\<lambda>_. J s) (\<lambda>_. J s) s) \<Longrightarrow> keeps J m"
  by (simp add: keeps_def)

lemma keepsD: "keeps J m \<Longrightarrow> wp m (\<lambda>_. J s) (\<lambda>_. J s) s"
  by (simp add: keeps_def)

lemma wp_outcome: "wp m (\<lambda>_. P) (\<lambda>_. P) s \<longleftrightarrow> P (snd (m s))"
  by (cases "m s") (auto simp: wp_def split: sum.split)

lemma keeps_run: "keeps J m \<Longrightarrow> J s (snd (m s))"
  by (simp add: keeps_def wp_outcome)

definition pair_frame :: "('s \<Rightarrow> 's \<Rightarrow> bool) \<Rightarrow> 's \<times> 'x \<Rightarrow> 's \<times> 'x \<Rightarrow> bool" where
  "pair_frame J sx sx' \<longleftrightarrow> J (fst sx) (fst sx')"

locale frame =
  fixes J :: "'s \<Rightarrow> 's \<Rightarrow> bool"
  assumes frame_refl: "J s s" and frame_trans: "J s t \<Longrightarrow> J t v \<Longrightarrow> J s v"
begin

lemma keeps_ret: "keeps J (ret x)" and keeps_raise: "keeps J (raise e)" and keeps_gets: "keeps J (gets f)"
  by (simp_all add: keeps_def wp_simps frame_refl)

lemma keeps_modify: "(\<And>s. J s (f s)) \<Longrightarrow> keeps J (modify f)"
  by (simp add: keeps_def wp_simps)

lemma keeps_then: "keeps J m \<Longrightarrow> J s t \<Longrightarrow> wp m (\<lambda>_. J s) (\<lambda>_. J s) t"
  by (rule wp_imp [OF keepsD]) (auto intro: frame_trans)

lemma keeps_bnd: "keeps J m \<Longrightarrow> (\<And>x. keeps J (f x)) \<Longrightarrow> keeps J (bnd m f)"
  by (rule keepsI, unfold wp_bnd, rule wp_imp [OF keepsD], assumption) (auto intro: keeps_then)

lemma keeps_try: "keeps J m \<Longrightarrow> (\<And>e. keeps J (h e)) \<Longrightarrow> keeps J (try_py m h)"
  by (rule keepsI, unfold wp_try, rule wp_imp [OF keepsD], assumption) (auto intro: keeps_then)

lemma keeps_finally: "keeps J m \<Longrightarrow> keeps J fin \<Longrightarrow> keeps J (finally_py m fin)"
  by (rule keepsI, unfold wp_finally, rule wp_imp [OF keepsD], assumption) (auto intro: keeps_then)

lemma keeps_when: "keeps J m \<Longrightarrow> keeps J (when_py b m)"
  by (simp add: when_py_def keeps_ret)

lemma keeps_if: "(b \<Longrightarrow> keeps J m) \<Longrightarrow> (\<not> b \<Longrightarrow> keeps J n) \<Longrightarrow> keeps J (if b then m else n)"
  by simp

lemma keeps_option: "keeps J m \<Longrightarrow> (\<And>x. keeps J (f x)) \<Longrightarrow> keeps J (case v of None \<Rightarrow> m | Some x \<Rightarrow> f x)"
  by (simp split: option.split)

lemma keeps_prod: "(\<And>x y. keeps J (f x y)) \<Longrightarrow> keeps J (case v of (x, y) \<Rightarrow> f x y)"
  by (simp split: prod.split)

lemma keeps_each: "(\<And>x. keeps J (f x)) \<Longrightarrow> keeps J (for_each f xs)"
  by (induction xs) (auto intro: keeps_ret keeps_bnd)

lemmas keeps_rules = keeps_ret keeps_raise keeps_gets keeps_bnd keeps_try keeps_finally keeps_when keeps_if
  keeps_option keeps_prod keeps_each

end

text \<open>A relation the operations of the SDK respect; the relation that always holds is one.\<close>

definition sdk_respects :: "('w \<Rightarrow> 'w \<Rightarrow> bool) \<Rightarrow> 'w sdk \<Rightarrow> bool" where
  "sdk_respects W sdk \<longleftrightarrow>
     (\<forall>w. W w (snd (sdk_clock sdk w))) \<and> (\<forall>w. W w (snd (sdk_monotonic sdk w))) \<and> (\<forall>n w. W w (sdk_sleep sdk n w)) \<and>
     keeps W (sdk_credential sdk) \<and> (\<forall>k. keeps W (sdk_client sdk k)) \<and> (\<forall>rq. keeps W (sdk_receiver sdk rq)) \<and> (\<forall>h. keeps W (sdk_enter sdk h)) \<and>
     (\<forall>h. keeps W (sdk_close sdk h)) \<and> (\<forall>h. keeps W (sdk_renew_session sdk h)) \<and>
     (\<forall>h m. keeps W (sdk_complete sdk h m)) \<and> (\<forall>h m. keeps W (sdk_defer sdk h m)) \<and> (\<forall>h m. keeps W (sdk_abandon sdk h m)) \<and>
     (\<forall>h m. keeps W (sdk_renew_message sdk h m)) \<and> (\<forall>h m r d. keeps W (sdk_dead_letter sdk h m r d)) \<and>
     (\<forall>h n t. keeps W (sdk_receive sdk h n t)) \<and> (\<forall>h n q. keeps W (sdk_peek sdk h n q)) \<and>
     (\<forall>h qs. keeps W (sdk_receive_deferred sdk h qs))"

lemma keeps_always [simp]: "keeps (\<lambda>_ _. True) m"
  by (simp add: keeps_def wp_anything)

lemma sdk_respects_always [simp]: "sdk_respects (\<lambda>_ _. True) sdk"
  by (simp add: sdk_respects_def)

locale run_frame = frame J for J :: "'w run_state \<Rightarrow> 'w run_state \<Rightarrow> bool" +
  fixes W :: "'w \<Rightarrow> 'w \<Rightarrow> bool" and env :: "'w env"
  assumes frame_world: "W (rs_world s) w \<Longrightarrow> J s (s\<lparr>rs_world := w\<rparr>)" and frame_stats: "J s (s\<lparr>rs_stats := st\<rparr>)"
    and frame_info: "J s (s\<lparr>rs_info := i\<rparr>)" and world: "sdk_respects W (env_sdk env)"
begin

lemma keeps_on_world: "keeps W m \<Longrightarrow> keeps J (on_world m)"
  by (rule keepsI, unfold wp_on_world, rule wp_imp [OF keepsD], assumption) (auto intro: frame_world)

lemma keeps_clock: "keeps J (clock env)" and keeps_monotonic: "keeps J (monotonic env)" and keeps_sleep: "keeps J (sleep env n)"
  using world by (auto intro!: keepsI frame_world simp: wp_simps sdk_respects_def split: prod.split dest: spec) (metis snd_conv)+

lemma keeps_on_stats: "keeps J (on_stats f)"
  by (simp add: keeps_def wp_simps frame_stats)

lemma keeps_note: "keeps J (modify (\<lambda>s. s\<lparr>rs_info := f s\<rparr>))"
  by (simp add: keeps_def wp_simps frame_info)

lemma keeps_sdk:
  "keeps J (on_world (sdk_credential (env_sdk env)))"
  "keeps J (on_world (sdk_client (env_sdk env) k))" "keeps J (on_world (sdk_receiver (env_sdk env) rq))"
  "keeps J (on_world (sdk_enter (env_sdk env) h))" "keeps J (on_world (sdk_close (env_sdk env) h))"
  "keeps J (on_world (sdk_renew_session (env_sdk env) h))" "keeps J (on_world (sdk_complete (env_sdk env) h m))"
  "keeps J (on_world (sdk_defer (env_sdk env) h m))" "keeps J (on_world (sdk_abandon (env_sdk env) h m))"
  "keeps J (on_world (sdk_renew_message (env_sdk env) h m))" "keeps J (on_world (sdk_dead_letter (env_sdk env) h m r d))"
  "keeps J (on_world (sdk_receive (env_sdk env) h n t))" "keeps J (on_world (sdk_peek (env_sdk env) h n q))"
  "keeps J (on_world (sdk_receive_deferred (env_sdk env) h qs))"
  using world by (auto simp: sdk_respects_def intro!: keeps_on_world)

lemmas keeps_basic = keeps_rules keeps_sdk keeps_clock keeps_monotonic keeps_sleep keeps_on_stats keeps_note

lemma keeps_close: "keeps J (close_handle env h)"
  unfolding close_handle_def by (intro keeps_basic)

lemma keeps_close_quietly: "keeps J (close_quietly env h)"
  unfolding close_quietly_def by (intro keeps_basic keeps_close)

lemma keeps_build: "keeps W c \<Longrightarrow> keeps J (build_client env c)"
  unfolding build_client_def client_secret_credential_def
  by (cases "effective_auth_type (env_config env)") (simp_all, intro keeps_basic keeps_on_world, assumption+, intro keeps_basic keeps_on_world)

lemma keeps_data_client: "keeps J (data_client env k)"
  unfolding data_client_def using world by (intro keeps_build) (simp add: sdk_respects_def)

lemma keeps_open: "keeps J (open_receiver env rq)"
  unfolding open_receiver_def by (intro keeps_basic)

lemma keeps_enter: "keeps J (enter_receiver env h)"
  unfolding enter_receiver_def by (intro keeps_basic keeps_close_quietly)

lemma keeps_renew: "keeps J (renew_session_if_needed env h now)"
  unfolding renew_session_if_needed_def by (intro keeps_basic)

lemmas keeps_links = keeps_data_client keeps_close keeps_close_quietly keeps_open keeps_enter keeps_renew

lemma keeps_in_run: "keeps J m \<Longrightarrow> keeps (pair_frame J) (in_run m)"
  by (simp add: keeps_def pair_frame_def wp_simps)

lemma keeps_var: "keeps (pair_frame J) (var f)" and keeps_set_var: "keeps (pair_frame J) (set_var g)"
  by (simp_all add: keeps_def pair_frame_def wp_simps frame_refl)

lemma keeps_run_vars: "keeps (pair_frame J) m \<Longrightarrow> keeps J (run_vars x m)"
  by (rule keepsI, unfold wp_run_vars, rule wp_imp [OF keepsD], assumption) (auto simp: pair_frame_def)

end

sublocale run_frame \<subseteq> vars: frame "pair_frame J"
  by unfold_locales (auto simp: pair_frame_def frame_refl intro: frame_trans)

text \<open>Handles are closed by computations on the run's state.\<close>

context run_frame begin

lemma keeps_with_handle: "keeps (pair_frame J) m \<Longrightarrow> keeps (pair_frame J) (with_handle env h m)"
  unfolding with_handle_def by (intro vars.keeps_finally keeps_in_run keeps_close)

lemmas keeps_vars = vars.keeps_rules keeps_in_run keeps_var keeps_set_var keeps_with_handle

end

subsection \<open>The program's guarantees\<close>

interpretation traced: run_frame "batch_trace :: 'w run_state \<Rightarrow> 'w run_state \<Rightarrow> bool" "\<lambda>_ _. True" env for env :: "'w env"
  by unfold_locales (auto intro: batch_trace_trans, simp_all add: batch_trace_def)

lemma traced_process: "keeps batch_trace (process_batch env h ms g)"
  unfolding process_batch_def keeps_def
  by (intro allI wp_imp [OF program_batch.process_trace]) auto

lemma traced_event: "e \<noteq> EvArm \<Longrightarrow> (\<forall>q. e \<noteq> EvComplete q \<and> e \<noteq> EvDefer q) \<Longrightarrow> keeps batch_trace (trace e)"
  by (cases e) (auto simp: keeps_def wp_simps batch_trace_def)

end
