(* ===== verification/Orphans.thy ===== *)
theory Orphans
  imports Commit Frames
begin

text \<open>
  The second half of \<^verbatim>\<open>src/commit.py\<close>: the orphan scan (\<open>OrphanScanner\<close>), which peeks the entity
  for deferred messages no state owns and recovers them through the batch processor, and the
  foreign-deferral probe (\<open>ForeignDeferralProbe\<close>), which only counts them. The scan's variable is the
  commit client, created at the first orphan.
\<close>

subsection \<open>The stop rule\<close>

definition ORPHAN_PAGE_SIZE :: int where "ORPHAN_PAGE_SIZE = 250"
definition ORPHAN_PAGE_CAP :: nat where "ORPHAN_PAGE_CAP = 20"

definition k_stop :: "int \<Rightarrow> int \<Rightarrow> int" where
  "k_stop batch_len prefetch = max 100 (2 * (batch_len + prefetch + 1))"

definition is_qualifying :: "message \<Rightarrow> datetime \<Rightarrow> bool" where
  "is_qualifying m now \<longleftrightarrow>
     m_state m = ST_ACTIVE \<and> delivery_count m = 0 \<and>
     (case m_expires_at m of None \<Rightarrow> True | Some expires_at \<Rightarrow> now < expires_at) \<and> m_scheduled_time m = None"

definition best_effort :: "'w env \<Rightarrow> ('w, bool) run" where
  "best_effort env =
     bnd (gets rs_info) (\<lambda>info.
       if is_partitioned info \<or> is_sub_queue (env_entity env)
       then bnd (on_stats (warn ''orphan_best_effort'')) (\<lambda>_. ret True)
       else ret False)"

text \<open>The messages of one page: the orphans found, the run of qualifying messages, whether the scan stops.\<close>

fun scan_messages ::
  "'w env \<Rightarrow> int \<Rightarrow> datetime \<Rightarrow> message list \<Rightarrow> int list \<Rightarrow> int \<Rightarrow> ('w, int list \<times> int \<times> bool) run" where
  "scan_messages env k now [] orphans consecutive = ret (orphans, consecutive, False)"
| "scan_messages env k now (m # ms) orphans consecutive =
     bnd (modify (\<lambda>s. s\<lparr>rs_info := note_sequence_number (m_seq m) (rs_info s)\<rparr>)) (\<lambda>_.
       if m_state m = ST_DEFERRED then
         bnd (gets (orphan_guard_threshold \<circ> rs_info)) (\<lambda>threshold.
           if threshold \<le> delivery_count m
           then bnd (on_stats (\<lambda>st. st\<lparr>s_orphans_guarded := s_orphans_guarded st @ [m_seq m]\<rparr>)) (\<lambda>_.
                  scan_messages env k now ms orphans 0)
           else scan_messages env k now ms (orphans @ [m_seq m]) 0)
       else
         bnd (best_effort env) (\<lambda>full_scan.
           if \<not> full_scan \<and> is_qualifying m now then
             (if k \<le> consecutive + 1 then ret (orphans, consecutive + 1, True)
              else scan_messages env k now ms orphans (consecutive + 1))
           else scan_messages env k now ms orphans consecutive))"

subsection \<open>Recovering orphans\<close>

text \<open>The deferred receives of \<^verbatim>\<open>_recover\<close>: by partition in the order the sorted numbers meet them, in slices.\<close>

definition partitions_of :: "int list \<Rightarrow> int list list" where
  "partitions_of qs =
     map snd (foldl (\<lambda>d q. AList.update (partition_of q) (dget d (partition_of q) [] @ [q]) d) [] (sort qs))"

definition recovery_plan :: "int \<Rightarrow> int list \<Rightarrow> int list list" where
  "recovery_plan limit qs = concat (map (chunks (nat (min COMMIT_MAX_COUNT limit))) (partitions_of qs))"

definition with_peeker ::
  "'w env \<Rightarrow> handle \<Rightarrow> (handle \<Rightarrow> ('w, 'x, 'a) run_with) \<Rightarrow> ('w, 'x, 'a) run_with" where
  "with_peeker env client m =
     bnd (in_run (open_receiver env (receiver_profile env client PEEK_LOCK 1 None))) (\<lambda>h.
     bnd (in_run (on_world (sdk_enter (env_sdk env) h))) (\<lambda>_. with_handle env h (m h)))"

definition recover_slice :: "'w env \<Rightarrow> handle \<Rightarrow> int list \<Rightarrow> ('w, unit) run" where
  "recover_slice env h qs =
     bnd (receive_deferred_bisect env [] h qs) (\<lambda>r.
       when_py (fst r \<noteq> [])
         (bnd (process_batch env h (fst r) 0) (\<lambda>_.
            on_stats (\<lambda>st. st\<lparr>s_orphans_recovered := s_orphans_recovered st + length (fst r)\<rparr>))))"

definition commit_client :: "'w env \<Rightarrow> ('w, handle option, handle) run_with" where
  "commit_client env =
     bnd (var id) (\<lambda>c. case c of
        Some h \<Rightarrow> ret h
      | None \<Rightarrow> bnd (in_run (data_client env CommitClient)) (\<lambda>h.
                  bnd (set_var (\<lambda>_. Some h)) (\<lambda>_. ret h)))"

definition set_retries :: "bool \<Rightarrow> ('w, unit) run" where
  "set_retries b = on_handler (\<lambda>uh. uh\<lparr>uh_retries_enabled := b\<rparr>)"

definition recover_orphans :: "'w env \<Rightarrow> int list \<Rightarrow> ('w, handle option, unit) run_with" where
  "recover_orphans env orphans =
     when_py (orphans \<noteq> [])
       (bnd (commit_client env) (\<lambda>client.
        bnd (in_run (gets (uh_retries_enabled \<circ> rs_unreadable))) (\<lambda>enabled.
        bnd (in_run (set_retries False)) (\<lambda>_.
          finally_py
            (with_peeker env client (\<lambda>h.
               in_run (for_each (recover_slice env h)
                 (recovery_plan (batch_size (advanced (env_config env))) orphans))))
            (in_run (set_retries enabled))))))"

subsection \<open>The scan\<close>

text \<open>At most \<open>pages\<close> pages; True when the scan saw the end of the entity or the stop rule fired.\<close>

fun scan_pages :: "'w env \<Rightarrow> handle \<Rightarrow> int \<Rightarrow> nat \<Rightarrow> int \<Rightarrow> int \<Rightarrow> ('w, handle option, bool) run_with" where
  "scan_pages env peeker k 0 consecutive next_seq = ret False"
| "scan_pages env peeker k (Suc pages) consecutive next_seq =
     bnd (in_run (gets (is_partitioned \<circ> rs_info))) (\<lambda>part.
     bnd (in_run (best_effort env)) (\<lambda>_.
     bnd (in_run (on_world (sdk_peek (env_sdk env) peeker ORPHAN_PAGE_SIZE (if part then 0 else next_seq)))) (\<lambda>page.
       if page = [] then ret True
       else bnd (in_run (clock env)) (\<lambda>now.
            bnd (in_run (scan_messages env k now page [] consecutive)) (\<lambda>(orphans, consecutive', stopped).
            bnd (recover_orphans env orphans) (\<lambda>_.
              if stopped then ret True
              else scan_pages env peeker k pages consecutive' (m_seq (last page) + 1)))))))"

definition map_servicebus_errors :: "'w env \<Rightarrow> ('w, 'x, 'a) run_with \<Rightarrow> ('w, 'x, 'a) run_with" where
  "map_servicebus_errors env m =
     try_py m (\<lambda>e. if is_servicebus_error e
       then raise (mapped_from (env_text env) e (entity_path (env_entity env)) (env_secrets env)) else raise e)"

definition close_commit_client :: "'w env \<Rightarrow> ('w, handle option, unit) run_with" where
  "close_commit_client env =
     bnd (var id) (\<lambda>c. case c of
        None \<Rightarrow> ret ()
      | Some h \<Rightarrow> bnd (in_run (close_handle env h)) (\<lambda>_. set_var (\<lambda>_. None)))"

definition with_receive_client :: "'w env \<Rightarrow> (handle \<Rightarrow> ('w, 'x, 'a) run_with) \<Rightarrow> ('w, 'x, 'a) run_with" where
  "with_receive_client env m =
     bnd (in_run (data_client env ReceiveClient)) (\<lambda>client. with_handle env client (m client))"

definition scan_plain :: "'w env \<Rightarrow> ('w, handle option, bool) run_with" where
  "scan_plain env =
     finally_py
       (map_servicebus_errors env
          (with_receive_client env (\<lambda>client. with_peeker env client (\<lambda>peeker.
             scan_pages env peeker
               (k_stop (batch_size (advanced (env_config env))) (prefetch_count (advanced (env_config env))))
               ORPHAN_PAGE_CAP 0 1))))
       (close_commit_client env)"

definition orphan_scan :: "'w env \<Rightarrow> ('w, unit) run" where
  "orphan_scan env =
     (if session_enabled (source (env_config env)) then on_stats (warn ''orphan_sessions'')
      else bnd (run_vars None (scan_plain env)) (\<lambda>finished.
           bnd (gets (s_orphans_guarded \<circ> rs_stats)) (\<lambda>guarded.
           bnd (when_py (guarded \<noteq> []) (on_stats (warn ''orphan_guard''))) (\<lambda>_.
             when_py (\<not> finished) (on_stats (warn ''orphan_scan_incomplete''))))))"

subsection \<open>The probe\<close>

definition foreign_probe :: "'w env \<Rightarrow> ('w, unit) run" where
  "foreign_probe env =
     (if session_enabled (source (env_config env)) then ret ()
      else bnd (gets (is_partitioned \<circ> rs_info)) (\<lambda>part.
           bnd (run_vars () (map_servicebus_errors env
                  (with_receive_client env (\<lambda>client. with_peeker env client (\<lambda>peeker.
                     in_run (on_world (sdk_peek (env_sdk env) peeker ORPHAN_PAGE_SIZE (if part then 0 else 1)))))))) (\<lambda>page.
             when_py (list_ex (\<lambda>m. m_state m = ST_DEFERRED) page) (on_stats (warn ''foreign_deferrals'')))))"

subsection \<open>The plan of the deferred receives\<close>

definition filed :: "(int \<times> int list) list \<Rightarrow> bool" where
  "filed d \<longleftrightarrow> distinct (map fst d) \<and> (\<forall>(p, xs) \<in> set d. xs \<noteq> [] \<and> sorted xs \<and> (\<forall>x \<in> set xs. partition_of x = p))"

definition file_seq :: "(int \<times> int list) list \<Rightarrow> int \<Rightarrow> (int \<times> int list) list" where
  "file_seq d q = AList.update (partition_of q) (dget d (partition_of q) [] @ [q]) d"

lemma mset_file_seq:
  "distinct (map fst d) \<Longrightarrow> mset (concat (map snd (AList.update p (dget d p [] @ [q]) d))) = add_mset q (mset (concat (map snd d)))"
  by (induction d) (auto simp: dget_def update_absent map_of_eq_None_iff [THEN iffD2] split: option.split)

lemma filed_file_seq:
  assumes "filed d" and "\<forall>x \<in> set (concat (map snd d)). x \<le> q"
  shows "filed (file_seq d q)"
proof -
  let ?p = "partition_of q" and ?xs = "dget d (partition_of q) []"
  have "?xs = [] \<or> (?p, ?xs) \<in> set d" by (auto simp: dget_def dest: map_of_SomeD split: option.split)
  then have new: "sorted (?xs @ [q])" "\<forall>x \<in> set (?xs @ [q]). partition_of x = ?p"
    using assms by (auto simp: filed_def sorted_append)
  have old: "xs \<noteq> [] \<and> sorted xs \<and> (\<forall>x \<in> set xs. partition_of x = p)" if "(p, xs) \<in> set d" for p xs
    using assms(1) that by (auto simp: filed_def)
  have sub: "set (file_seq d q) \<subseteq> insert (?p, ?xs @ [q]) (set d)"
    unfolding file_seq_def by (rule set_AList_update_subset)
  have "xs \<noteq> [] \<and> sorted xs \<and> (\<forall>x \<in> set xs. partition_of x = p)" if mem: "(p, xs) \<in> set (file_seq d q)" for p xs
  proof -
    consider "p = ?p" "xs = ?xs @ [q]" | "(p, xs) \<in> set d" using mem sub by blast
    then show ?thesis
    proof cases
      case 1
      moreover from 1 have "xs \<noteq> []" by simp
      ultimately show ?thesis using new by metis
    next
      case 2
      then show ?thesis by (rule old)
    qed
  qed
  moreover have "distinct (map fst (file_seq d q))" using assms(1) by (simp add: file_seq_def filed_def distinct_update)
  ultimately show ?thesis by (auto simp: filed_def)
qed

lemma foldl_file_seq:
  "filed d \<Longrightarrow> sorted qs \<Longrightarrow> \<forall>x \<in> set (concat (map snd d)). \<forall>q \<in> set qs. x \<le> q \<Longrightarrow>
     filed (foldl file_seq d qs) \<and> mset (concat (map snd (foldl file_seq d qs))) = mset (concat (map snd d)) + mset qs"
proof (induction qs arbitrary: d)
  case (Cons q qs)
  have count: "mset (concat (map snd (file_seq d q))) = add_mset q (mset (concat (map snd d)))"
    using Cons.prems(1) by (simp add: file_seq_def filed_def mset_file_seq)
  then have "set (concat (map snd (file_seq d q))) = insert q (set (concat (map snd d)))"
    by (metis set_mset_add_mset_insert set_mset_mset)
  moreover have "filed (file_seq d q)" by (rule filed_file_seq) (use Cons.prems in auto)
  ultimately have "filed (foldl file_seq (file_seq d q) qs) \<and>
      mset (concat (map snd (foldl file_seq (file_seq d q) qs))) = mset (concat (map snd (file_seq d q))) + mset qs"
    by (intro Cons.IH) (use Cons.prems in auto)
  with count show ?case by simp
qed simp

lemma partitions_of_correct:
  "mset (concat (partitions_of qs)) = mset qs \<and>
   (\<forall>xs \<in> set (partitions_of qs). xs \<noteq> [] \<and> sorted xs \<and> (\<forall>x \<in> set xs. \<forall>y \<in> set xs. partition_of x = partition_of y))"
proof -
  have "partitions_of qs = map snd (foldl file_seq [] (sort qs))"
    by (simp add: partitions_of_def file_seq_def [abs_def])
  moreover have "filed (foldl file_seq [] (sort qs)) \<and> mset (concat (map snd (foldl file_seq [] (sort qs)))) = mset qs"
    using foldl_file_seq [of "[]" "sort qs"] by (simp add: filed_def)
  ultimately show ?thesis by (fastforce simp: filed_def)
qed

lemma sorted_chunks: "sorted (xs :: int list) \<Longrightarrow> c \<in> set (chunks n xs) \<Longrightarrow> sorted c \<and> set c \<subseteq> set xs"
proof (induction n xs rule: chunks.induct)
  case (3 n x xs)
  have tail: "sorted (drop n xs)" using 3(2) by (simp add: sorted_wrt_drop)
  consider "c = take (Suc n) (x # xs)" | "c \<in> set (chunks (Suc n) (drop (Suc n) (x # xs)))" using 3(3) by auto
  then show ?case
  proof cases
    case 1
    then show ?thesis using 3(2) by (metis set_take_subset sorted_wrt_take)
  next
    case 2
    then have "sorted c \<and> set c \<subseteq> set (drop (Suc n) (x # xs))" using 3(1) tail by simp
    then show ?thesis using set_drop_subset by fastforce
  qed
qed auto

text \<open>C19: The deferred receives of an orphan recovery ask for exactly the orphans found, each once; every call names
  at least one and at most 250 sequence numbers (and no more than the batch size), in ascending order and of one
  partition.\<close>
theorem recovery_plan_correct:
  assumes "0 < limit"
  shows "mset (concat (recovery_plan limit qs)) = mset qs \<and>
    (\<forall>c \<in> set (recovery_plan limit qs). c \<noteq> [] \<and> int (length c) \<le> limit \<and> length c \<le> 250 \<and> sorted c \<and>
       (\<forall>x \<in> set c. \<forall>y \<in> set c. partition_of x = partition_of y))"
proof -
  let ?n = "nat (min COMMIT_MAX_COUNT limit)"
  have n: "0 < ?n" "int ?n \<le> limit" "?n \<le> 250" using assms by (auto simp: COMMIT_MAX_COUNT_def)
  have "mset (concat (concat (map (chunks ?n) xss))) = mset (concat xss)" for xss :: "int list list"
    by (induction xss) (simp_all add: concat_chunks [OF n(1)])
  moreover have part: "c \<noteq> [] \<and> int (length c) \<le> limit \<and> length c \<le> 250 \<and> sorted c \<and>
      (\<forall>x \<in> set c. \<forall>y \<in> set c. partition_of x = partition_of y)"
    if xs: "xs \<in> set (partitions_of qs)" and c: "c \<in> set (chunks ?n xs)" for xs c
  proof -
    have "length c \<le> ?n" using c by (rule chunks_length)
    moreover have "sorted c \<and> set c \<subseteq> set xs" using partitions_of_correct xs by (intro sorted_chunks [OF _ c]) blast
    moreover have "\<forall>x \<in> set xs. \<forall>y \<in> set xs. partition_of x = partition_of y" using partitions_of_correct xs by blast
    ultimately show ?thesis using chunks_ne [OF c] n by auto
  qed
  moreover have "\<exists>xs \<in> set (partitions_of qs). c \<in> set (chunks ?n xs)" if "c \<in> set (recovery_plan limit qs)" for c
    using that by (auto simp: recovery_plan_def)
  ultimately show ?thesis using partitions_of_correct [of qs] unfolding recovery_plan_def by (metis (no_types, lifting))
qed

theorem recovery_plan_correct_witness:
  "mset (concat (recovery_plan 2 [9, 7, 2 ^ 48 + 1, 8])) = {#7, 8, 9, 2 ^ 48 + 1#}"
  using recovery_plan_correct [of 2 "[9, 7, 2 ^ 48 + 1, 8]"] by simp

subsection \<open>What a scan does\<close>

context run_frame begin

lemma keeps_retry: "keeps J fn \<Longrightarrow> keeps J (with_transient_retry env extra fn)"
proof -
  assume fn: "keeps J fn"
  have "keeps J (retry_delays env classes fn delays)" for classes delays
    by (induction delays) (simp_all add: fn, intro keeps_basic fn)
  then show ?thesis by (simp add: with_transient_retry_def)
qed

lemma keeps_bisect: "keeps J (receive_deferred_bisect env extra h qs)"
proof (rule keepsI)
  fix s
  have call: "keeps J (with_transient_retry env extra (on_world (sdk_receive_deferred (env_sdk env) h qs)))" for qs
    by (intro keeps_retry keeps_sdk)
  show "wp (receive_deferred_bisect env extra h qs) (\<lambda>_. J s) (\<lambda>_. J s) s"
    by (rule wp_bisect [where P = "\<lambda>_ _. J" and N = "\<lambda>_. J" and E = J])
      (auto intro: frame_refl frame_trans wp_imp [OF keepsD [OF call]])
qed

lemma keeps_best_effort: "keeps J (best_effort env)"
  unfolding best_effort_def by (intro keeps_basic)

lemma keeps_peeker: "(\<And>h. keeps (pair_frame J) (m h)) \<Longrightarrow> keeps (pair_frame J) (with_peeker env client m)"
  unfolding with_peeker_def by (intro keeps_vars keeps_links keeps_basic)

lemma keeps_probe: "keeps J (foreign_probe env)"
  unfolding foreign_probe_def map_servicebus_errors_def with_receive_client_def
  by (intro keeps_basic keeps_run_vars keeps_vars keeps_links keeps_peeker)

lemma keeps_scan_messages: "keeps J (scan_messages env k now ms orphans c)"
proof (induction ms arbitrary: orphans c)
  case Nil
  then show ?case unfolding scan_messages.simps by (rule keeps_ret)
next
  case (Cons m ms)
  show ?case unfolding scan_messages.simps by (intro keeps_basic keeps_best_effort Cons.IH)
qed

end

lemma traced_set_retries: "keeps batch_trace (set_retries b)"
  by (simp add: set_retries_def on_handler_def keeps_def wp_simps batch_trace_def)

text \<open>A guarantee of every batch and of the retry switch is one of the scan.\<close>

locale batch_frame = run_frame +
  assumes batches: "keeps J (process_batch env h ms g)" and switch: "keeps J (set_retries b)"
begin

lemma keeps_slice: "keeps J (recover_slice env h qs)"
  unfolding recover_slice_def by (intro keeps_basic keeps_bisect batches)

lemma keeps_recover: "keeps (pair_frame J) (recover_orphans env orphans)"
  unfolding recover_orphans_def commit_client_def
  by (intro keeps_vars keeps_peeker switch keeps_basic keeps_links keeps_slice)

lemma keeps_pages: "keeps (pair_frame J) (scan_pages env peeker k n c q)"
proof (induction n arbitrary: c q)
  case 0
  then show ?case unfolding scan_pages.simps by (rule vars.keeps_ret)
next
  case (Suc n)
  show ?case
    unfolding scan_pages.simps
    by (intro keeps_vars keeps_basic keeps_best_effort keeps_scan_messages keeps_recover Suc.IH)
qed

lemma keeps_scan: "keeps J (orphan_scan env)"
proof -
  have "keeps (pair_frame J) (scan_plain env)"
    unfolding scan_plain_def map_servicebus_errors_def with_receive_client_def close_commit_client_def
    by (intro keeps_vars keeps_links keeps_peeker keeps_pages keeps_basic)
  then show ?thesis unfolding orphan_scan_def by (intro keeps_basic keeps_run_vars)
qed

end

interpretation traced_scans: batch_frame "batch_trace :: 'w run_state \<Rightarrow> 'w run_state \<Rightarrow> bool" "\<lambda>_ _. True" env for env :: "'w env"
  by unfold_locales (intro traced_process traced_set_retries)+

definition same_retries :: "'w run_state \<Rightarrow> 'w run_state \<Rightarrow> bool" where
  "same_retries s s' \<longleftrightarrow> uh_retries_enabled (rs_unreadable s') = uh_retries_enabled (rs_unreadable s)"

interpretation retries: run_frame "same_retries :: 'w run_state \<Rightarrow> 'w run_state \<Rightarrow> bool" "\<lambda>_ _. True" env for env :: "'w env"
  by unfold_locales (auto simp: same_retries_def)

lemma retries_recover: "keeps (pair_frame same_retries) (recover_orphans env orphans)"
proof -
  have client: "keeps (pair_frame same_retries) (commit_client env)"
    unfolding commit_client_def by (intro retries.keeps_vars retries.keeps_basic retries.keeps_links)
  have restored: "keeps (pair_frame same_retries)
      (bnd (in_run (gets (uh_retries_enabled \<circ> rs_unreadable))) (\<lambda>enabled.
       bnd (in_run (set_retries False)) (\<lambda>_. finally_py m (in_run (set_retries enabled)))))" for m
    by (rule keepsI, simp add: wp_simps set_retries_def on_handler_def pair_frame_def same_retries_def, rule wp_anything)
      (simp_all add: wp_simps pair_frame_def same_retries_def)
  show ?thesis
    unfolding recover_orphans_def by (intro retries.vars.keeps_when retries.vars.keeps_bnd client restored)
qed

lemma retries_pages: "keeps (pair_frame same_retries) (scan_pages env peeker k n c q)"
proof (induction n arbitrary: c q)
  case 0
  then show ?case unfolding scan_pages.simps by (rule retries.vars.keeps_ret)
next
  case (Suc n)
  show ?case
    unfolding scan_pages.simps
    by (intro retries.keeps_vars retries.keeps_basic retries.keeps_best_effort retries.keeps_scan_messages retries_recover Suc.IH)
qed

lemma retries_scan: "keeps same_retries (orphan_scan env)"
  unfolding orphan_scan_def scan_plain_def map_servicebus_errors_def with_receive_client_def close_commit_client_def with_peeker_def
  by (intro retries.keeps_run_vars retries.keeps_vars retries.keeps_links retries_pages retries.keeps_basic)

text \<open>C18: An orphan scan, whatever it meets and however it ends, keeps the order of the run: every message it defers
  again had its row written before, nothing is completed before \<^verbatim>\<open>write_always\<close> is armed; and the
  unreadable-body retries it switched off for the recovery are back to what they were.\<close>
theorem orphan_scan_safe:
  "\<exists>new. rs_trace (snd (orphan_scan env s)) = rs_trace s @ new \<and> settles_after_write {} new \<and>
     arms_first (rs_settler_armed s) new \<and>
     uh_retries_enabled (rs_unreadable (snd (orphan_scan env s))) = uh_retries_enabled (rs_unreadable s)"
  using keeps_run [OF traced_scans.keeps_scan, of s env] keeps_run [OF retries_scan, of s env]
  by (auto simp: batch_trace_def same_retries_def)

subsection \<open>What a scan finds\<close>

definition orphaned :: "int \<Rightarrow> message \<Rightarrow> bool" where
  "orphaned threshold m \<longleftrightarrow> m_state m = ST_DEFERRED \<and> delivery_count m < threshold"

definition guarded :: "int \<Rightarrow> message \<Rightarrow> bool" where
  "guarded threshold m \<longleftrightarrow> m_state m = ST_DEFERRED \<and> threshold \<le> delivery_count m"

definition page_scanned ::
  "'w env \<Rightarrow> int \<Rightarrow> message list \<Rightarrow> int list \<Rightarrow> 'w run_state \<Rightarrow> int list \<times> int \<times> bool \<Rightarrow> 'w run_state \<Rightarrow> bool" where
  "page_scanned env k page orphans s = (\<lambda>(found, count, stopped) s'. \<exists>seen rest.
     page = seen @ rest \<and>
     found = orphans @ map m_seq (filter (orphaned (orphan_guard_threshold (rs_info s))) seen) \<and>
     s_orphans_guarded (rs_stats s') =
       s_orphans_guarded (rs_stats s) @ map m_seq (filter (guarded (orphan_guard_threshold (rs_info s))) seen) \<and>
     (if stopped then k \<le> count \<and> \<not> is_partitioned (rs_info s') \<and> \<not> is_sub_queue (env_entity env) else rest = []))"

lemma page_scanned_step:
  assumes "page_scanned env k ms orphans' t r s'"
    and "orphan_guard_threshold (rs_info t) = orphan_guard_threshold (rs_info s)"
    and "orphans' = orphans @ (if orphaned (orphan_guard_threshold (rs_info s)) m then [m_seq m] else [])"
    and "s_orphans_guarded (rs_stats t) =
      s_orphans_guarded (rs_stats s) @ (if guarded (orphan_guard_threshold (rs_info s)) m then [m_seq m] else [])"
  shows "page_scanned env k (m # ms) orphans s r s'"
proof (cases r)
  case (fields found count stopped)
  with assms(1) obtain seen rest where "ms = seen @ rest"
    "found = orphans' @ map m_seq (filter (orphaned (orphan_guard_threshold (rs_info t))) seen)"
    "s_orphans_guarded (rs_stats s') =
       s_orphans_guarded (rs_stats t) @ map m_seq (filter (guarded (orphan_guard_threshold (rs_info t))) seen)"
    "if stopped then k \<le> count \<and> \<not> is_partitioned (rs_info s') \<and> \<not> is_sub_queue (env_entity env) else rest = []"
    by (auto simp: page_scanned_def)
  with assms(2-4) show ?thesis
    unfolding page_scanned_def fields prod.case
    by (intro exI [where x = "m # seen"] exI [where x = rest]) simp
qed

lemma scan_messages_found:
  "wp (scan_messages env k now ms orphans c) (page_scanned env k ms orphans s) (\<lambda>_ _. False) s"
proof (induction ms arbitrary: orphans c s)
  case Nil
  then show ?case by (simp add: wp_simps page_scanned_def)
next
  case (Cons m ms)
  let ?t = "s\<lparr>rs_info := note_sequence_number (m_seq m) (rs_info s)\<rparr>"
  have threshold: "orphan_guard_threshold (rs_info ?t) = orphan_guard_threshold (rs_info s)"
    by (simp add: orphan_guard_threshold_def note_sequence_number_def)
  have next': "wp (scan_messages env k now ms orphans' c') (page_scanned env k (m # ms) orphans s) (\<lambda>_ _. False) t"
    if "rs_info t = rs_info ?t"
      "orphans' = orphans @ (if orphaned (orphan_guard_threshold (rs_info s)) m then [m_seq m] else [])"
      "s_orphans_guarded (rs_stats t) =
        s_orphans_guarded (rs_stats s) @ (if guarded (orphan_guard_threshold (rs_info s)) m then [m_seq m] else [])"
    for orphans' c' t
    by (rule wp_imp [OF Cons.IH]) (use page_scanned_step [OF _ _ that(2,3)] that(1) threshold in auto)
  have warned: "s_orphans_guarded (warn key st) = s_orphans_guarded st" for key st by (simp add: warn_def)
  show ?case
  proof (cases "m_state m = ST_DEFERRED")
    case True
    then show ?thesis
      using threshold by (auto simp: wp_simps orphaned_def guarded_def intro!: next')
  next
    case False
    have stop: "page_scanned env k (m # ms) orphans s (orphans, c + 1, True) ?t"
      if "k \<le> c + 1" "\<not> is_partitioned (rs_info ?t)" "\<not> is_sub_queue (env_entity env)"
      using that False unfolding page_scanned_def prod.case
      by (intro exI [where x = "[m]"] exI [where x = ms]) (simp add: orphaned_def guarded_def)
    show ?thesis
      using False stop by (auto simp: wp_simps best_effort_def orphaned_def guarded_def warned intro!: next')
  qed
qed


end
