(* ===== verification/Management.thy ===== *)
theory Management
  imports Frames
begin

text \<open>
  The management-plane part of \<^verbatim>\<open>src/entity.py\<close>: the metadata pre-check of a run
  (\<^verbatim>\<open>load_entity_info\<close>), the names the list actions show and the probe of the connection test. The
  administration client is SDK code; its operations are the record \<open>admin\<close>.
\<close>

subsection \<open>The administration client\<close>

text \<open>The type the SDK gives a duration: a \<^verbatim>\<open>timedelta\<close> (in microseconds) or an ISO text.\<close>

datatype sdk_duration = Timedelta int | DurationText string

record queue_properties =
  qp_requires_session :: "bool option"
  qp_enable_partitioning :: "bool option"
  qp_lock_duration :: "sdk_duration option"
  qp_max_delivery_count :: "int option"

record runtime_properties =
  rp_active :: "int option"
  rp_dead_letter :: "int option"
  rp_scheduled :: "int option"
  rp_transfer_dead_letter :: "int option"

text \<open>\<open>adm_topic\<close> reads a topic's \<^verbatim>\<open>enable_partitioning\<close>; a subscription's runtime properties have no scheduled
  count and its properties no partitioning: those fields are not read.\<close>

record 'w admin =
  adm_client :: "(exn, 'w, handle) py"
  adm_close :: "handle \<Rightarrow> (exn, 'w, unit) py"
  adm_queue :: "handle \<Rightarrow> string \<Rightarrow> (exn, 'w, queue_properties) py"
  adm_queue_runtime :: "handle \<Rightarrow> string \<Rightarrow> (exn, 'w, runtime_properties) py"
  adm_subscription :: "handle \<Rightarrow> string \<Rightarrow> string \<Rightarrow> (exn, 'w, queue_properties) py"
  adm_topic :: "handle \<Rightarrow> string \<Rightarrow> (exn, 'w, bool option) py"
  adm_subscription_runtime :: "handle \<Rightarrow> string \<Rightarrow> string \<Rightarrow> (exn, 'w, runtime_properties) py"
  adm_list_queues :: "handle \<Rightarrow> (exn, 'w, string list) py"
  adm_list_topics :: "handle \<Rightarrow> (exn, 'w, string list) py"
  adm_list_subscriptions :: "handle \<Rightarrow> string \<Rightarrow> (exn, 'w, string list) py"
  adm_first_queue :: "handle \<Rightarrow> (exn, 'w, unit) py"

subsection \<open>Metadata\<close>

definition count_or_zero :: "int option \<Rightarrow> int" where
  "count_or_zero v = (case v of None \<Rightarrow> 0 | Some n \<Rightarrow> n)"

text \<open>\<^verbatim>\<open>props.max_delivery_count or 10\<close>\<close>

definition delivery_limit :: "int option \<Rightarrow> int" where
  "delivery_limit v = (case v of None \<Rightarrow> 10 | Some n \<Rightarrow> if n = 0 then 10 else n)"

definition lock_duration_of :: "sdk_duration option \<Rightarrow> int" where
  "lock_duration_of v = (case v of Some (Timedelta us) \<Rightarrow> us | _ \<Rightarrow> 60 * 1000000)"

definition load_queue_metadata :: "'w admin \<Rightarrow> handle \<Rightarrow> entity_ref \<Rightarrow> ('w, entity_info) run" where
  "load_queue_metadata adm h e =
     (let queue = or_empty (ref_queue_name e) in
      bnd (on_world (adm_queue adm h queue)) (\<lambda>props.
      bnd (on_world (adm_queue_runtime adm h queue)) (\<lambda>rt.
        ret \<lparr>requires_session = qp_requires_session props, partitioned = qp_enable_partitioning props,
             lock_duration = lock_duration_of (qp_lock_duration props),
             max_delivery_count = delivery_limit (qp_max_delivery_count props),
             counts = Some \<lparr>count_active = count_or_zero (rp_active rt), count_dead_letter = count_or_zero (rp_dead_letter rt),
               count_scheduled = count_or_zero (rp_scheduled rt),
               count_transfer_dead_letter = count_or_zero (rp_transfer_dead_letter rt)\<rparr>,
             seen_partitioned = False\<rparr>)))"

definition load_subscription_metadata :: "'w admin \<Rightarrow> handle \<Rightarrow> entity_ref \<Rightarrow> ('w, entity_info) run" where
  "load_subscription_metadata adm h e =
     (let topic = or_empty (ref_topic_name e); sub = or_empty (ref_subscription_name e) in
      bnd (on_world (adm_subscription adm h topic sub)) (\<lambda>props.
      bnd (on_world (adm_topic adm h topic)) (\<lambda>partitioning.
      bnd (on_world (adm_subscription_runtime adm h topic sub)) (\<lambda>rt.
        ret \<lparr>requires_session = qp_requires_session props, partitioned = partitioning,
             lock_duration = lock_duration_of (qp_lock_duration props),
             max_delivery_count = delivery_limit (qp_max_delivery_count props),
             counts = Some \<lparr>count_active = count_or_zero (rp_active rt), count_dead_letter = count_or_zero (rp_dead_letter rt),
               count_scheduled = 0, count_transfer_dead_letter = count_or_zero (rp_transfer_dead_letter rt)\<rparr>,
             seen_partitioned = False\<rparr>))))"

definition load_metadata :: "'w admin \<Rightarrow> handle \<Rightarrow> entity_ref \<Rightarrow> ('w, entity_info) run" where
  "load_metadata adm h e =
     (if ref_entity_type e = QUEUE then load_queue_metadata adm h e else load_subscription_metadata adm h e)"

definition with_admin :: "'w env \<Rightarrow> 'w admin \<Rightarrow> (handle \<Rightarrow> ('w, 'a) run) \<Rightarrow> ('w, 'a) run" where
  "with_admin env adm f =
     bnd (build_client env (adm_client adm)) (\<lambda>h. finally_py (f h) (on_world (adm_close adm h)))"

definition load_entity_info :: "'w env \<Rightarrow> 'w admin \<Rightarrow> ('w, entity_info) run" where
  "load_entity_info env adm =
     try_py (with_admin env adm (\<lambda>h. load_metadata adm h (env_entity env))) (\<lambda>e. ret default_entity_info)"

text \<open>\<^verbatim>\<open>log_entity_counts\<close>: the line it logs, none without counts.\<close>

definition entity_counts_line :: "entity_info \<Rightarrow> entity_ref \<Rightarrow> pystr option" where
  "entity_counts_line info e =
     (case counts info of
        None \<Rightarrow> None
      | Some c \<Rightarrow>
          Some (u ''Entity '' @ [39] @ u (entity_path e) @ [39] @ u '' holds '' @ str_of_int (count_active c) @ u '' active, '' @
                str_of_int (count_dead_letter c) @ u '' dead-lettered, '' @ str_of_int (count_scheduled c) @ u '' scheduled and '' @
                str_of_int (count_transfer_dead_letter c) @ u '' transfer-dead-lettered message(s).''))"

subsection \<open>Names and the probe\<close>

datatype list_kind = Queues | Topics | Subscriptions

fun list_kind_name :: "list_kind \<Rightarrow> string" where
  "list_kind_name Queues = ''queues''"
| "list_kind_name Topics = ''topics''"
| "list_kind_name Subscriptions = ''subscriptions''"

definition list_names :: "'w admin \<Rightarrow> list_kind \<Rightarrow> string option \<Rightarrow> handle \<Rightarrow> ('w, string list) run" where
  "list_names adm kind topic h =
     (case kind of
        Queues \<Rightarrow> on_world (adm_list_queues adm h)
      | Topics \<Rightarrow> on_world (adm_list_topics adm h)
      | Subscriptions \<Rightarrow> on_world (adm_list_subscriptions adm h (or_empty topic)))"

definition list_entity_names :: "'w env \<Rightarrow> 'w admin \<Rightarrow> list_kind \<Rightarrow> string option \<Rightarrow> ('w, string list) run" where
  "list_entity_names env adm kind topic =
     (if kind = Subscriptions \<and> or_empty topic = [] then raise (user_exception SelectTopicFirst None)
      else try_py (bnd (with_admin env adm (list_names adm kind topic)) (\<lambda>names. ret (sort names)))
        (\<lambda>e. if \<not> is_azure_error e then raise e
             else if is_management_denied e \<and> effective_auth_type (env_config env) = CONNECTION_STRING
             then raise (user_exception (ListingNeedsManage (list_kind_name kind) (with_details (env_text env) e (env_secrets env))) (Some e))
             else raise (user_exception (Mapped (mapped_kind_of e) topic (with_details (env_text env) e (env_secrets env))) (Some e))))"

definition probe_management :: "'w env \<Rightarrow> 'w admin \<Rightarrow> ('w, unit) run" where
  "probe_management env adm =
     try_py (with_admin env adm (\<lambda>h. on_world (adm_first_queue adm h)))
       (\<lambda>e. if \<not> is_azure_error e then raise e
            else if \<not> is_management_denied e
            then raise (user_exception (Mapped (mapped_kind_of e) None (with_details (env_text env) e (env_secrets env))) (Some e))
            else raise (user_exception (ManagementProbeDenied (effective_auth_type (env_config env)) (with_details (env_text env) e (env_secrets env))) (Some e)))"

subsection \<open>Properties\<close>

definition management_frame :: "'w run_state \<Rightarrow> 'w run_state \<Rightarrow> bool" where
  "management_frame s s' \<longleftrightarrow> (\<exists>w. s' = s\<lparr>rs_world := w\<rparr>)"

lemma management_frame_simps [simp]:
  "management_frame s s" "management_frame s (s\<lparr>rs_world := w\<rparr>)"
  by (auto simp: management_frame_def intro: exI [of _ "rs_world s"])

lemma management_frame_world: "management_frame s t \<Longrightarrow> management_frame s (t\<lparr>rs_world := w\<rparr>)"
  by (auto simp: management_frame_def)

lemma wp_build: "(\<And>h w. Q h (s\<lparr>rs_world := w\<rparr>)) \<Longrightarrow> (\<And>e w. E e (s\<lparr>rs_world := w\<rparr>)) \<Longrightarrow> wp (build_client env c) Q E s"
  by (cases "effective_auth_type (env_config env)")
    (auto simp: build_client_def client_secret_credential_def wp_simps wp_if intro!: wp_anything)

lemma wp_with_admin:
  assumes "\<And>h t. management_frame s t \<Longrightarrow> wp (f h) (\<lambda>x. management_frame s) (\<lambda>_. management_frame s) t"
  shows "wp (with_admin env adm f) (\<lambda>_. management_frame s) (\<lambda>_. management_frame s) s"
  unfolding with_admin_def wp_bnd wp_finally
  by (rule wp_build) (auto intro!: wp_imp [OF assms] wp_on_world_any management_frame_world)

lemma load_metadata_frame:
  "management_frame s t \<Longrightarrow> wp (load_metadata adm h e) (\<lambda>_. management_frame s) (\<lambda>_. management_frame s) t"
  by (auto simp: load_metadata_def load_queue_metadata_def load_subscription_metadata_def Let_def wp_simps
      intro!: wp_anything management_frame_world)

lemma wp_entity_info: "wp (load_entity_info env adm) (\<lambda>_. management_frame s) (\<lambda>_ _. False) s"
  unfolding load_entity_info_def wp_try wp_ret
  by (rule wp_with_admin) (rule load_metadata_frame)

lemma keeps_entity_info: "(\<And>s w. J s (s\<lparr>rs_world := w\<rparr>)) \<Longrightarrow> keeps J (load_entity_info env adm)"
  by (rule keepsI, rule wp_imp [OF wp_entity_info]) (auto simp: management_frame_def)

text \<open>The metadata pre-check never fails a run: whatever the management plane raises, it returns metadata, with a
  heuristic default when nothing could be read, and touches nothing of the run but the SDK.\<close>
theorem entity_info_never_fails:
  "\<exists>info w. load_entity_info env adm s = (Inr info, s\<lparr>rs_world := w\<rparr>)"
  using wp_entity_info [of env adm s] by (auto simp: wp_def management_frame_def split: prod.splits sum.splits)

end
