(* ===== verification/Receiver.thy ===== *)
theory Receiver
  imports Orphans Management
begin

text \<open>
  The receive loop of \<^verbatim>\<open>src/receiver.py\<close> (\<open>ReceiveLoop\<close>), one destructive run over the row's entity.
  The attributes of the object that its methods change are the record \<open>loop_vars\<close>; what it is built with
  is the record \<open>loop\<close>. \<^verbatim>\<open>while True\<close> is \<open>consume\<close> with fuel; the size of the projected output
  state is an operation of \<open>loop\<close>, because the component provides it: it reads the run and the clock.
\<close>

subsection \<open>Parameters and variables\<close>

datatype stop_reason = IDLE | MAX_MESSAGES | MAX_DURATION | WATERMARK | STATE_BUDGET | NO_MORE_SESSIONS
  | SESSION_REVISITED | END_OF_ENTITY | RECEIVE_STALLED

fun stop_name :: "stop_reason \<Rightarrow> string" where
  "stop_name IDLE = ''idle''"
| "stop_name MAX_MESSAGES = ''max_messages''"
| "stop_name MAX_DURATION = ''max_duration''"
| "stop_name WATERMARK = ''watermark''"
| "stop_name STATE_BUDGET = ''state_budget''"
| "stop_name NO_MORE_SESSIONS = ''no_more_sessions''"
| "stop_name SESSION_REVISITED = ''session_revisited''"
| "stop_name END_OF_ENTITY = ''end_of_entity''"
| "stop_name RECEIVE_STALLED = ''receive_stalled''"

definition partial_stops :: "stop_reason list" where
  "partial_stops = [MAX_MESSAGES, MAX_DURATION, RECEIVE_STALLED]"

definition DRAIN_WAIT_SECONDS :: int where "DRAIN_WAIT_SECONDS = 1"
definition CATCH_UP_POLL_SECONDS :: int where "CATCH_UP_POLL_SECONDS = 1"
definition MAX_EMPTY_RECEIVE_RETRIES :: nat where "MAX_EMPTY_RECEIVE_RETRIES = 5"
definition EMPTY_RECEIVE_BACKOFF_SECONDS :: "int list" where "EMPTY_RECEIVE_BACKOFF_SECONDS = [2, 4, 8, 16, 30]"
definition DRAIN_CHECK_PEEK_COUNT :: int where "DRAIN_CHECK_PEEK_COUNT = 250"
definition STATE_BUDGET_BYTES :: int where "STATE_BUDGET_BYTES = 256 * 1024"

record 'w loop =
  lp_env :: "'w env"
  lp_admin :: "'w admin"
  lp_t0 :: datetime
  lp_state_size :: "'w run_state \<Rightarrow> int \<times> 'w"

record loop_vars =
  lv_tracker :: recovery_tracker
  lv_client :: "handle option"
  lv_receiver :: "handle option"
  lv_received_on_receiver :: bool
  lv_session_id :: "string option"
  lv_seen_sessions :: "string set"
  lv_taken :: int
  lv_armed :: bool
  lv_deadline :: int
  lv_wait :: int
  lv_highest :: "int option"
  lv_empty_retries :: nat

type_synonym ('w, 'a) looping = "('w, loop_vars, 'a) run_with"

definition lp_limit :: "'w loop \<Rightarrow> int" where
  "lp_limit lp = max_messages (limits (env_config (lp_env lp)))"

definition lp_sessions :: "'w loop \<Rightarrow> bool" where
  "lp_sessions lp = session_enabled (source (env_config (lp_env lp)))"

definition lp_mode :: "'w loop \<Rightarrow> settlement_mode" where
  "lp_mode lp = mode_of (lp_env lp)"

definition lp_watermark :: "'w loop \<Rightarrow> bool" where
  "lp_watermark lp = stop_at_job_start (limits (env_config (lp_env lp)))"

definition lp_advanced :: "'w loop \<Rightarrow> advanced_config" where
  "lp_advanced lp = advanced (env_config (lp_env lp))"

definition initial_vars :: "'w loop \<Rightarrow> loop_vars" where
  "initial_vars lp =
     \<lparr>lv_tracker = new_tracker, lv_client = None, lv_receiver = None, lv_received_on_receiver = False,
      lv_session_id = None, lv_seen_sessions = {}, lv_taken = 0, lv_armed = False, lv_deadline = 0,
      lv_wait = seconds (idle_timeout_seconds (source (env_config (lp_env lp)))), lv_highest = None, lv_empty_retries = 0\<rparr>"

text \<open>\<^verbatim>\<open>_RECEIVE_MODES\<close>; peek mode has no entry and the constructor refuses it (see \<open>receive_loop\<close>).\<close>

definition loop_receive_mode :: "settlement_mode \<Rightarrow> receive_mode" where
  "loop_receive_mode m = (if m = RECEIVE_AND_DELETE then MODE_RECEIVE_AND_DELETE else PEEK_LOCK)"

subsection \<open>Receiving and processing\<close>

definition loop_client :: "'w loop \<Rightarrow> ('w, handle) looping" where
  "loop_client lp =
     bnd (var lv_client) (\<lambda>c. case c of
        Some h \<Rightarrow> ret h
      | None \<Rightarrow> bnd (in_run (data_client (lp_env lp) ReceiveClient)) (\<lambda>h.
                  bnd (set_var (\<lambda>v. v\<lparr>lv_client := Some h\<rparr>)) (\<lambda>_. ret h)))"

definition open_loop_receiver :: "'w loop \<Rightarrow> handle \<Rightarrow> bool \<Rightarrow> ('w, handle) looping" where
  "open_loop_receiver lp client session =
     bnd (var lv_wait) (\<lambda>wait.
     bnd (in_run (open_receiver (lp_env lp) (receiver_profile (lp_env lp) client (loop_receive_mode (lp_mode lp))
            (prefetch_count (lp_advanced lp)) (if session then Some wait else None)))) (\<lambda>h.
     bnd (in_run (enter_receiver (lp_env lp) h)) (\<lambda>h.
     bnd (set_var (\<lambda>v. v\<lparr>lv_received_on_receiver := False\<rparr>)) (\<lambda>_. ret h))))"

definition note_all :: "message list \<Rightarrow> ('w, unit) run" where
  "note_all ms = modify (\<lambda>s. s\<lparr>rs_info := fold (\<lambda>m. note_sequence_number (m_seq m)) ms (rs_info s)\<rparr>)"

definition receive_batch :: "'w loop \<Rightarrow> handle \<Rightarrow> int \<Rightarrow> int \<Rightarrow> ('w, message list) looping" where
  "receive_batch lp h n wait =
     bnd (set_var (\<lambda>v. v\<lparr>lv_received_on_receiver := True\<rparr>)) (\<lambda>_.
     bnd (in_run (on_world (sdk_receive (env_sdk (lp_env lp)) h n wait))) (\<lambda>ms.
     bnd (in_run (note_all ms)) (\<lambda>_.
     bnd (var lv_armed) (\<lambda>armed.
     bnd (when_py (ms \<noteq> [] \<and> lp_mode lp = RECEIVE_AND_DELETE \<and> \<not> armed)
            (bnd (in_run arm_output) (\<lambda>_. set_var (\<lambda>v. v\<lparr>lv_armed := True\<rparr>)))) (\<lambda>_. ret ms)))))"

definition renew_loop_session :: "'w loop \<Rightarrow> handle \<Rightarrow> ('w, unit) run" where
  "renew_loop_session lp h =
     when_py (lp_sessions lp) (bnd (clock (lp_env lp)) (renew_session_if_needed (lp_env lp) h))"

definition abandon_drained :: "'w loop \<Rightarrow> handle \<Rightarrow> message \<Rightarrow> ('w, unit) run" where
  "abandon_drained lp h m =
     bnd (safe_settle (bnd (trace (EvAbandon (m_seq m))) (\<lambda>_. on_world (sdk_abandon (env_sdk (lp_env lp)) h m)))) (\<lambda>_. ret ())"

definition tracker_progress :: "('w, unit) looping" where
  "tracker_progress = set_var (\<lambda>v. v\<lparr>lv_tracker := note_progress (lv_tracker v)\<rparr>)"

definition stop_drain :: "'w loop \<Rightarrow> handle \<Rightarrow> bool \<Rightarrow> ('w, unit) looping" where
  "stop_drain lp h failing =
     bnd (var lv_received_on_receiver) (\<lambda>received.
       when_py received
         (try_py
           (bnd (in_run (renew_loop_session lp h)) (\<lambda>_.
            bnd (receive_batch lp h (prefetch_count (lp_advanced lp) + 1) (seconds DRAIN_WAIT_SECONDS)) (\<lambda>drained.
              if drained = [] then ret ()
              else if lp_mode lp = RECEIVE_AND_DELETE
              then bnd (var (rt_generation \<circ> lv_tracker)) (\<lambda>g.
                   bnd (in_run (process_batch (lp_env lp) h drained g)) (\<lambda>_. ret ()))
              else in_run (for_each (abandon_drained lp h) drained))))
           (\<lambda>e. if is_user_exception e \<and> \<not> failing then raise e else ret ())))"

definition process_received :: "'w loop \<Rightarrow> handle \<Rightarrow> message list \<Rightarrow> ('w, batch_result) looping" where
  "process_received lp h ms =
     bnd (in_run (gets (s_written \<circ> rs_stats))) (\<lambda>written.
     bnd (var (rt_generation \<circ> lv_tracker)) (\<lambda>g.
     bnd (finally_py
            (try_py (in_run (process_batch (lp_env lp) h ms g))
               (\<lambda>e. if is_user_exception e then bnd (stop_drain lp h True) (\<lambda>_. raise e) else raise e))
            (bnd (in_run (gets (s_written \<circ> rs_stats))) (\<lambda>now. when_py (written < now) tracker_progress))) (\<lambda>r.
     bnd (when_py (br_progressed r) tracker_progress) (\<lambda>_.
     bnd (set_var (\<lambda>v. v\<lparr>lv_taken := lv_taken v + (int (length ms) - int (length (br_retried r))),
                        lv_highest := Some (foldl max (case lv_highest v of None \<Rightarrow> 0 | Some q \<Rightarrow> q) (map m_seq ms))\<rparr>)) (\<lambda>_.
       ret r)))))"

subsection \<open>Closing and recovering\<close>

definition close_option :: "'w env \<Rightarrow> handle option \<Rightarrow> ('w, unit) run" where
  "close_option env h = (case h of None \<Rightarrow> ret () | Some h \<Rightarrow> close_quietly env h)"

definition finish_session :: "'w loop \<Rightarrow> ('w, unit) looping" where
  "finish_session lp =
     bnd (var lv_receiver) (\<lambda>h.
     bnd (set_var (\<lambda>v. v\<lparr>lv_receiver := None, lv_session_id := None\<rparr>)) (\<lambda>_.
       in_run (close_option (lp_env lp) h)))"

definition close_loop :: "'w loop \<Rightarrow> bool \<Rightarrow> ('w, unit) looping" where
  "close_loop lp interrupted =
     bnd (var lv_session_id) (\<lambda>sid.
     bnd (set_var (\<lambda>v. case sid of
            Some q \<Rightarrow> if interrupted then v\<lparr>lv_seen_sessions := lv_seen_sessions v - {q}\<rparr> else v
          | None \<Rightarrow> v)) (\<lambda>_.
     bnd (var lv_receiver) (\<lambda>h.
     bnd (var lv_client) (\<lambda>c.
     bnd (set_var (\<lambda>v. v\<lparr>lv_receiver := None, lv_client := None, lv_session_id := None\<rparr>)) (\<lambda>_.
     bnd (in_run (close_option (lp_env lp) h)) (\<lambda>_.
       in_run (close_option (lp_env lp) c)))))))"

definition track_failure :: "'w loop \<Rightarrow> exn \<Rightarrow> ('w, unit) looping" where
  "track_failure lp e =
     bnd (var lv_tracker) (\<lambda>t.
       case note_failure (lp_env lp) e t of
         Inl e' \<Rightarrow> raise e'
       | Inr t' \<Rightarrow> set_var (\<lambda>v. v\<lparr>lv_tracker := t'\<rparr>))"

definition recover :: "'w loop \<Rightarrow> exn \<Rightarrow> ('w, unit) looping" where
  "recover lp e =
     bnd (close_loop lp True) (\<lambda>_.
     bnd (track_failure lp e) (\<lambda>_.
     bnd (var (rt_count \<circ> lv_tracker)) (\<lambda>n.
       in_run (on_stats (\<lambda>st. st\<lparr>s_recoveries := n\<rparr>)))))"

subsection \<open>One step\<close>

definition state_size :: "'w loop \<Rightarrow> ('w, int) run" where
  "state_size lp s = (case lp_state_size lp s of (n, w) \<Rightarrow> (Inr n, s\<lparr>rs_world := w\<rparr>))"

lemma wp_state_size [wp_simps]:
  "wp (state_size lp) Q E s = (case lp_state_size lp s of (n, w) \<Rightarrow> Q n (s\<lparr>rs_world := w\<rparr>))"
  by (simp add: state_size_def wp_def split: prod.split)

definition stop_check :: "'w loop \<Rightarrow> int option \<Rightarrow> ('w, stop_reason option) looping" where
  "stop_check lp catch_up_until =
     bnd (var lv_taken) (\<lambda>taken.
       if 0 < lp_limit lp \<and> lp_limit lp \<le> taken then ret (Some MAX_MESSAGES)
       else bnd (in_run (monotonic (lp_env lp))) (\<lambda>now.
            bnd (var lv_deadline) (\<lambda>deadline.
              if deadline \<le> now then ret (Some MAX_DURATION)
              else bnd (if lp_mode lp = DEFER_COMMIT
                        then bnd (in_run (state_size lp)) (\<lambda>n. ret (STATE_BUDGET_BYTES \<le> n)) else ret False) (\<lambda>full.
                if full then bnd (in_run (on_stats (warn ''state_budget''))) (\<lambda>_. ret (Some STATE_BUDGET))
                else (case catch_up_until of
                  None \<Rightarrow> ret None
                | Some t \<Rightarrow> ret (if t \<le> now then Some (if lp_sessions lp then NO_MORE_SESSIONS else IDLE) else None))))))"

definition batch_count :: "'w loop \<Rightarrow> int \<Rightarrow> int" where
  "batch_count lp taken =
     (if 0 < lp_limit lp then min (batch_size (lp_advanced lp)) (lp_limit lp - taken) else batch_size (lp_advanced lp))"

definition open_next :: "'w loop \<Rightarrow> int option \<Rightarrow> ('w, stop_reason option) looping" where
  "open_next lp catch_up_until =
     bnd (loop_client lp) (\<lambda>client.
       if \<not> lp_sessions lp then
         bnd (open_loop_receiver lp client False) (\<lambda>h.
         bnd (set_var (\<lambda>v. v\<lparr>lv_receiver := Some h\<rparr>)) (\<lambda>_. ret None))
       else
         bnd (try_py (bnd (open_loop_receiver lp client True) (\<lambda>h. ret (Some h)))
               (\<lambda>e. if has_sb_class [OperationTimeoutError] e then ret None else raise e)) (\<lambda>opened.
           case opened of
             None \<Rightarrow>
               (if catch_up_until = None then ret (Some NO_MORE_SESSIONS)
                else bnd (in_run (sleep (lp_env lp) (seconds CATCH_UP_POLL_SECONDS))) (\<lambda>_. ret None))
           | Some h \<Rightarrow>
               bnd (set_var (\<lambda>v. v\<lparr>lv_receiver := Some h\<rparr>)) (\<lambda>_.
               bnd (in_run (gets (\<lambda>s. sdk_session_id (env_sdk (lp_env lp)) h (rs_world s)))) (\<lambda>sid.
               bnd (var lv_seen_sessions) (\<lambda>seen.
                 if sid \<in> seen then bnd (stop_drain lp h False) (\<lambda>_. ret (Some SESSION_REVISITED))
                 else bnd (set_var (\<lambda>v. v\<lparr>lv_seen_sessions := insert sid (lv_seen_sessions v), lv_session_id := Some sid\<rparr>)) (\<lambda>_.
                        ret None))))))"

text \<open>One peek page of what a receive would still hand out, on a receiver of its own.\<close>

definition receivable :: "'w loop \<Rightarrow> datetime \<Rightarrow> message \<Rightarrow> bool" where
  "receivable lp now m \<longleftrightarrow>
     m_state m \<noteq> ST_DEFERRED \<and> \<not> is_pending_activation m \<and>
     (case m_expires_at m of None \<Rightarrow> True | Some t \<Rightarrow> now \<le> t) \<and>
     \<not> (lp_watermark lp \<and> after_watermark (lp_t0 lp) m)"

definition peek_start :: "entity_info \<Rightarrow> int option \<Rightarrow> int" where
  "peek_start info highest = (if is_partitioned info then 0 else (case highest of None \<Rightarrow> 0 | Some q \<Rightarrow> q) + 1)"

definition receivable_messages :: "'w loop \<Rightarrow> ('w, message list) looping" where
  "receivable_messages lp =
     bnd (loop_client lp) (\<lambda>client.
     bnd (in_run (clock (lp_env lp))) (\<lambda>now.
     bnd (in_run (gets rs_info)) (\<lambda>info.
     bnd (var lv_highest) (\<lambda>highest.
     bnd (in_run (open_receiver (lp_env lp) (receiver_profile (lp_env lp) client PEEK_LOCK 1 None))) (\<lambda>h.
     bnd (in_run (enter_receiver (lp_env lp) h)) (\<lambda>h.
     bnd (in_run (finally_py (on_world (sdk_peek (env_sdk (lp_env lp)) h DRAIN_CHECK_PEEK_COUNT (peek_start info highest)))
            (close_quietly (lp_env lp) h))) (\<lambda>page.
       ret (filter (receivable lp now) page))))))))"

text \<open>\<open>n\<close> is the number of consecutive empty receives so far, this one included.\<close>

definition empty_backoff :: "nat \<Rightarrow> int" where
  "empty_backoff n = EMPTY_RECEIVE_BACKOFF_SECONDS ! (min n (length EMPTY_RECEIVE_BACKOFF_SECONDS) - 1)"

definition retry_empty_receive :: "'w loop \<Rightarrow> ('w, stop_reason option) looping" where
  "retry_empty_receive lp =
     bnd (set_var (\<lambda>v. v\<lparr>lv_empty_retries := lv_empty_retries v + 1\<rparr>)) (\<lambda>_.
     bnd (var lv_empty_retries) (\<lambda>n.
       if MAX_EMPTY_RECEIVE_RETRIES < n then ret (Some RECEIVE_STALLED)
       else bnd (in_run (on_stats (\<lambda>st. st\<lparr>s_empty_receive_retries := s_empty_receive_retries st + 1\<rparr>))) (\<lambda>_.
            bnd (close_loop lp False) (\<lambda>_.
            bnd (in_run (monotonic (lp_env lp))) (\<lambda>now.
            bnd (var lv_deadline) (\<lambda>deadline.
            bnd (in_run (sleep (lp_env lp) (min (seconds (empty_backoff n)) (max 0 (deadline - now))))) (\<lambda>_. ret None)))))))"

definition on_empty :: "'w loop \<Rightarrow> int option \<Rightarrow> ('w, stop_reason option) looping" where
  "on_empty lp catch_up_until =
     (if lp_sessions lp then bnd (finish_session lp) (\<lambda>_. ret None)
      else if catch_up_until \<noteq> None
      then bnd (in_run (sleep (lp_env lp) (seconds CATCH_UP_POLL_SECONDS))) (\<lambda>_. ret None)
      else bnd (receivable_messages lp) (\<lambda>left.
             if left = [] then ret (Some IDLE) else retry_empty_receive lp))"

definition is_watermark_batch :: "'w loop \<Rightarrow> message list \<Rightarrow> bool" where
  "is_watermark_batch lp ms =
     (let considered = filter (\<lambda>m. m_state m \<noteq> ST_SCHEDULED) ms in
      considered \<noteq> [] \<and> list_all (after_watermark (lp_t0 lp)) considered)"

definition on_watermark :: "'w loop \<Rightarrow> handle \<Rightarrow> ('w, stop_reason option) looping" where
  "on_watermark lp h =
     bnd (in_run (gets (is_partitioned \<circ> rs_info))) (\<lambda>part.
     bnd (when_py part (in_run (on_stats (warn ''watermark_approximate'')))) (\<lambda>_.
     bnd (stop_drain lp h False) (\<lambda>_.
       if lp_sessions lp then bnd (finish_session lp) (\<lambda>_. ret None) else ret (Some WATERMARK))))"

definition receive_and_process :: "'w loop \<Rightarrow> int option \<Rightarrow> handle \<Rightarrow> ('w, stop_reason option) looping" where
  "receive_and_process lp catch_up_until h =
     bnd (in_run (renew_loop_session lp h)) (\<lambda>_.
     bnd (var lv_taken) (\<lambda>taken.
     bnd (var lv_wait) (\<lambda>wait.
     bnd (receive_batch lp h (batch_count lp taken) wait) (\<lambda>ms.
       if ms = [] then on_empty lp catch_up_until
       else bnd (set_var (\<lambda>v. v\<lparr>lv_empty_retries := 0\<rparr>)) (\<lambda>_.
            bnd (process_received lp h ms) (\<lambda>r.
              if lp_watermark lp \<and> is_watermark_batch lp ms then on_watermark lp h
              else if br_needs_recycle r then
                bnd (close_loop lp True) (\<lambda>_.
                bnd (set_var (\<lambda>v. v\<lparr>lv_tracker := note_retry (lv_tracker v)\<rparr>)) (\<lambda>_.
                bnd (in_run (on_stats (\<lambda>st. st\<lparr>s_unreadable_recycles := s_unreadable_recycles st + 1\<rparr>))) (\<lambda>_.
                  ret None)))
              else ret None))))))"

definition step :: "'w loop \<Rightarrow> int option \<Rightarrow> ('w, stop_reason option) looping" where
  "step lp catch_up_until =
     bnd (var lv_receiver) (\<lambda>receiver.
     bnd (stop_check lp catch_up_until) (\<lambda>stop.
       case stop of
         Some reason \<Rightarrow>
           bnd (case receiver of None \<Rightarrow> ret () | Some h \<Rightarrow> stop_drain lp h False) (\<lambda>_. ret (Some reason))
       | None \<Rightarrow>
           (case receiver of
              None \<Rightarrow> open_next lp catch_up_until
            | Some h \<Rightarrow> receive_and_process lp catch_up_until h)))"

definition guarded_step :: "'w loop \<Rightarrow> int option \<Rightarrow> ('w, stop_reason option) looping" where
  "guarded_step lp catch_up_until =
     try_py (step lp catch_up_until)
       (\<lambda>e. if is_user_exception e then raise e
            else if lp_sessions lp \<and> has_sb_class [SessionCannotBeLockedError] e
            then bnd (finish_session lp) (\<lambda>_. ret None)
            else bnd (recover lp e) (\<lambda>_. ret None))"

subsection \<open>The loop\<close>

text \<open>\<^verbatim>\<open>None\<close>: the fuel ran out before a stop.\<close>

fun consume :: "'w loop \<Rightarrow> nat \<Rightarrow> int option \<Rightarrow> ('w, stop_reason option) looping" where
  "consume lp 0 catch_up_until = ret None"
| "consume lp (Suc fuel) catch_up_until =
     bnd (guarded_step lp catch_up_until) (\<lambda>r. case r of
       Some reason \<Rightarrow> ret (Some reason)
     | None \<Rightarrow> consume lp fuel catch_up_until)"

definition catch_up_due :: "'w loop \<Rightarrow> stop_reason \<Rightarrow> nat \<Rightarrow> bool" where
  "catch_up_due lp reason recoveries \<longleftrightarrow>
     0 < recovery_wait_seconds (lp_advanced lp) \<and> 0 < recoveries \<and> (reason = IDLE \<or> reason = NO_MORE_SESSIONS)"

definition catch_up :: "'w loop \<Rightarrow> nat \<Rightarrow> ('w, stop_reason option) looping" where
  "catch_up lp fuel =
     bnd (in_run (monotonic (lp_env lp))) (\<lambda>now.
     bnd (var lv_deadline) (\<lambda>deadline.
     bnd (set_var (\<lambda>v. v\<lparr>lv_wait := seconds CATCH_UP_POLL_SECONDS\<rparr>)) (\<lambda>_.
       consume lp fuel (Some (min (now + seconds (recovery_wait_seconds (lp_advanced lp))) deadline)))))"

text \<open>\<^verbatim>\<open>_remaining_by_count\<close> and \<^verbatim>\<open>_warn_if_messages_remain\<close>: whether the warning is raised.\<close>

definition remaining_by_count :: "'w loop \<Rightarrow> stop_reason \<Rightarrow> ('w, bool) run" where
  "remaining_by_count lp reason =
     (if lp_mode lp = DEFER_COMMIT then ret False
      else if reason = NO_MORE_SESSIONS \<and> lp_watermark lp then ret False
      else if reason \<notin> set partial_stops \<and> reason \<noteq> NO_MORE_SESSIONS then ret False
      else bnd (load_entity_info (lp_env lp) (lp_admin lp)) (\<lambda>info.
             ret (case counts info of None \<Rightarrow> False | Some c \<Rightarrow> count_active c \<noteq> 0)))"

definition warn_if_messages_remain :: "'w loop \<Rightarrow> stop_reason \<Rightarrow> ('w, unit) looping" where
  "warn_if_messages_remain lp reason =
     bnd (try_py
            (if lp_sessions lp then in_run (remaining_by_count lp reason)
             else if reason \<in> set partial_stops then bnd (receivable_messages lp) (\<lambda>left. ret (left \<noteq> []))
             else ret False)
            (\<lambda>e. ret False)) (\<lambda>remain.
       when_py remain (in_run (on_stats (warn ''messages_remaining''))))"

definition loop_body :: "'w loop \<Rightarrow> nat \<Rightarrow> ('w, stop_reason option) looping" where
  "loop_body lp fuel =
     bnd (consume lp fuel None) (\<lambda>r. case r of
       None \<Rightarrow> ret None
     | Some reason \<Rightarrow>
         bnd (var (rt_count \<circ> lv_tracker)) (\<lambda>recoveries.
         bnd (if catch_up_due lp reason recoveries then catch_up lp fuel else ret (Some reason)) (\<lambda>r. case r of
           None \<Rightarrow> ret None
         | Some reason \<Rightarrow> bnd (warn_if_messages_remain lp reason) (\<lambda>_. ret (Some reason)))))"

definition run_loop :: "'w loop \<Rightarrow> nat \<Rightarrow> ('w, stop_reason option) looping" where
  "run_loop lp fuel =
     bnd (in_run (monotonic (lp_env lp))) (\<lambda>now.
     bnd (set_var (\<lambda>v. v\<lparr>lv_deadline := now + seconds (max_duration_seconds (lp_advanced lp))\<rparr>)) (\<lambda>_.
     bnd (finally_py (loop_body lp fuel) (close_loop lp False)) (\<lambda>r.
     bnd (case r of None \<Rightarrow> ret () | Some reason \<Rightarrow> in_run (on_stats (\<lambda>st. st\<lparr>s_stop_reason := stop_name reason\<rparr>))) (\<lambda>_.
       ret r))))"

definition receive_loop :: "'w loop \<Rightarrow> nat \<Rightarrow> ('w, stop_reason option) run" where
  "receive_loop lp fuel =
     (if lp_mode lp = PEEK then raise (builtin ''ValueError'') else run_vars (initial_vars lp) (run_loop lp fuel))"

end
