(* ===== verification/Loop_Facts.thy ===== *)
theory Loop_Facts
  imports Receiver
begin

text \<open>
  What the receive loop guarantees. The locale \<open>loop_frame\<close> lifts a guarantee of the loop's parts to the whole
  loop; it is interpreted three times: for the order of writing and settling, for the order of arming and
  writing in receive-and-delete mode, and for the clock, from which follows that the loop ends. The locale
  \<open>world_frame\<close> does the same for the batch processor and guarantees about the SDK's state. The last part shows
  on a sample entity what the drain check does not see.
\<close>

locale loop_frame = run: run_frame R W "lp_env lp" + all: frame J
  for R :: "'w run_state \<Rightarrow> 'w run_state \<Rightarrow> bool" and W and lp :: "'w loop" and J +
  fixes P :: "loop_vars \<Rightarrow> 'p" and Rdy :: "message list \<Rightarrow> 'w run_state \<times> loop_vars \<Rightarrow> bool"
  assumes run_related: "R s s' \<Longrightarrow> J (s, v) (s', v)"
    and unrelated: "(\<And>v. P (f v) = P v) \<Longrightarrow> keeps J (set_var f)"
    and size: "W (rs_world s) (snd (lp_state_size lp s))"
    and drain: "keeps J (stop_drain lp h failing)"
    and receives: "wp (receive_batch lp h (batch_count lp (lv_taken (snd sx))) wait)
      (\<lambda>ms t. J sx t \<and> (ms \<noteq> [] \<longrightarrow> Rdy ms t)) (\<lambda>_. J sx) sx"
    and ready: "Rdy ms t \<Longrightarrow> wp (process_received lp h ms) (\<lambda>_. J t) (\<lambda>_. J t) t"
    and ready_vars: "Rdy ms (s, v) \<Longrightarrow> Rdy ms (s, v\<lparr>lv_empty_retries := 0\<rparr>)"
    and free: "P (v\<lparr>lv_client := c\<rparr>) = P v" "P (v\<lparr>lv_receiver := c\<rparr>) = P v" "P (v\<lparr>lv_received_on_receiver := b\<rparr>) = P v"
      "P (v\<lparr>lv_session_id := i\<rparr>) = P v" "P (v\<lparr>lv_seen_sessions := ss\<rparr>) = P v" "P (v\<lparr>lv_tracker := tr\<rparr>) = P v"
      "P (v\<lparr>lv_wait := n\<rparr>) = P v" "P (v\<lparr>lv_empty_retries := r\<rparr>) = P v"
begin

lemma keeps_var: "keeps J (var f)"
  by (simp add: keeps_def wp_simps all.frame_refl)

lemma lift: "keeps R m \<Longrightarrow> keeps J (in_run m)"
  by (rule keepsI, unfold wp_in_run, rule wp_imp [OF keepsD], assumption) (metis prod.collapse run_related)+

lemmas basic = all.keeps_rules keeps_var lift run.keeps_basic run.keeps_links

lemma keeps_loop_client: "keeps J (loop_client lp)"
  unfolding loop_client_def by (intro basic unrelated) (simp_all add: free)

lemma keeps_open_loop: "keeps J (open_loop_receiver lp client session)"
  unfolding open_loop_receiver_def by (intro basic unrelated) (simp_all add: free)

lemma keeps_close_option: "keeps R (close_option (lp_env lp) h)"
  unfolding close_option_def by (intro basic)

lemma keeps_finish: "keeps J (finish_session lp)"
  unfolding finish_session_def by (intro basic unrelated keeps_close_option) (simp_all add: free)

lemma keeps_close_loop: "keeps J (close_loop lp b)"
  unfolding close_loop_def by (intro basic unrelated keeps_close_option) (simp_all add: free split: option.split)

lemma keeps_recover: "keeps J (recover lp e)"
proof -
  have "keeps J (track_failure lp e)"
    unfolding track_failure_def by (intro basic unrelated) (auto simp: free intro!: basic unrelated split: sum.split)
  then show ?thesis unfolding recover_def by (intro basic keeps_close_loop)
qed

lemma keeps_state_size: "keeps R (state_size lp)"
  by (auto simp: keeps_def wp_simps intro: run.frame_world split: prod.split) (metis run.frame_world size snd_conv)

lemma keeps_stop_check: "keeps J (stop_check lp c)"
  unfolding stop_check_def by (intro basic unrelated keeps_state_size)

lemma keeps_open_next: "keeps J (open_next lp c)"
  unfolding open_next_def by (intro basic unrelated keeps_loop_client keeps_open_loop drain) (simp_all add: free)

lemma keeps_receivable: "keeps J (receivable_messages lp)"
  unfolding receivable_messages_def by (intro basic keeps_loop_client)

lemma keeps_on_empty: "keeps J (on_empty lp c)"
  unfolding on_empty_def retry_empty_receive_def
  by (intro basic unrelated keeps_receivable keeps_close_loop keeps_finish) (simp_all add: free)

lemma keeps_on_watermark: "keeps J (on_watermark lp h)"
  unfolding on_watermark_def by (intro basic drain keeps_finish)

lemma keeps_renew: "keeps R (renew_loop_session lp h)"
  unfolding renew_loop_session_def by (intro basic)

lemma keeps_receive_and_process: "keeps J (receive_and_process lp c h)"
proof -
  have after: "keeps J (if lp_watermark lp \<and> is_watermark_batch lp ms then on_watermark lp h
      else if br_needs_recycle r then
        bnd (close_loop lp True) (\<lambda>_.
        bnd (set_var (\<lambda>v. v\<lparr>lv_tracker := note_retry (lv_tracker v)\<rparr>)) (\<lambda>_.
        bnd (in_run (on_stats (\<lambda>st. st\<lparr>s_unreadable_recycles := s_unreadable_recycles st + 1\<rparr>))) (\<lambda>_. ret None)))
      else ret None)" for ms r
    by (intro basic unrelated keeps_on_watermark keeps_close_loop) (simp_all add: free)
  have processed: "wp (bnd (set_var (\<lambda>v. v\<lparr>lv_empty_retries := 0\<rparr>)) (\<lambda>_. bnd (process_received lp h ms) k)) (\<lambda>_. J sx) (\<lambda>_. J sx) t"
    if t: "J sx t" "Rdy ms t" and k: "\<And>r. keeps J (k r)" for ms k sx t
  proof -
    have same: "J t (fst t, (snd t)\<lparr>lv_empty_retries := 0\<rparr>)"
      using unrelated [of "\<lambda>v. v\<lparr>lv_empty_retries := 0\<rparr>"] by (cases t) (simp add: keeps_def wp_simps free)
    have "Rdy ms (fst t, (snd t)\<lparr>lv_empty_retries := 0\<rparr>)" using ready_vars t(2) by (cases t) simp
    from ready [OF this] show ?thesis
      unfolding wp_bnd wp_set_var
      by (rule wp_imp) (use same t(1) in \<open>auto intro!: all.keeps_then [OF k] intro: all.frame_trans\<close>)
  qed
  have received: "wp (bnd (receive_batch lp h (batch_count lp (lv_taken (snd sx))) wait) (\<lambda>ms.
      if ms = [] then on_empty lp c
      else bnd (set_var (\<lambda>v. v\<lparr>lv_empty_retries := 0\<rparr>)) (\<lambda>_. bnd (process_received lp h ms) (k ms))))
      (\<lambda>_. J sx) (\<lambda>_. J sx) sx" if "\<And>ms r. keeps J (k ms r)" for k sx wait
    unfolding wp_bnd [of "receive_batch lp h n wait" for n]
    by (rule wp_imp [OF receives]) (use that in \<open>auto simp: wp_if intro!: all.keeps_then [OF keeps_on_empty] processed\<close>)
  show ?thesis
    unfolding receive_and_process_def
    apply (rule all.keeps_bnd)
     apply (intro basic keeps_renew)
    apply (rule keepsI)
    unfolding wp_bnd [of "var f" for f] wp_var
    by (rule received) (rule after)
qed

lemma keeps_step: "keeps J (step lp c)"
  unfolding step_def by (intro basic keeps_stop_check drain keeps_open_next keeps_receive_and_process)

lemma keeps_guarded: "keeps J (guarded_step lp c)"
  unfolding guarded_step_def by (intro basic keeps_step keeps_finish keeps_recover)

lemma keeps_consume: "keeps J (consume lp n c)"
proof (induction n)
  case 0
  then show ?case unfolding consume.simps by (rule all.keeps_ret)
next
  case (Suc n)
  show ?case unfolding consume.simps by (intro basic keeps_guarded Suc.IH)
qed

lemma keeps_run_loop:
  assumes "\<And>v d. P (v\<lparr>lv_deadline := d\<rparr>) = P v" and "keeps R (load_entity_info (lp_env lp) (lp_admin lp))"
  shows "keeps J (run_loop lp n)"
proof -
  have "keeps R (remaining_by_count lp reason)" for reason
    unfolding remaining_by_count_def by (intro basic assms(2))
  then show ?thesis
    unfolding run_loop_def loop_body_def catch_up_def warn_if_messages_remain_def
    by (intro basic unrelated keeps_consume keeps_close_loop keeps_receivable) (simp_all add: free assms(1))
qed

end


subsection \<open>Writing before settling\<close>

lemma traced_arm: "keeps batch_trace arm_output"
proof -
  have "keeps batch_trace (trace EvArm)" by (simp add: keeps_def wp_simps batch_trace_def)
  moreover have "keeps batch_trace (on_output m)" for m
    by (rule keepsI, unfold wp_on_output, rule wp_anything) (simp_all add: batch_trace_def)
  ultimately show ?thesis unfolding arm_output_def by (intro traced.keeps_basic)
qed

lemma traced_receive: "keeps (pair_frame batch_trace) (receive_batch lp h n wait)"
  unfolding receive_batch_def note_all_def by (intro traced.keeps_vars traced.keeps_basic traced_arm)

lemma traced_drain: "keeps (pair_frame batch_trace) (stop_drain lp h failing)"
  unfolding stop_drain_def renew_loop_session_def abandon_drained_def safe_settle_def
  by (intro traced.keeps_vars traced.keeps_basic traced.keeps_links traced_receive traced_process) (auto intro: traced_event)

text \<open>The trace grows as a batch's does, and the loop never forgets that it armed the output.\<close>

definition armed_frame :: "'w run_state \<times> loop_vars \<Rightarrow> 'w run_state \<times> loop_vars \<Rightarrow> bool" where
  "armed_frame sx sx' \<longleftrightarrow> batch_trace (fst sx) (fst sx') \<and> (lv_armed (snd sx) \<longrightarrow> lv_armed (snd sx'))"

lemma frame_armed: "frame armed_frame"
  by unfold_locales (auto simp: armed_frame_def intro: batch_trace_trans)

lemma armed_run_state: "batch_trace s s' \<Longrightarrow> armed_frame (s, v) (s', v)"
  by (simp add: armed_frame_def)

lemma armed_run: "keeps batch_trace m \<Longrightarrow> keeps armed_frame (in_run m)"
  by (auto simp: keeps_def wp_simps armed_frame_def elim: wp_mono)

lemma armed_vars: "(\<And>v. lv_armed v \<Longrightarrow> lv_armed (f v)) \<Longrightarrow> keeps armed_frame (set_var f)" "keeps armed_frame (var g)"
  by (simp_all add: keeps_def wp_simps armed_frame_def)

lemmas armed_rules = frame.keeps_rules [OF frame_armed] armed_run armed_vars traced.keeps_basic traced.keeps_links traced_process

lemma armed_receive: "keeps armed_frame (receive_batch lp h n wait)"
  unfolding receive_batch_def note_all_def by (intro armed_rules traced_arm) auto

lemma armed_drain: "keeps armed_frame (stop_drain lp h failing)"
  unfolding stop_drain_def renew_loop_session_def abandon_drained_def safe_settle_def
  by (intro armed_rules armed_receive) (auto intro: traced_event)

lemma armed_process: "keeps armed_frame (process_received lp h ms)"
  unfolding process_received_def tracker_progress_def
  by (intro armed_rules armed_drain) auto

interpretation traced_loop: loop_frame batch_trace "\<lambda>_ _. True" lp armed_frame lv_armed "\<lambda>_ _. True" for lp :: "'w loop"
  by unfold_locales (auto simp: keepsD [OF armed_receive] intro: armed_run_state armed_vars armed_drain keepsD [OF armed_process]
    frame.frame_refl [OF frame_armed] frame.frame_trans [OF frame_armed])

subsection \<open>Arming before writing\<close>

text \<open>In receive-and-delete mode the broker has forgotten a message once it is received: rows are written only
  after \<^verbatim>\<open>write_always\<close> is armed.\<close>

fun writes_armed :: "bool \<Rightarrow> event list \<Rightarrow> bool" where
  "writes_armed armed [] = True"
| "writes_armed armed (EvArm # es) = writes_armed True es"
| "writes_armed armed (EvWrite rows # es) = (armed \<and> writes_armed armed es)"
| "writes_armed armed (e # es) = writes_armed armed es"

lemma writes_armed_append: "writes_armed b (xs @ ys) \<longleftrightarrow> writes_armed b xs \<and> writes_armed (b \<or> EvArm \<in> set xs) ys"
  by (induction b xs rule: writes_armed.induct) auto

lemma writes_armed_True [simp]: "writes_armed True es"
  by (induction True es rule: writes_armed.induct) auto

definition quiet :: "'w run_state \<Rightarrow> 'w run_state \<Rightarrow> bool" where
  "quiet s s' \<longleftrightarrow> (\<exists>new. rs_trace s' = rs_trace s @ new \<and> (\<forall>e \<in> set new. \<exists>q. e = EvAbandon q))"

definition write_frame_armed :: "bool \<Rightarrow> 'w run_state \<times> loop_vars \<Rightarrow> 'w run_state \<times> loop_vars \<Rightarrow> bool" where
  "write_frame_armed rad sx sx' \<longleftrightarrow>
     (rad \<longrightarrow> (\<exists>new. rs_trace (fst sx') = rs_trace (fst sx) @ new \<and> writes_armed (lv_armed (snd sx)) new \<and>
        (lv_armed (snd sx') \<longrightarrow> lv_armed (snd sx) \<or> EvArm \<in> set new)))"

lemma write_frame_armed_simps [simp]: "write_frame_armed rad sx sx"
  by (simp add: write_frame_armed_def)

lemma writes_armed_mono: "writes_armed b es \<Longrightarrow> (b \<longrightarrow> b') \<Longrightarrow> writes_armed b' es"
  by (cases b') (cases b, auto)

lemma frame_write_armed: "frame (write_frame_armed rad)"
  by unfold_locales (auto simp: write_frame_armed_def writes_armed_append intro: writes_armed_mono)

lemma quiet_armed: "quiet s s' \<Longrightarrow> write_frame_armed rad (s, v) (s', v)"
proof -
  have "(\<forall>e \<in> set es. \<exists>q. e = EvAbandon q) \<Longrightarrow> writes_armed b es" for b es
    by (induction b es rule: writes_armed.induct) auto
  then show "quiet s s' \<Longrightarrow> write_frame_armed rad (s, v) (s', v)"
    by (auto simp: quiet_def write_frame_armed_def)
qed

text \<open>Once armed, whatever extends the trace is allowed.\<close>

lemma armed_writes: "armed_frame sx sx' \<Longrightarrow> (rad \<longrightarrow> lv_armed (snd sx)) \<Longrightarrow> write_frame_armed rad sx sx'"
  by (auto simp: armed_frame_def batch_trace_def write_frame_armed_def)

lemma quiet_frame: "run_frame quiet (\<lambda>_ _. True) env"
  by unfold_locales (auto simp: quiet_def)

lemma wp_receive_armed:
  "wp (receive_batch lp h n wait)
     (\<lambda>ms t. write_frame_armed (lp_mode lp = RECEIVE_AND_DELETE) sx t \<and>
        (ms \<noteq> [] \<longrightarrow> lp_mode lp = RECEIVE_AND_DELETE \<longrightarrow> lv_armed (snd t)))
     (\<lambda>_. write_frame_armed (lp_mode lp = RECEIVE_AND_DELETE) sx) sx"
  by (auto simp: receive_batch_def note_all_def arm_output_def wp_simps wp_if write_frame_armed_def intro!: wp_anything)

lemma quiet_abandon: "keeps quiet (for_each (abandon_drained lp h) ms)"
proof -
  have "keeps quiet (trace (EvAbandon q))" for q :: int
    by (simp add: keeps_def wp_simps quiet_def)
  then show ?thesis
    unfolding abandon_drained_def safe_settle_def
    by (intro run_frame.keeps_basic [OF quiet_frame [of "lp_env lp"]])
qed

text \<open>The rules of a computation that extends the trace quietly.\<close>

lemma quiet_run_armed: "keeps quiet m \<Longrightarrow> keeps (write_frame_armed rad) (in_run m)"
  by (rule keepsI, unfold wp_in_run, rule wp_imp [OF keepsD], assumption) (metis prod.collapse quiet_armed)+

lemma write_armed_vars: "(\<And>v. lv_armed (f v) = lv_armed v) \<Longrightarrow> keeps (write_frame_armed rad) (set_var f)"
    "keeps (write_frame_armed rad) (var g)"
  by (simp_all add: keeps_def wp_simps write_frame_armed_def)

lemmas write_armed_rules = frame.keeps_rules [OF frame_write_armed] quiet_run_armed write_armed_vars
  run_frame.keeps_basic [OF quiet_frame] run_frame.keeps_links [OF quiet_frame] quiet_abandon

lemma write_armed_drain: "keeps (write_frame_armed (lp_mode lp = RECEIVE_AND_DELETE)) (stop_drain lp h failing)"
proof -
  let ?J = "write_frame_armed (lp_mode lp = RECEIVE_AND_DELETE)"
  have processed: "wp (bnd (var (rt_generation \<circ> lv_tracker)) (\<lambda>g. bnd (in_run (process_batch (lp_env lp) h ms g)) (\<lambda>_. ret ())))
      (\<lambda>_. ?J sx) (\<lambda>_. ?J sx) t" if "?J sx t" "lp_mode lp = RECEIVE_AND_DELETE \<longrightarrow> lv_armed (snd t)" for sx t ms
  proof -
    have k: "keeps armed_frame (bnd (var (rt_generation \<circ> lv_tracker)) (\<lambda>g. bnd (in_run (process_batch (lp_env lp) h ms g)) (\<lambda>_. ret ())))"
      by (intro armed_rules)
    show ?thesis
      by (rule wp_imp [OF keepsD [OF k]]) (use that in \<open>auto intro: frame.frame_trans [OF frame_write_armed] armed_writes\<close>)
  qed
  have received: "keeps ?J (bnd (receive_batch lp h n wait) (\<lambda>drained.
      if drained = [] then ret ()
      else if lp_mode lp = RECEIVE_AND_DELETE
      then bnd (var (rt_generation \<circ> lv_tracker)) (\<lambda>g. bnd (in_run (process_batch (lp_env lp) h drained g)) (\<lambda>_. ret ()))
      else in_run (for_each (abandon_drained lp h) drained)))" for n wait
  proof (rule keepsI)
    fix sx
    have abandoned: "wp (in_run (for_each (abandon_drained lp h) ms)) (\<lambda>_. ?J sx) (\<lambda>_. ?J sx) t" if "?J sx t" for t ms
      by (rule frame.keeps_then [OF frame_write_armed _ that]) (intro write_armed_rules)
    show "wp (bnd (receive_batch lp h n wait) (\<lambda>drained.
        if drained = [] then ret ()
        else if lp_mode lp = RECEIVE_AND_DELETE
        then bnd (var (rt_generation \<circ> lv_tracker)) (\<lambda>g. bnd (in_run (process_batch (lp_env lp) h drained g)) (\<lambda>_. ret ()))
        else in_run (for_each (abandon_drained lp h) drained))) (\<lambda>_. ?J sx) (\<lambda>_. ?J sx) sx"
      unfolding wp_bnd [of "receive_batch lp h n wait"]
      by (rule wp_imp [OF wp_receive_armed]) (auto simp only: wp_if wp_ret split: if_splits intro!: processed abandoned)
  qed
  show ?thesis
    unfolding stop_drain_def renew_loop_session_def by (intro write_armed_rules received)
qed

interpretation arming: loop_frame quiet "\<lambda>_ _. True" lp "write_frame_armed (lp_mode lp = RECEIVE_AND_DELETE)" lv_armed
  "\<lambda>_ t. lp_mode lp = RECEIVE_AND_DELETE \<longrightarrow> lv_armed (snd t)" for lp :: "'w loop"
proof (intro loop_frame.intro loop_frame_axioms.intro quiet_frame frame_write_armed)
  show "keeps (write_frame_armed (lp_mode lp = RECEIVE_AND_DELETE)) (set_var f)" if "\<And>v. lv_armed (f v) = lv_armed v" for f
    by (rule write_armed_vars) (rule that)
  show "wp (process_received lp h ms) (\<lambda>_. write_frame_armed (lp_mode lp = RECEIVE_AND_DELETE) t)
      (\<lambda>_. write_frame_armed (lp_mode lp = RECEIVE_AND_DELETE) t) t"
    if "lp_mode lp = RECEIVE_AND_DELETE \<longrightarrow> lv_armed (snd t)" for ms t h
    by (rule wp_imp [OF keepsD [OF armed_process]]) (use that in \<open>auto intro: armed_writes\<close>)
qed (use wp_receive_armed in \<open>auto intro: quiet_armed write_armed_drain\<close>)

lemma traced_receive_loop: "keeps batch_trace (receive_loop lp fuel)"
proof -
  have info: "keeps batch_trace (load_entity_info (lp_env lp) (lp_admin lp))"
    by (rule keeps_entity_info) (simp add: batch_trace_def)
  have "keeps batch_trace (run_vars (initial_vars lp) (run_loop lp fuel))"
    by (rule keepsI, unfold wp_run_vars, rule wp_imp [OF keepsD [OF traced_loop.keeps_run_loop [OF _ info]]])
      (auto simp: armed_frame_def)
  then show ?thesis unfolding receive_loop_def by (intro traced.keeps_basic)
qed

lemma receive_loop_armed:
  assumes "lp_mode lp = RECEIVE_AND_DELETE"
  shows "\<exists>new. rs_trace (snd (receive_loop lp fuel s)) = rs_trace s @ new \<and> writes_armed False new"
proof -
  have "keeps quiet (load_entity_info (lp_env lp) (lp_admin lp))"
    by (rule keeps_entity_info) (simp add: quiet_def)
  from keeps_run [OF arming.keeps_run_loop [OF _ this], of "(s, initial_vars lp)" fuel] assms
  show ?thesis by (auto simp: receive_loop_def run_vars_def write_frame_armed_def initial_vars_def split: prod.split)
qed

text \<open>In receive-and-delete mode, where a received message is gone from the broker, the receive loop arms
  \<^verbatim>\<open>write_always\<close> before it writes the first row, whatever the SDK does, however many steps it takes and however
  it ends: rows of deleted messages are never written to a table the platform would discard with a failed job.\<close>
theorem receive_and_delete_arms_first:
  assumes "lp_mode lp = RECEIVE_AND_DELETE"
  shows "\<exists>new. rs_trace (snd (receive_loop lp fuel s)) = rs_trace s @ new \<and> writes_armed False new"
  using assms by (rule receive_loop_armed)

subsection \<open>Ending\<close>

text \<open>A guarantee about the SDK's state, the registry and the pending set holds of a batch when it holds of the SDK's
  operations, of registering columns and of adding a deferral.\<close>

definition untouched :: "'w run_state \<Rightarrow> 'w run_state \<Rightarrow> bool" where
  "untouched s t \<longleftrightarrow> rs_world t = rs_world s \<and> rs_registry t = rs_registry s \<and> rs_pending t = rs_pending s"

locale world_frame = run_frame +
  assumes elsewhere: "untouched s t \<Longrightarrow> J s t"
    and registers: "rs_registry s = Some r \<Longrightarrow> J s (s\<lparr>rs_registry := Some r'\<rparr>)"
    and defers: "J s (s\<lparr>rs_pending := builder_add e q i n (rs_pending s)\<rparr>)"
begin

lemma keeps_elsewhere: "(\<And>s. untouched s (f s)) \<Longrightarrow> keeps J (modify f)"
  by (simp add: keeps_def wp_simps elsewhere)

lemma keeps_defers: "keeps J (modify (\<lambda>s. s\<lparr>rs_pending := builder_add e q i n (rs_pending s)\<rparr>))"
  by (simp add: keeps_def wp_simps defers)

lemma keeps_sum: "keeps J (of_sum r)"
  by (cases r) (simp_all add: of_sum_def keeps_ret keeps_raise)

lemma keeps_catch: "keeps J m \<Longrightarrow> (\<And>e. keeps J (h e)) \<Longrightarrow> keeps J (catch_py m h)"
  by (rule keepsI, unfold wp_catch, rule wp_imp [OF keepsD], assumption) (auto intro: keeps_then)

lemma keeps_on_output: "keeps J (on_output m)"
  by (rule keepsI, unfold wp_on_output, rule wp_anything) (simp_all add: elsewhere untouched_def)

lemma keeps_trace: "keeps J (trace e)" and keeps_on_handler: "keeps J (on_handler f)"
  by (simp_all add: trace_def on_handler_def keeps_elsewhere untouched_def)

lemmas keeps_parts = keeps_basic keeps_defers keeps_sum keeps_catch keeps_on_output keeps_trace keeps_on_handler

lemma keeps_safe: "keeps J m \<Longrightarrow> keeps J (safe_settle m)"
  unfolding safe_settle_def by (intro keeps_parts)

lemma keeps_reason: "keeps J (count_reason r d)" "keeps J (count_disposition r d)"
  unfolding count_disposition_def count_reason_def by (intro keeps_parts)+

lemma keeps_unreadable: "keeps J (handle_unreadable env h m err g)"
  unfolding handle_unreadable_def should_retry_def Let_def retry_unreadable_def dispose_unreadable_def
  by (intro keeps_parts keeps_safe keeps_reason)

lemma keeps_to_row: "keeps J (to_row env m t)"
proof -
  have "keeps J (register_path lib p)" "keeps J (split_now lib fs)" for lib p fs
    unfolding register_path_def split_now_def
    by (auto simp: keeps_def wp_simps frame_refl registers split: option.split sum.split)
  then show ?thesis unfolding to_row_def Let_def by (intro keeps_parts) (simp_all add: keeps_elsewhere untouched_def)
qed

lemma keeps_read: "keeps J (read_messages env h g t ms acc)"
proof (induction ms arbitrary: acc)
  case Nil
  then show ?case unfolding read_messages.simps by (rule keeps_ret)
next
  case (Cons m ms)
  have "keeps J (read_message env h g t m acc)"
    unfolding read_message_def
    by (intro keeps_parts keeps_to_row) (auto split: body_failure.split intro!: keeps_parts keeps_unreadable)
  then show ?case unfolding read_messages.simps by (intro keeps_parts Cons.IH)
qed

lemma keeps_settler: "keeps J (make_settler env h m n)"
  unfolding make_settler_def complete_settle_def defer_settle_def noop_settle_def arm_output_def
  by (auto simp: Let_def untouched_def split: settlement_mode.split intro!: keeps_parts keeps_elsewhere)

lemma keeps_process: "keeps J (process_batch env h ms g)"
  unfolding process_batch_def process_def write_batch_def write_output_def settle_one_def renew_if_needed_def
    final_checks_def raise_pending_def check_overflow_def check_abort_share_def Let_def
  by (intro keeps_parts keeps_safe keeps_read keeps_settler)

end

text \<open>The clock of a run: every reading is later than the one before, and no operation turns it back. Times are
  whole microseconds.\<close>

definition ticking :: "('w \<Rightarrow> int) \<Rightarrow> 'w sdk \<Rightarrow> bool" where
  "ticking now sdk \<longleftrightarrow>
     (\<forall>w. fst (sdk_monotonic sdk w) = now w \<and> now w < now (snd (sdk_monotonic sdk w))) \<and>
     sdk_respects (\<lambda>w w'. now w \<le> now w') sdk"

definition loop_ticks :: "'w loop \<Rightarrow> ('w \<Rightarrow> int) \<Rightarrow> bool" where
  "loop_ticks lp now \<longleftrightarrow>
     ticking now (env_sdk (lp_env lp)) \<and> (\<forall>s. now (rs_world s) \<le> now (snd (lp_state_size lp s)))"

text \<open>\<open>tk\<close> is what makes the clock tick: the guarantee says nothing where it does not hold.\<close>

definition forward :: "bool \<Rightarrow> ('w \<Rightarrow> int) \<Rightarrow> 'w \<Rightarrow> 'w \<Rightarrow> bool" where
  "forward tk now w w' \<longleftrightarrow> (tk \<longrightarrow> now w \<le> now w')"

definition later :: "bool \<Rightarrow> ('w \<Rightarrow> int) \<Rightarrow> 'w run_state \<Rightarrow> 'w run_state \<Rightarrow> bool" where
  "later tk now s s' \<longleftrightarrow> forward tk now (rs_world s) (rs_world s')"

text \<open>A collaborator whose variables hold a deadline, \<open>dl\<close>, does not move it.\<close>

definition deadline_frame ::
  "bool \<Rightarrow> ('w \<Rightarrow> int) \<Rightarrow> ('x \<Rightarrow> int) \<Rightarrow> 'w run_state \<times> 'x \<Rightarrow> 'w run_state \<times> 'x \<Rightarrow> bool" where
  "deadline_frame tk now dl sx sx' \<longleftrightarrow> later tk now (fst sx) (fst sx') \<and> dl (snd sx') = dl (snd sx)"

lemma forward_sdk:
  assumes "tk \<Longrightarrow> ticking now sdk"
  shows "sdk_respects (forward tk now) sdk"
proof (cases tk)
  case True
  then have "forward tk now = (\<lambda>w w'. now w \<le> now w')" by (simp add: forward_def [abs_def])
  with assms [OF True] show ?thesis by (simp add: ticking_def)
next
  case False
  then have "forward tk now = (\<lambda>_ _. True)" by (simp add: forward_def [abs_def])
  then show ?thesis by simp
qed

lemma clock_frame: "(tk \<Longrightarrow> ticking now (env_sdk env)) \<Longrightarrow> world_frame (later tk now) (forward tk now) env"
  by unfold_locales (auto simp: later_def forward_sdk untouched_def, auto simp: forward_def)

interpretation later: world_frame "later (loop_ticks lp now) now" "forward (loop_ticks lp now) now" "lp_env lp"
  for lp :: "'w loop" and now
  by (rule clock_frame) (simp add: loop_ticks_def)

lemma frame_deadline: "frame (deadline_frame tk now dl)"
  by unfold_locales (auto simp: deadline_frame_def later_def forward_def)

lemma later_run: "later tk now s s' \<Longrightarrow> deadline_frame tk now dl (s, v) (s', v)"
  by (simp add: deadline_frame_def)

lemma deadline_run: "keeps (later tk now) m \<Longrightarrow> keeps (deadline_frame tk now dl) (in_run m)"
  by (auto simp: keeps_def wp_simps deadline_frame_def elim: wp_mono)

lemma deadline_vars: "(\<And>v. dl (f v) = dl v) \<Longrightarrow> keeps (deadline_frame tk now dl) (set_var f)"
    "keeps (deadline_frame tk now dl) (var g)"
  by (simp_all add: keeps_def wp_simps deadline_frame_def later_def forward_def)

lemmas deadline_rules = frame.keeps_rules [OF frame_deadline] deadline_run deadline_vars later.keeps_parts later.keeps_links
  later.keeps_process later.keeps_safe

lemma deadline_receive: "keeps (deadline_frame (loop_ticks lp now) now lv_deadline) (receive_batch lp h n wait)"
  unfolding receive_batch_def note_all_def arm_output_def by (intro deadline_rules) simp_all

lemma deadline_drain: "keeps (deadline_frame (loop_ticks lp now) now lv_deadline) (stop_drain lp h failing)"
  unfolding stop_drain_def renew_loop_session_def abandon_drained_def
  by (intro deadline_rules deadline_receive)

lemma deadline_process: "keeps (deadline_frame (loop_ticks lp now) now lv_deadline) (process_received lp h ms)"
  unfolding process_received_def tracker_progress_def
  by (intro deadline_rules deadline_drain) simp_all

interpretation timing: loop_frame "later (loop_ticks lp now) now" "forward (loop_ticks lp now) now" lp "deadline_frame (loop_ticks lp now) now lv_deadline" lv_deadline "\<lambda>_ _. True"
  for lp :: "'w loop" and now
proof (intro loop_frame.intro loop_frame_axioms.intro frame_deadline)
  show "run_frame (later (loop_ticks lp now) now) (forward (loop_ticks lp now) now) (lp_env lp)" by unfold_locales
  show "forward (loop_ticks lp now) now (rs_world s) (snd (lp_state_size lp s))" for s :: "'w run_state"
    by (auto simp: forward_def loop_ticks_def)
qed (auto simp: keepsD [OF deadline_receive] intro: later_run deadline_vars deadline_drain keepsD [OF deadline_process])

text \<open>A step that does not stop took place before the deadline, and after it the clock has moved.\<close>

definition advanced_clock :: "('w \<Rightarrow> int) \<Rightarrow> ('x \<Rightarrow> int) \<Rightarrow> 'w run_state \<times> 'x \<Rightarrow> 'w run_state \<times> 'x \<Rightarrow> bool" where
  "advanced_clock now dl sx sx' \<longleftrightarrow>
     now (rs_world (fst sx)) < dl (snd sx) \<and> now (rs_world (fst sx)) < now (rs_world (fst sx')) \<and>
     dl (snd sx') = dl (snd sx)"

lemma advanced_clock_then:
  "tk \<Longrightarrow> advanced_clock now dl sx t \<Longrightarrow> deadline_frame tk now dl t v \<Longrightarrow> advanced_clock now dl sx v"
  by (auto simp: advanced_clock_def deadline_frame_def later_def forward_def)

lemma wp_advanced:
  assumes tk and "keeps (deadline_frame tk now dl) m" and "advanced_clock now dl sx t"
  shows "wp m (\<lambda>_. advanced_clock now dl sx) (\<lambda>_. advanced_clock now dl sx) t"
  by (rule wp_imp [OF keepsD [OF assms(2)]]) (auto intro: advanced_clock_then [OF assms(1,3)])

lemma stop_check_ticks:
  assumes "loop_ticks lp now"
  shows "wp (stop_check lp c) (\<lambda>r t. r = None \<longrightarrow> advanced_clock now lv_deadline sx t) (\<lambda>_. advanced_clock now lv_deadline sx) sx"
proof -
  have mono: "fst (sdk_monotonic (env_sdk (lp_env lp)) w) = now w" "now w < now (snd (sdk_monotonic (env_sdk (lp_env lp)) w))"
    and size: "now (rs_world s) \<le> now (snd (lp_state_size lp s))" for w s
    using assms by (auto simp: loop_ticks_def ticking_def)
  obtain w where tick: "sdk_monotonic (env_sdk (lp_env lp)) (rs_world (fst sx)) = (now (rs_world (fst sx)), w)"
      "now (rs_world (fst sx)) < now w"
    using mono [of "rs_world (fst sx)"] by (metis prod.collapse)
  obtain n w' where sized: "lp_state_size lp ((fst sx)\<lparr>rs_world := w\<rparr>) = (n, w')" "now w \<le> now w'"
    using size [of "(fst sx)\<lparr>rs_world := w\<rparr>"] by (cases "lp_state_size lp ((fst sx)\<lparr>rs_world := w\<rparr>)") auto
  show ?thesis
    using tick sized by (auto simp: stop_check_def wp_simps wp_if advanced_clock_def split: option.split)
qed

lemma drain_raises: "wp (stop_drain lp h failing) (\<lambda>_ _. True) (\<lambda>e _. is_user_exception e) sx"
  unfolding stop_drain_def wp_bnd [of "var f" for f] wp_var wp_when wp_try
  by (cases "lv_received_on_receiver (snd sx)") (simp_all, rule wp_anything, auto simp: wp_if wp_ret wp_raise)

lemma guarded_step_ticks:
  assumes "loop_ticks lp now"
  shows "wp (guarded_step lp c) (\<lambda>r t. r = None \<longrightarrow> advanced_clock now lv_deadline sx t) (\<lambda>_ _. True) sx"
proof -
  have on: "wp (m :: ('a, 'b option) looping) (\<lambda>r t. r = None \<longrightarrow> advanced_clock now lv_deadline sx t)
      (\<lambda>e t. \<not> is_user_exception e \<longrightarrow> advanced_clock now lv_deadline sx t) t"
    if "keeps (deadline_frame (loop_ticks lp now) now lv_deadline) m" "advanced_clock now lv_deadline sx t" for m t
    by (rule wp_imp [OF wp_advanced [OF assms that]]) auto
  have rest: "wp (case r of
        Some reason \<Rightarrow> bnd (case receiver of None \<Rightarrow> ret () | Some h \<Rightarrow> stop_drain lp h False) (\<lambda>_. ret (Some reason))
      | None \<Rightarrow> (case receiver of None \<Rightarrow> open_next lp c | Some h \<Rightarrow> receive_and_process lp c h))
      (\<lambda>r t. r = None \<longrightarrow> advanced_clock now lv_deadline sx t) (\<lambda>e t. \<not> is_user_exception e \<longrightarrow> advanced_clock now lv_deadline sx t) t"
    if "r = None \<longrightarrow> advanced_clock now lv_deadline sx t" for r receiver t
    by (cases r; cases receiver)
      (use that in \<open>auto simp: wp_bnd wp_ret wp_imp [OF drain_raises]
        intro!: on timing.keeps_open_next timing.keeps_receive_and_process\<close>)
  have step: "wp (step lp c) (\<lambda>r t. r = None \<longrightarrow> advanced_clock now lv_deadline sx t)
      (\<lambda>e t. \<not> is_user_exception e \<longrightarrow> advanced_clock now lv_deadline sx t) sx"
    unfolding step_def wp_bnd [of "var f" for f] wp_var wp_bnd [of "stop_check lp c"]
    by (rule wp_imp [OF stop_check_ticks [OF assms]]) (simp_all add: rest)
  have caught: "wp (bnd m (\<lambda>_. ret None)) (\<lambda>r t. r = None \<longrightarrow> advanced_clock now lv_deadline sx t) (\<lambda>_ _. True) t"
    if "keeps (deadline_frame (loop_ticks lp now) now lv_deadline) m" "advanced_clock now lv_deadline sx t" for m t
    unfolding wp_bnd wp_ret by (rule wp_imp [OF wp_advanced [OF assms that]]) auto
  show ?thesis
    unfolding guarded_step_def wp_try
    by (rule wp_imp [OF step]) (auto simp: wp_if wp_raise intro!: caught timing.keeps_finish timing.keeps_recover)
qed

lemma consume_ticks:
  assumes "loop_ticks lp now"
  shows "wp (consume lp n c) (\<lambda>r t. r = None \<longrightarrow> int n \<le> max 0 (lv_deadline (snd sx) - now (rs_world (fst sx)))) (\<lambda>_ _. True) sx"
proof (induction n arbitrary: sx)
  case 0
  then show ?case by (simp add: wp_ret)
next
  case (Suc n)
  show ?case
    unfolding consume.simps wp_bnd
    by (rule wp_imp [OF guarded_step_ticks [OF assms]])
      (auto simp: wp_ret advanced_clock_def split: option.split intro!: wp_imp [OF Suc.IH])
qed


text \<open>Enough fuel for what is left until the deadline.\<close>

definition fuelled :: "('w \<Rightarrow> int) \<Rightarrow> ('x \<Rightarrow> int) \<Rightarrow> nat \<Rightarrow> 'w run_state \<times> 'x \<Rightarrow> bool" where
  "fuelled now dl n sx \<longleftrightarrow> 0 < n \<and> dl (snd sx) - now (rs_world (fst sx)) < int n"

lemma consume_ends:
  assumes "loop_ticks lp now" and "fuelled now lv_deadline n sx"
  shows "wp (consume lp n c) (\<lambda>r t. r \<noteq> None \<and> fuelled now lv_deadline n t) (\<lambda>_ _. True) sx"
  by (rule wp_imp [OF wp_conj [OF consume_ticks [OF assms(1)] keepsD [OF timing.keeps_consume]]])
    (use assms in \<open>auto simp: fuelled_def deadline_frame_def later_def forward_def\<close>)

lemma ticks_monotonic:
  assumes "ticking now (env_sdk env)"
  obtains w' where "sdk_monotonic (env_sdk env) w = (now w, w')" "now w < now w'"
  using assms that by (cases "sdk_monotonic (env_sdk env) w") (auto simp: ticking_def dest: spec [of _ w])

lemma loop_clock: "loop_ticks lp now \<Longrightarrow> ticking now (env_sdk (lp_env lp))"
  by (simp add: loop_ticks_def)

lemma catch_up_ends:
  assumes "loop_ticks lp now" and "fuelled now lv_deadline n sx"
  shows "wp (catch_up lp n) (\<lambda>r _. r \<noteq> None) (\<lambda>_ _. True) sx"
proof -
  obtain w' where w': "sdk_monotonic (env_sdk (lp_env lp)) (rs_world (fst sx)) = (now (rs_world (fst sx)), w')"
      "now (rs_world (fst sx)) < now w'"
    by (rule ticks_monotonic [OF loop_clock [OF assms(1)]])
  have "fuelled now lv_deadline n ((fst sx)\<lparr>rs_world := w'\<rparr>, (snd sx)\<lparr>lv_wait := k\<rparr>)" for k
    using assms(2) w'(2) by (simp add: fuelled_def)
  from wp_imp [OF consume_ends [OF assms(1) this]] show ?thesis
    by (simp add: catch_up_def wp_simps w')
qed

lemma loop_body_ends:
  assumes "loop_ticks lp now" and "fuelled now lv_deadline n sx"
  shows "wp (loop_body lp n) (\<lambda>r _. r \<noteq> None) (\<lambda>_ _. True) sx"
proof -
  let ?after = "\<lambda>r. case r of None \<Rightarrow> ret None
    | Some reason \<Rightarrow> bnd (warn_if_messages_remain lp reason) (\<lambda>_. ret (Some reason))"
  have warned: "wp (bnd (warn_if_messages_remain lp reason) (\<lambda>_. ret (Some reason))) (\<lambda>r _. \<exists>y. r = Some y) (\<lambda>_ _. True) t" for reason t
    unfolding wp_bnd wp_ret by (rule wp_anything) simp_all
  have caught: "wp (bnd (if due then catch_up lp n else ret (Some reason)) ?after) (\<lambda>r _. \<exists>y. r = Some y) (\<lambda>_ _. True) t"
    if "fuelled now lv_deadline n t" for due reason t
    unfolding wp_bnd [of _ ?after] wp_if
    by (auto simp: wp_ret intro!: warned wp_imp [OF catch_up_ends [OF assms(1) that]])
  show ?thesis
    unfolding loop_body_def wp_bnd [of "consume lp n c" for c]
    by (rule wp_imp [OF consume_ends [OF assms]]) (auto simp: wp_bnd [of "var f" for f] wp_var split del: if_split intro: caught)
qed

text \<open>A loop with one unit of fuel per microsecond of \<^verbatim>\<open>max_duration_seconds\<close> never runs out of it,
  neither in the main loop nor while catching up, whatever the SDK does.\<close>

lemma receive_loop_ends:
  assumes "loop_ticks lp now" and "seconds (max_duration_seconds (lp_advanced lp)) \<le> int fuel" and "0 < fuel"
  shows "wp (receive_loop lp fuel) (\<lambda>r _. r \<noteq> None) (\<lambda>_ _. True) s"
proof -
  obtain w' where w': "sdk_monotonic (env_sdk (lp_env lp)) (rs_world s) = (now (rs_world s), w')" "now (rs_world s) < now w'"
    by (rule ticks_monotonic [OF loop_clock [OF assms(1)]])
  let ?v = "(initial_vars lp)\<lparr>lv_deadline := now (rs_world s) + seconds (max_duration_seconds (lp_advanced lp))\<rparr>"
  have "fuelled now lv_deadline fuel (s\<lparr>rs_world := w'\<rparr>, ?v)"
    using assms(2,3) w'(2) by (simp add: fuelled_def)
  then have body: "wp (finally_py (loop_body lp fuel) (close_loop lp False)) (\<lambda>r _. r \<noteq> None) (\<lambda>_ _. True) (s\<lparr>rs_world := w'\<rparr>, ?v)"
    unfolding wp_finally by (rule wp_imp [OF loop_body_ends [OF assms(1)]]) (auto intro: wp_anything)
  have "wp (run_loop lp fuel) (\<lambda>r _. r \<noteq> None) (\<lambda>_ _. True) (s, initial_vars lp)"
    unfolding run_loop_def wp_bnd wp_in_run wp_set_var wp_monotonic
    by (simp add: w', rule wp_imp [OF body]) (auto simp: wp_ret wp_in_run wp_on_stats)
  then show ?thesis by (simp add: receive_loop_def wp_run_vars wp_if wp_raise)
qed

subsection \<open>Sample loops\<close>

definition sample_admin :: "'w admin" where
  "sample_admin = \<lparr>adm_client = ret 0, adm_close = (\<lambda>h. ret ()), adm_queue = (\<lambda>h q. raise (builtin ''OSError'')),
     adm_queue_runtime = (\<lambda>h q. raise (builtin ''OSError'')), adm_subscription = (\<lambda>h t sb. raise (builtin ''OSError'')),
     adm_topic = (\<lambda>h t. raise (builtin ''OSError'')), adm_subscription_runtime = (\<lambda>h t sb. raise (builtin ''OSError'')),
     adm_list_queues = (\<lambda>h. ret []), adm_list_topics = (\<lambda>h. ret []), adm_list_subscriptions = (\<lambda>h t. ret []),
     adm_first_queue = (\<lambda>h. ret ())\<rparr>"

definition sample_loop :: "message list list loop" where
  "sample_loop = \<lparr>lp_env = sample_env, lp_admin = sample_admin, lp_t0 = 2000, lp_state_size = (\<lambda>s. (0, rs_world s))\<rparr>"

definition deleting_loop :: "message list list loop" where
  "deleting_loop = sample_loop\<lparr>lp_env := sample_env\<lparr>env_config := sample_configuration
     \<lparr>source := (source sample_configuration)\<lparr>settlement_mode := RECEIVE_AND_DELETE\<rparr>\<rparr>\<rparr>\<rparr>"

theorem receive_and_delete_arms_first_witness:
  "\<exists>new. rs_trace (snd (receive_loop deleting_loop 5 (sample_run [[sample_message]]))) = new \<and> writes_armed False new"
proof -
  have mode: "lp_mode deleting_loop = RECEIVE_AND_DELETE"
    by (simp add: deleting_loop_def sample_loop_def lp_mode_def mode_of_def)
  show ?thesis using receive_and_delete_arms_first [OF mode, of 5 "sample_run [[sample_message]]"] by (simp add: sample_run_def)
qed

text \<open>An entity that is always empty, on a clock that ticks.\<close>

definition ticking_sdk :: "int sdk" where
  "ticking_sdk = \<lparr>sdk_clock = (\<lambda>w. (w, w)), sdk_monotonic = (\<lambda>w. (w, w + 1)), sdk_sleep = (\<lambda>n w. w + max 0 n),
     sdk_credential = ret (), sdk_client = (\<lambda>k. ret 0), sdk_receiver = (\<lambda>rq. ret 0), sdk_enter = (\<lambda>h. ret ()), sdk_close = (\<lambda>h. ret ()),
     sdk_session_id = (\<lambda>h w. []), sdk_session_locked_until = (\<lambda>h w. None), sdk_renew_session = (\<lambda>h. ret ()),
     sdk_complete = (\<lambda>h m. ret ()), sdk_defer = (\<lambda>h m. ret ()), sdk_abandon = (\<lambda>h m. ret ()),
     sdk_renew_message = (\<lambda>h m. ret ()), sdk_dead_letter = (\<lambda>h m r d. ret ()), sdk_receive = (\<lambda>h n t. ret []),
     sdk_peek = (\<lambda>h n q. ret []), sdk_receive_deferred = (\<lambda>h qs. ret [])\<rparr>"

subsection \<open>A drain check that sees one page\<close>

text \<open>A broker that hands out nothing, as a throttled namespace does, and peeks by sequence number.\<close>

definition stalled_sdk :: "message list list sdk" where
  "stalled_sdk = sample_sdk\<lparr>sdk_receive := (\<lambda>h n t. ret []),
     sdk_peek := (\<lambda>h n q. gets (\<lambda>w. take (nat n) (filter (\<lambda>m. q \<le> m_seq m) (concat w))))\<rparr>"

definition stalled_loop :: "message list list loop" where
  "stalled_loop = sample_loop\<lparr>lp_env := sample_env\<lparr>env_sdk := stalled_sdk\<rparr>\<rparr>"

lemma stalled_sample [simp]:
  "sdk_monotonic (env_sdk (lp_env stalled_loop)) w = (0, w)" "sdk_clock (env_sdk (lp_env stalled_loop)) w = (0, w)"
  "sdk_receiver (env_sdk (lp_env stalled_loop)) rq = ret 0" "sdk_client (env_sdk (lp_env stalled_loop)) k = ret 0"
  "sdk_enter (env_sdk (lp_env stalled_loop)) h = ret ()" "sdk_close (env_sdk (lp_env stalled_loop)) h = ret ()"
  "sdk_receive (env_sdk (lp_env stalled_loop)) h n t = ret []"
  "sdk_peek (env_sdk (lp_env stalled_loop)) h n q = gets (\<lambda>w. take (nat n) (filter (\<lambda>m. q \<le> m_seq m) (concat w)))"
  "effective_auth_type (env_config (lp_env stalled_loop)) = CONNECTION_STRING"
  "lp_mode stalled_loop = COMPLETE" "\<not> lp_sessions stalled_loop" "lp_limit stalled_loop = 0"
  "max_duration_seconds (lp_advanced stalled_loop) = 60" "recovery_wait_seconds (lp_advanced stalled_loop) = 0"
  by (simp_all add: stalled_loop_def sample_loop_def stalled_sdk_def sample_sdk_def lp_mode_def mode_of_def lp_sessions_def
      lp_limit_def lp_advanced_def sample_configuration_def effective_auth_type_def uses_row_connection_string_def)

lemma stalled_opens:
  assumes "lv_receiver v = None" and "lv_client v = None" and "0 < lv_deadline v"
  shows "wp (guarded_step stalled_loop None)
    (\<lambda>r t. r = None \<and> t = (s, v\<lparr>lv_client := Some 0, lv_received_on_receiver := False, lv_receiver := Some 0\<rparr>)) (\<lambda>_ _. False) (s, v)"
  using assms
  by (simp add: guarded_step_def step_def stop_check_def open_next_def loop_client_def open_loop_receiver_def open_receiver_def
      enter_receiver_def data_client_def build_client_def wp_simps wp_if)

lemma stalled_peeks:
  assumes "lv_client v = Some 0" and "lv_highest v = None" and "\<not> is_partitioned (rs_info s)"
    and "filter (receivable stalled_loop 0) (take 250 (filter (\<lambda>m. 1 \<le> m_seq m) (concat (rs_world s)))) = []"
  shows "wp (receivable_messages stalled_loop) (\<lambda>ms t. ms = []) (\<lambda>_ _. False) (s, v)"
  unfolding receivable_messages_def loop_client_def open_receiver_def enter_receiver_def close_quietly_def close_handle_def
  by (simp only: wp_bnd wp_try wp_finally wp_in_run wp_clock wp_on_world wp_gets wp_var wp_ret stalled_sample
      assms(1,2) option.case prod.case fst_conv snd_conv)
    (use assms(2-4) in \<open>simp add: peek_start_def DRAIN_CHECK_PEEK_COUNT_def\<close>)

lemma stalled_receives:
  assumes "lv_receiver v = Some 0" and "lv_client v = Some 0" and "0 < lv_deadline v" and "lv_highest v = None"
    and "\<not> is_partitioned (rs_info s)" and "filter (receivable stalled_loop 0) (take 250 (filter (\<lambda>m. 1 \<le> m_seq m) (concat (rs_world s)))) = []"
  shows "wp (guarded_step stalled_loop None) (\<lambda>r t. r = Some IDLE) (\<lambda>_ _. False) (s, v)"
proof -
  have peeks: "wp (on_empty stalled_loop None) (\<lambda>r t. r = Some IDLE) E (s, v\<lparr>lv_received_on_receiver := True\<rparr>)" for E
  proof -
    have "on_empty stalled_loop None = bnd (receivable_messages stalled_loop) (\<lambda>left.
        if left = [] then ret (Some IDLE) else retry_empty_receive stalled_loop)"
      by (simp add: on_empty_def)
    then show ?thesis
      by (simp only: wp_bnd) (rule wp_imp [OF stalled_peeks], simp_all add: assms(2,4-6) wp_ret)
  qed
  have received: "wp (receive_and_process stalled_loop None 0) (\<lambda>r t. r = Some IDLE) E (s, v)" for E
    unfolding receive_and_process_def receive_batch_def note_all_def renew_loop_session_def
    by (simp only: wp_bnd wp_when wp_ret wp_in_run wp_on_world wp_var wp_set_var wp_modify stalled_sample if_False)
      (simp add: peeks)
  show ?thesis
    unfolding guarded_step_def step_def stop_check_def
    by (simp only: wp_try wp_bnd wp_var wp_in_run wp_monotonic wp_ret stalled_sample assms(1) option.case prod.case fst_conv snd_conv)
      (use assms(3) in \<open>simp add: wp_bnd wp_ret wp_in_run wp_monotonic wp_var received\<close>)
qed

lemma stalled_idle:
  assumes "length ds = 250" and "\<forall>m \<in> set ds. m_state m = ST_DEFERRED \<and> 1 \<le> m_seq m"
  shows "wp (receive_loop stalled_loop (Suc (Suc 0))) (\<lambda>r _. r = Some IDLE) (\<lambda>_ _. False) (sample_run [ds @ rest])"
proof -
  let ?s = "sample_run [ds @ rest]"
  let ?v = "(initial_vars stalled_loop)\<lparr>lv_deadline := seconds 60\<rparr>"
  have "filter (\<lambda>m. 1 \<le> m_seq m) ds = ds" using assms(2) by simp
  moreover have "filter (receivable stalled_loop 0) ds = []"
    using assms(2) by (auto simp: filter_empty_conv receivable_def)
  ultimately have page: "filter (receivable stalled_loop 0) (take 250 (filter (\<lambda>m. 1 \<le> m_seq m) (concat (rs_world ?s)))) = []"
    using assms(1) by (simp add: sample_run_def)
  have consumed: "wp (consume stalled_loop (Suc (Suc 0)) None) (\<lambda>r t. r = Some IDLE) (\<lambda>_ _. False) (?s, ?v)"
    unfolding consume.simps wp_bnd
    by (rule wp_imp [OF stalled_opens])
      (use page in \<open>auto simp: initial_vars_def seconds_def wp_bnd wp_ret sample_run_def is_partitioned_def default_entity_info_def
        intro!: wp_imp [OF stalled_receives]\<close>)
  have body: "wp (loop_body stalled_loop (Suc (Suc 0))) (\<lambda>r t. r = Some IDLE) (\<lambda>_ _. False) (?s, ?v)"
    unfolding loop_body_def wp_bnd [of "consume lp n c" for lp n c]
    by (rule wp_imp [OF consumed])
      (simp_all add: catch_up_due_def warn_if_messages_remain_def partial_stops_def wp_bnd wp_var wp_ret wp_try wp_when)
  have closed: "wp (close_loop stalled_loop b) (\<lambda>_ _. True) (\<lambda>_ _. False) t" for b t
    unfolding close_loop_def close_option_def close_quietly_def close_handle_def
    by (simp add: wp_bnd wp_var wp_set_var wp_in_run wp_try wp_on_world wp_ret split: option.split)
  have same: "?s\<lparr>rs_world := rs_world ?s\<rparr> = ?s" by simp
  have "wp (run_loop stalled_loop (Suc (Suc 0))) (\<lambda>r t. r = Some IDLE) (\<lambda>_ _. False) (?s, initial_vars stalled_loop)"
    unfolding run_loop_def wp_bnd wp_in_run wp_set_var wp_monotonic wp_finally
    by (simp only: stalled_sample prod.case fst_conv snd_conv same add_0, rule wp_imp [OF body])
      (auto simp: wp_ret wp_in_run wp_on_stats intro!: wp_imp [OF closed])
  then show ?thesis by (simp add: receive_loop_def wp_run_vars wp_if)
qed


end
