(* ===== verification/Peek.thy ===== *)
theory Peek
  imports Receiver
begin

text \<open>
  The peek pager of \<^verbatim>\<open>src/peek.py\<close> (\<open>PeekPager\<close>), which exports an entity by peeking. The
  attributes its methods change and the two locals of its page loop (\<open>pv_cursor_mode\<close>, \<open>pv_next_seq\<close>) and of its
  session loop (\<open>pv_seen\<close>) are the record \<open>pager_vars\<close>; what it is built with is the record \<open>pager\<close>. Both
  loops run on fuel. Marking a message as processed leaves an event in the trace.
\<close>

subsection \<open>Parameters and variables\<close>

definition PEEK_PAGE_SIZE :: int where "PEEK_PAGE_SIZE = 250"
definition SESSION_ACCEPT_WAIT_SECONDS :: int where "SESSION_ACCEPT_WAIT_SECONDS = 5"

record 'w pager =
  pg_env :: "'w env"
  pg_cursor :: "peek_cursor option"
  pg_t0 :: datetime

record pager_vars =
  pv_tracker :: recovery_tracker
  pv_client :: "handle option"
  pv_receiver :: "handle option"
  pv_held :: "handle list"
  pv_processed :: "int set"
  pv_high :: "int option"
  pv_outstanding :: "int option"
  pv_taken :: int
  pv_deadline :: int
  pv_cursor_mode :: bool
  pv_next_seq :: int
  pv_seen :: "string set"

type_synonym ('w, 'a) paging = "('w, pager_vars, 'a) run_with"

definition pager_start :: pager_vars where
  "pager_start = \<lparr>pv_tracker = new_tracker, pv_client = None, pv_receiver = None, pv_held = [], pv_processed = {},
     pv_high = None, pv_outstanding = None, pv_taken = 0, pv_deadline = 0, pv_cursor_mode = False, pv_next_seq = 1,
     pv_seen = {}\<rparr>"

definition pg_limits :: "'w pager \<Rightarrow> limits_config" where
  "pg_limits pg = limits (env_config (pg_env pg))"

definition pg_sessions :: "'w pager \<Rightarrow> bool" where
  "pg_sessions pg = session_enabled (source (env_config (pg_env pg)))"

definition pg_incremental :: "'w pager \<Rightarrow> bool" where
  "pg_incremental pg \<longleftrightarrow> fetch_mode (source (env_config (pg_env pg))) = INCREMENTAL_FETCH"

text \<open>How a round of a loop ends: with another round, with a stop, or without fuel.\<close>

datatype pager_step = Continue | Stopped stop_reason | Exhausted

subsection \<open>The cursor\<close>

definition cursor_start :: "'w pager \<Rightarrow> int" where
  "cursor_start pg =
     (case pg_cursor pg of
        None \<Rightarrow> 1
      | Some c \<Rightarrow> if cursor_entity_path c = entity_path (env_entity (pg_env pg)) then last_sequence_number c + 1 else 1)"

definition new_cursor :: "'w pager \<Rightarrow> int \<Rightarrow> pager_vars \<Rightarrow> peek_cursor option" where
  "new_cursor pg start v =
     (let high = (case (pv_high v, pv_outstanding v) of (Some h, Some q) \<Rightarrow> Some (min h (q - 1)) | (h, _) \<Rightarrow> h) in
      case high of
        None \<Rightarrow> pg_cursor pg
      | Some h \<Rightarrow> if h < start then pg_cursor pg
                  else Some \<lparr>cursor_entity_path = entity_path (env_entity (pg_env pg)), last_sequence_number = h\<rparr>)"

subsection \<open>One page\<close>

definition pager_stop :: "'w pager \<Rightarrow> ('w, stop_reason option) paging" where
  "pager_stop pg =
     bnd (var pv_taken) (\<lambda>taken.
       if 0 < max_messages (pg_limits pg) \<and> max_messages (pg_limits pg) \<le> taken then ret (Some MAX_MESSAGES)
       else bnd (in_run (monotonic (pg_env pg))) (\<lambda>now.
            bnd (var pv_deadline) (\<lambda>deadline. ret (if deadline \<le> now then Some MAX_DURATION else None))))"

definition mark_processed :: "int \<Rightarrow> ('w, unit) paging" where
  "mark_processed q =
     bnd (set_var (\<lambda>v. v\<lparr>pv_processed := insert q (pv_processed v),
                         pv_high := Some (case pv_high v of None \<Rightarrow> q | Some h \<Rightarrow> max h q)\<rparr>)) (\<lambda>_.
       in_run (trace (EvProcessed q)))"

fun select_messages ::
  "'w pager \<Rightarrow> datetime \<Rightarrow> message list \<Rightarrow> message list \<Rightarrow> ('w, message list \<times> stop_reason option) paging" where
  "select_messages pg now [] selected = ret (selected, None)"
| "select_messages pg now (m # ms) selected =
     bnd (var pv_processed) (\<lambda>processed.
     bnd (var pv_taken) (\<lambda>taken.
       if m_seq m \<in> processed then select_messages pg now ms selected
       else if 0 < max_messages (pg_limits pg) \<and> max_messages (pg_limits pg) \<le> taken + int (length selected)
       then ret (selected, Some MAX_MESSAGES)
       else if is_pending_activation m then
         bnd (in_run (on_stats (\<lambda>st. st\<lparr>s_skipped_scheduled := s_skipped_scheduled st + 1\<rparr>))) (\<lambda>_.
         bnd (mark_processed (m_seq m)) (\<lambda>_. select_messages pg now ms selected))
       else if (case m_expires_at m of None \<Rightarrow> False | Some t \<Rightarrow> t < now) then
         bnd (in_run (on_stats (\<lambda>st. st\<lparr>s_expired_skipped := s_expired_skipped st + 1\<rparr>))) (\<lambda>_.
         bnd (mark_processed (m_seq m)) (\<lambda>_. select_messages pg now ms selected))
       else if stop_at_job_start (pg_limits pg) \<and> after_watermark (pg_t0 pg) m then ret (selected, Some WATERMARK)
       else select_messages pg now ms (selected @ [m])))"

definition page_progress :: "('w, unit) paging" where
  "page_progress = set_var (\<lambda>v. v\<lparr>pv_tracker := note_progress (pv_tracker v)\<rparr>)"

definition mark_taken :: "int list \<Rightarrow> message \<Rightarrow> ('w, unit) paging" where
  "mark_taken retried m =
     when_py (m_seq m \<notin> set retried)
       (bnd (mark_processed (m_seq m)) (\<lambda>_. set_var (\<lambda>v. v\<lparr>pv_taken := pv_taken v + 1\<rparr>)))"

definition process_page :: "'w pager \<Rightarrow> handle \<Rightarrow> message list \<Rightarrow> ('w, int list) paging" where
  "process_page pg h ms =
     bnd (in_run (gets (s_written \<circ> rs_stats))) (\<lambda>written.
     bnd (var (rt_generation \<circ> pv_tracker)) (\<lambda>g.
     bnd (finally_py (in_run (process_batch (pg_env pg) h ms g))
            (bnd (in_run (gets (s_written \<circ> rs_stats))) (\<lambda>now. when_py (written < now) page_progress))) (\<lambda>r.
     bnd (when_py (br_progressed r) page_progress) (\<lambda>_.
     bnd (for_each (mark_taken (br_retried r)) ms) (\<lambda>_. ret (br_retried r))))))"

definition export_page :: "'w pager \<Rightarrow> handle \<Rightarrow> message list \<Rightarrow> ('w, stop_reason option \<times> int list) paging" where
  "export_page pg h page =
     bnd (in_run (clock (pg_env pg))) (\<lambda>now.
     bnd (select_messages pg now page []) (\<lambda>(selected, stop).
     bnd (if selected \<noteq> [] then process_page pg h selected else ret []) (\<lambda>retried.
     bnd (set_var (\<lambda>v. v\<lparr>pv_outstanding := (if retried = [] then None else Some (Min (set retried)))\<rparr>)) (\<lambda>_.
     bnd (in_run (gets (is_partitioned \<circ> rs_info))) (\<lambda>part.
     bnd (when_py (stop = Some WATERMARK \<and> (part \<or> pg_sessions pg)) (in_run (on_stats (warn ''watermark_approximate'')))) (\<lambda>_.
       ret (stop, retried)))))))"

subsection \<open>Opening, closing, recovering\<close>

definition pager_client :: "'w pager \<Rightarrow> ('w, handle) paging" where
  "pager_client pg =
     bnd (var pv_client) (\<lambda>c. case c of
        Some h \<Rightarrow> ret h
      | None \<Rightarrow> bnd (in_run (data_client (pg_env pg) ReceiveClient)) (\<lambda>h.
                  bnd (set_var (\<lambda>v. v\<lparr>pv_client := Some h\<rparr>)) (\<lambda>_. ret h)))"

definition open_pager :: "'w pager \<Rightarrow> bool \<Rightarrow> ('w, handle) paging" where
  "open_pager pg session =
     bnd (pager_client pg) (\<lambda>client.
     bnd (in_run (open_receiver (pg_env pg) (receiver_profile (pg_env pg) client PEEK_LOCK
            (prefetch_count (advanced (env_config (pg_env pg))))
            (if session then Some (seconds SESSION_ACCEPT_WAIT_SECONDS) else None)))) (\<lambda>h.
       in_run (enter_receiver (pg_env pg) h)))"

definition close_pager_receiver :: "'w pager \<Rightarrow> ('w, unit) paging" where
  "close_pager_receiver pg =
     bnd (var pv_receiver) (\<lambda>h.
     bnd (set_var (\<lambda>v. v\<lparr>pv_receiver := None\<rparr>)) (\<lambda>_. in_run (close_option (pg_env pg) h)))"

definition close_pager :: "'w pager \<Rightarrow> ('w, unit) paging" where
  "close_pager pg =
     bnd (var pv_receiver) (\<lambda>h.
     bnd (var pv_held) (\<lambda>held.
     bnd (var pv_client) (\<lambda>c.
     bnd (set_var (\<lambda>v. v\<lparr>pv_receiver := None, pv_held := [], pv_client := None\<rparr>)) (\<lambda>_.
       in_run (for_each (close_option (pg_env pg)) (h # map Some held @ [c]))))))"

definition recover_pager :: "'w pager \<Rightarrow> exn \<Rightarrow> ('w, unit) paging" where
  "recover_pager pg e =
     bnd (close_pager pg) (\<lambda>_.
     bnd (var pv_tracker) (\<lambda>t.
     bnd (case note_failure (pg_env pg) e t of Inl e' \<Rightarrow> raise e' | Inr t' \<Rightarrow> set_var (\<lambda>v. v\<lparr>pv_tracker := t'\<rparr>)) (\<lambda>_.
     bnd (var (rt_count \<circ> pv_tracker)) (\<lambda>n.
       in_run (on_stats (\<lambda>st. st\<lparr>s_recoveries := n\<rparr>))))))"

subsection \<open>Plain entities\<close>

definition reveals_partitions :: "message list \<Rightarrow> ('w, bool) paging" where
  "reveals_partitions page = bnd (in_run (note_all page)) (\<lambda>_. in_run (gets (is_partitioned \<circ> rs_info)))"

definition page_receiver :: "'w pager \<Rightarrow> ('w, handle) paging" where
  "page_receiver pg =
     bnd (var pv_receiver) (\<lambda>r. case r of
        Some h \<Rightarrow> ret h
      | None \<Rightarrow> bnd (open_pager pg False) (\<lambda>h. bnd (set_var (\<lambda>v. v\<lparr>pv_receiver := Some h\<rparr>)) (\<lambda>_. ret h)))"

text \<open>An exported page: again from the first unreadable body, a stop, or on to the next page.\<close>

definition after_page :: "'w pager \<Rightarrow> message list \<Rightarrow> stop_reason option \<times> int list \<Rightarrow> ('w, pager_step) paging" where
  "after_page pg page result =
     (if snd result \<noteq> [] then
        bnd (close_pager pg) (\<lambda>_.
        bnd (set_var (\<lambda>v. v\<lparr>pv_tracker := note_retry (pv_tracker v)\<rparr>)) (\<lambda>_.
        bnd (in_run (on_stats (\<lambda>st. st\<lparr>s_unreadable_recycles := s_unreadable_recycles st + 1\<rparr>))) (\<lambda>_.
        bnd (set_var (\<lambda>v. v\<lparr>pv_next_seq := Min (set (snd result))\<rparr>)) (\<lambda>_. ret Continue))))
      else (case fst result of
        Some reason \<Rightarrow> ret (Stopped reason)
      | None \<Rightarrow>
          bnd (set_var (\<lambda>v. v\<lparr>pv_next_seq := m_seq (last page) + 1\<rparr>)) (\<lambda>_.
          bnd (when_py (pg_incremental pg) (set_var (\<lambda>v. v\<lparr>pv_processed := {}\<rparr>))) (\<lambda>_. ret Continue))))"

definition page_step :: "'w pager \<Rightarrow> ('w, pager_step) paging" where
  "page_step pg =
     bnd (pager_stop pg) (\<lambda>stop. case stop of
       Some reason \<Rightarrow> ret (Stopped reason)
     | None \<Rightarrow>
         bnd (page_receiver pg) (\<lambda>h.
         bnd (var pv_cursor_mode) (\<lambda>cursor_mode.
         bnd (var pv_next_seq) (\<lambda>next_seq.
         bnd (in_run (on_world (sdk_peek (env_sdk (pg_env pg)) h PEEK_PAGE_SIZE (if cursor_mode then 0 else next_seq)))) (\<lambda>page.
           if page = [] then ret (Stopped END_OF_ENTITY)
           else bnd (if cursor_mode then ret False else reveals_partitions page) (\<lambda>reveals.
             if reveals then
               (if pg_incremental pg then raise (user_exception PartitionedIncremental None)
                else bnd (set_var (\<lambda>v. v\<lparr>pv_cursor_mode := True\<rparr>)) (\<lambda>_.
                     bnd (in_run (set_retries False)) (\<lambda>_.
                     bnd (close_pager_receiver pg) (\<lambda>_. ret Continue))))
             else bnd (export_page pg h page) (after_page pg page)))))))"

definition guarded_page :: "'w pager \<Rightarrow> ('w, pager_step) paging" where
  "guarded_page pg =
     try_py (page_step pg)
       (\<lambda>e. if is_user_exception e then raise e else bnd (recover_pager pg e) (\<lambda>_. ret Continue))"

fun page_loop :: "'w pager \<Rightarrow> nat \<Rightarrow> ('w, stop_reason option) paging" where
  "page_loop pg 0 = ret None"
| "page_loop pg (Suc fuel) =
     bnd (guarded_page pg) (\<lambda>r. case r of
       Continue \<Rightarrow> page_loop pg fuel | Stopped reason \<Rightarrow> ret (Some reason) | Exhausted \<Rightarrow> ret None)"

definition run_pages :: "'w pager \<Rightarrow> int \<Rightarrow> nat \<Rightarrow> ('w, stop_reason option) paging" where
  "run_pages pg start fuel =
     bnd (in_run (gets (is_partitioned \<circ> rs_info))) (\<lambda>part.
     bnd (set_var (\<lambda>v. v\<lparr>pv_cursor_mode := (\<not> pg_incremental pg \<and> part), pv_next_seq := start\<rparr>)) (\<lambda>_.
     bnd (when_py (\<not> pg_incremental pg \<and> part) (in_run (set_retries False))) (\<lambda>_.
       page_loop pg fuel)))"

subsection \<open>Session entities\<close>

fun peek_session :: "'w pager \<Rightarrow> handle \<Rightarrow> nat \<Rightarrow> int \<Rightarrow> ('w, pager_step) paging" where
  "peek_session pg h 0 next_seq = ret Exhausted"
| "peek_session pg h (Suc fuel) next_seq =
     bnd (pager_stop pg) (\<lambda>stop. case stop of
       Some reason \<Rightarrow> ret (Stopped reason)
     | None \<Rightarrow>
         bnd (in_run (bnd (clock (pg_env pg)) (renew_session_if_needed (pg_env pg) h))) (\<lambda>_.
         bnd (in_run (on_world (sdk_peek (env_sdk (pg_env pg)) h PEEK_PAGE_SIZE next_seq))) (\<lambda>page.
           if page = [] then ret Continue
           else bnd (export_page pg h page) (\<lambda>(stop, retried). case stop of
             Some reason \<Rightarrow> ret (if reason = WATERMARK then Continue else Stopped reason)
           | None \<Rightarrow> peek_session pg h fuel (m_seq (last page) + 1)))))"

definition session_step :: "'w pager \<Rightarrow> nat \<Rightarrow> ('w, pager_step) paging" where
  "session_step pg fuel =
     bnd (pager_stop pg) (\<lambda>stop. case stop of
       Some reason \<Rightarrow> ret (Stopped reason)
     | None \<Rightarrow>
         bnd (try_py (bnd (open_pager pg True) (\<lambda>h. ret (Some h)))
               (\<lambda>e. if has_sb_class [OperationTimeoutError] e then ret None else raise e)) (\<lambda>opened. case opened of
           None \<Rightarrow> ret (Stopped NO_MORE_SESSIONS)
         | Some h \<Rightarrow>
             bnd (set_var (\<lambda>v. v\<lparr>pv_held := pv_held v @ [h]\<rparr>)) (\<lambda>_.
             bnd (in_run (gets (\<lambda>s. sdk_session_id (env_sdk (pg_env pg)) h (rs_world s)))) (\<lambda>sid.
             bnd (var pv_seen) (\<lambda>seen.
               if sid \<in> seen then ret (Stopped SESSION_REVISITED)
               else bnd (set_var (\<lambda>v. v\<lparr>pv_seen := insert sid (pv_seen v)\<rparr>)) (\<lambda>_. peek_session pg h fuel 1))))))"

definition guarded_session :: "'w pager \<Rightarrow> nat \<Rightarrow> ('w, pager_step) paging" where
  "guarded_session pg fuel =
     try_py (session_step pg fuel)
       (\<lambda>e. if is_user_exception e then raise e
            else if has_sb_class [SessionCannotBeLockedError] e then ret Continue
            else bnd (recover_pager pg e) (\<lambda>_. bnd (set_var (\<lambda>v. v\<lparr>pv_seen := {}\<rparr>)) (\<lambda>_. ret Continue)))"

text \<open>Each session may use all the fuel.\<close>

fun session_loop :: "'w pager \<Rightarrow> nat \<Rightarrow> nat \<Rightarrow> ('w, stop_reason option) paging" where
  "session_loop pg page_fuel 0 = ret None"
| "session_loop pg page_fuel (Suc fuel) =
     bnd (guarded_session pg page_fuel) (\<lambda>r. case r of
       Continue \<Rightarrow> session_loop pg page_fuel fuel | Stopped reason \<Rightarrow> ret (Some reason) | Exhausted \<Rightarrow> ret None)"

definition run_sessions :: "'w pager \<Rightarrow> nat \<Rightarrow> ('w, stop_reason option) paging" where
  "run_sessions pg fuel =
     bnd (in_run (set_retries False)) (\<lambda>_.
     bnd (in_run (on_stats (warn ''peek_sessions''))) (\<lambda>_. session_loop pg fuel fuel))"

subsection \<open>The run\<close>

definition pager_body :: "'w pager \<Rightarrow> int \<Rightarrow> nat \<Rightarrow> ('w, stop_reason option) paging" where
  "pager_body pg start fuel =
     bnd (in_run (monotonic (pg_env pg))) (\<lambda>now.
     bnd (set_var (\<lambda>v. v\<lparr>pv_deadline := now + seconds (max_duration_seconds (advanced (env_config (pg_env pg))))\<rparr>)) (\<lambda>_.
     bnd (in_run (gets (uh_retries_enabled \<circ> rs_unreadable))) (\<lambda>enabled.
       finally_py (if pg_sessions pg then run_sessions pg fuel else run_pages pg start fuel)
         (bnd (in_run (set_retries enabled)) (\<lambda>_. close_pager pg)))))"

text \<open>\<^verbatim>\<open>None\<close>: the fuel ran out.\<close>

definition peek_run :: "'w pager \<Rightarrow> nat \<Rightarrow> ('w, peek_cursor option option) run" where
  "peek_run pg fuel =
     bnd (gets (partitioned \<circ> rs_info)) (\<lambda>part.
       if pg_incremental pg \<and> part = Some True then raise (user_exception PartitionedIncremental None)
       else let start = (if pg_incremental pg then cursor_start pg else 1) in
         run_vars pager_start
           (bnd (pager_body pg start fuel) (\<lambda>r. case r of
              None \<Rightarrow> ret None
            | Some reason \<Rightarrow>
                bnd (in_run (on_stats (\<lambda>st. st\<lparr>s_stop_reason := stop_name reason\<rparr>))) (\<lambda>_.
                bnd (var id) (\<lambda>v. ret (Some (if pg_incremental pg then new_cursor pg start v else None)))))))"

end
