(* ===== verification/Peek_Facts.thy ===== *)
theory Peek_Facts
  imports Peek Loop_Facts
begin

text \<open>
  What the peek pager guarantees. Everything but exporting a page is \<open>neutral\<close>: it leaves the trace and the
  variables that tell how far the pager got alone. The locale \<open>pager_loop\<close> lifts a guarantee of exporting one
  page to the whole run; a user error, which ends the run, may leave a weaker one.
\<close>

subsection \<open>A batch in peek mode\<close>

text \<open>The rows of a batch and the retried messages are different messages of it.\<close>

definition page_acc :: "message list \<Rightarrow> batch_acc \<Rightarrow> bool" where
  "page_acc ms acc \<longleftrightarrow>
     (\<exists>qs. map row_cell (ba_rows acc) = map str_of_int qs \<and> mset qs + mset (ba_retried acc) \<subseteq># mset (map m_seq ms))"

definition same_trace :: "'w run_state \<Rightarrow> 'w run_state \<Rightarrow> bool" where
  "same_trace s s' \<longleftrightarrow> rs_trace s' = rs_trace s \<and> rs_settler_armed s' = rs_settler_armed s"

interpretation same: run_frame "same_trace :: 'w run_state \<Rightarrow> 'w run_state \<Rightarrow> bool" "\<lambda>_ _. True" env for env :: "'w env"
  by unfold_locales (auto simp: same_trace_def)

definition page_trace :: "message list \<Rightarrow> int list \<Rightarrow> 'w run_state \<Rightarrow> 'w run_state \<Rightarrow> bool" where
  "page_trace ms retried s s' \<longleftrightarrow>
     (\<exists>rows qs. rs_trace s' = rs_trace s @ (if rows = [] then [] else [EvWrite rows]) \<and>
        map row_cell rows = map str_of_int qs \<and> mset qs + mset retried \<subseteq># mset (map m_seq ms)) \<and>
     rs_settler_armed s' = rs_settler_armed s"

lemma same_handler: "keeps same_trace (on_handler f)" "keeps same_trace (count_reason r d)" "keeps same_trace (count_disposition r d)"
  by (simp_all add: on_handler_def count_reason_def count_disposition_def keeps_def wp_simps same_trace_def)

lemma peek_unreadable:
  assumes "mode_of env = PEEK"
  shows "keeps same_trace (handle_unreadable env h m err g)"
proof -
  have "\<not> lock_holding (mode_of env)" using assms by (simp add: lock_holding_def)
  then show ?thesis
    unfolding handle_unreadable_def should_retry_def Let_def retry_unreadable_def dispose_unreadable_def
    by (simp only: when_py_def if_False if_True not_False_eq_True) (intro same.keeps_basic same_handler)
qed

lemma same_to_row: "keeps same_trace (to_row env m t)"
proof -
  have "keeps same_trace (register_path lib p)" "keeps same_trace (split_now lib fs)" for lib p fs
    by (auto simp: register_path_def split_now_def keeps_def wp_simps same_trace_def split: option.split sum.split)
  moreover have "keeps same_trace (of_sum r)" for r :: "body_failure + 'b"
    by (cases r) (simp_all add: of_sum_def same.keeps_ret same.keeps_raise)
  moreover have "keeps same_trace (modify (\<lambda>s. s\<lparr>rs_stats := f (rs_stats s)\<rparr>))" for f
    by (simp add: keeps_def wp_simps same_trace_def)
  ultimately show ?thesis
    unfolding to_row_def Let_def by (intro same.keeps_rules)
qed

lemma page_acc_skip: "page_acc ms acc \<Longrightarrow> page_acc (ms @ [m]) (acc\<lparr>ba_disposed := True\<rparr>)"
  by (fastforce simp: page_acc_def intro: subset_mset.order_trans)

lemma page_acc_retry: "page_acc ms acc \<Longrightarrow> page_acc (ms @ [m]) (acc\<lparr>ba_retried := ba_retried acc @ [m_seq m]\<rparr>)"
  by (auto simp: page_acc_def)

lemma page_acc_row:
  "page_acc ms acc \<Longrightarrow> row_cell row = str_of_int (m_seq m) \<Longrightarrow>
     page_acc (ms @ [m]) (acc\<lparr>ba_rows := ba_rows acc @ [row], ba_readable := ba_readable acc @ [mb]\<rparr>)"
proof -
  assume "page_acc ms acc" and cell: "row_cell row = str_of_int (m_seq m)"
  then obtain qs where "map row_cell (ba_rows acc) = map str_of_int qs" "mset qs + mset (ba_retried acc) \<subseteq># mset (map m_seq ms)"
    by (auto simp: page_acc_def)
  with cell show ?thesis unfolding page_acc_def by (intro exI [where x = "qs @ [m_seq m]"]) simp
qed

lemma peek_read_message:
  assumes "mode_of env = PEEK" and "page_acc ms0 acc"
  shows "wp (read_message env h g t m acc) (\<lambda>acc' s'. same_trace s s' \<and> page_acc (ms0 @ [m]) acc') (\<lambda>_. same_trace s) s"
proof -
  have row: "wp (to_row env m t) (\<lambda>rb s'. row_cell (fst rb) = str_of_int (m_seq m)) (\<lambda>_ _. True) s" for s
    by (rule wp_imp [OF to_row_frame]) auto
  have handled: "wp (bnd (handle_unreadable env h m err g) (\<lambda>action.
        ret (if action = RETRY then acc\<lparr>ba_retried := ba_retried acc @ [m_seq m]\<rparr> else acc\<lparr>ba_disposed := True\<rparr>)))
      (\<lambda>acc' s'. same_trace s s' \<and> page_acc (ms0 @ [m]) acc') (\<lambda>_. same_trace s) s1" if "same_trace s s1" for s1 err
    unfolding wp_bnd wp_ret
    by (rule wp_imp [OF keepsD [OF peek_unreadable [OF assms(1)]]])
      (use that page_acc_skip [OF assms(2)] page_acc_retry [OF assms(2)] in \<open>auto simp: same_trace_def\<close>)
  show ?thesis
    unfolding read_message_def wp_bnd wp_on_stats wp_catch
    by (rule wp_imp [OF wp_conj [OF row keepsD [OF same_to_row]]])
      (use page_acc_row [OF assms(2)] handled in \<open>auto simp: wp_simps same_trace_def split: body_failure.split\<close>)
qed

lemma peek_read:
  "mode_of env = PEEK \<Longrightarrow> page_acc ms0 acc \<Longrightarrow>
   wp (read_messages env h g t ms acc) (\<lambda>acc' s'. same_trace s s' \<and> page_acc (ms0 @ ms) acc') (\<lambda>_. same_trace s) s"
proof (induction ms arbitrary: ms0 acc s)
  case Nil
  then show ?case by (simp add: wp_simps same_trace_def)
next
  case (Cons m ms)
  have next': "wp (read_messages env h g t ms acc') (\<lambda>acc' s'. same_trace s s' \<and> page_acc (ms0 @ m # ms) acc') (\<lambda>_. same_trace s) s1"
    if "same_trace s s1" "page_acc (ms0 @ [m]) acc'" for s1 acc'
    by (rule wp_imp [OF Cons.IH [OF Cons.prems(1) that(2)]]) (use that(1) in \<open>auto simp: same_trace_def\<close>)
  show ?case
    unfolding read_messages.simps wp_bnd
    by (rule wp_imp [OF peek_read_message [OF Cons.prems]]) (use next' in auto)
qed

lemma peek_settle:
  assumes "mode_of env = PEEK"
  shows "wp (for_each (settle_one env (make_settler env) h) mbs) (\<lambda>_. same_trace s) (\<lambda>_ _. False) s"
proof (rule wp_for_each_inv)
  fix mb and t :: "'a run_state"
  assume "same_trace s t"
  then show "wp (settle_one env (make_settler env) h mb) (\<lambda>_. same_trace s) (\<lambda>_ _. False) t"
    using assms by (simp add: settle_one_def make_settler_def noop_settle_def lock_holding_def wp_simps)
qed (simp add: same_trace_def)

text \<open>Reading and writing leave at most one write event; after it only a user error is raised.\<close>

lemma peek_process:
  assumes "mode_of env = PEEK"
  shows "wp (process_batch env h ms g) (\<lambda>r. page_trace ms (br_retried r) s)
    (\<lambda>e s'. same_trace s s' \<or> is_user_exception e \<and> page_trace ms [] s s') s"
proof -
  let ?E = "\<lambda>e s'. same_trace s s' \<or> is_user_exception e \<and> page_trace ms [] s s'"
  have finished: "wp (bnd (for_each (settle_one env (make_settler env) h) mbs) (\<lambda>_. bnd final_checks (\<lambda>_. ret r)))
      (\<lambda>r. page_trace ms (br_retried r) s) ?E s2"
    if "page_trace ms (br_retried r) s s2" for s2 mbs r
  proof -
    have weaker: "page_trace ms [] s v" if "page_trace ms (br_retried r) s v" for v
      using that unfolding page_trace_def by (fastforce intro: subset_mset.order_trans [rotated])
    have kept: "page_trace ms (br_retried r) s v" if "rs_trace v = rs_trace s2" "rs_settler_armed v = rs_settler_armed s2" for v
      using \<open>page_trace ms (br_retried r) s s2\<close> that by (simp add: page_trace_def)
    show ?thesis
      unfolding wp_bnd wp_ret
      by (rule wp_imp [OF peek_settle [OF assms]])
        (auto intro!: wp_imp [OF final_checks_frame] kept weaker simp: same_trace_def)
  qed
  note unfolded_finished = finished [unfolded wp_bnd [of "for_each f xs" for f xs]]
  have written: "wp (bnd (write_batch (write_output env) acc) (\<lambda>_.
        bnd (for_each (settle_one env (make_settler env) h) (ba_readable acc)) (\<lambda>_. bnd final_checks (\<lambda>_.
          ret \<lparr>br_written = length (ba_rows acc), br_needs_recycle = (ba_retried acc \<noteq> []),
               br_progressed = (ba_rows acc \<noteq> [] \<or> ba_disposed acc), br_retried = ba_retried acc\<rparr>))))
      (\<lambda>r. page_trace ms (br_retried r) s) ?E s1"
    if s1: "same_trace s s1" and acc: "page_acc ms acc" for s1 acc
  proof (cases "ba_rows acc = []")
    case True
    have "page_trace ms (ba_retried acc) s s1"
      using acc s1 True unfolding page_trace_def page_acc_def same_trace_def by (intro conjI exI [where x = "[]"]) auto
    then show ?thesis
      using True by (simp add: write_batch_def wp_bnd wp_when unfolded_finished)
  next
    case False
    have kept: "page_trace ms (ba_retried acc) s (s2\<lparr>rs_stats := st\<rparr>)" if "write_frame (ba_rows acc) s1 s2" for s2 st
    proof -
      have "rs_trace s2 = rs_trace s @ [EvWrite (ba_rows acc)]" "rs_settler_armed s2 = rs_settler_armed s"
        using that write_frame_fields(4) [OF that] s1 by (simp_all add: write_frame_def same_trace_def)
      then show ?thesis
        using acc False unfolding page_trace_def page_acc_def by (intro conjI exI [where x = "ba_rows acc"]) auto
    qed
    have raised: "same_trace s t" if "rs_trace t = rs_trace s1 \<and> rs_settler_armed t = rs_settler_armed s1" for t
      using that s1 by (simp add: same_trace_def)
    show ?thesis
      unfolding write_batch_def when_py_def if_P [OF False] wp_bnd [of "write_output env rows" for rows] wp_bnd [of "bnd m f" for m f] wp_on_stats
      by (rule wp_imp [OF program_batch.write_law]) (use raised in \<open>auto intro!: finished simp: kept\<close>)
  qed
  have read: "wp (read_messages env h g t ms empty_acc) (\<lambda>acc s'. same_trace s s' \<and> page_acc ms acc) (\<lambda>_. same_trace s)
      (s\<lparr>rs_world := w\<rparr>)" for t w
  proof -
    have "page_acc [] empty_acc" by (simp add: page_acc_def empty_acc_def)
    from peek_read [OF assms this] show ?thesis
      by (rule wp_imp) (auto simp: same_trace_def)
  qed
  obtain t w where now: "sdk_clock (env_sdk env) (rs_world s) = (t, w)" by fastforce
  show ?thesis
    unfolding process_batch_def process_def wp_bnd [of "clock env"] wp_clock now prod.case wp_bnd [of "read_messages env h g t ms acc" for t acc]
    by (rule wp_imp [OF read]) (use written in blast)+
qed

subsection \<open>Connections\<close>

text \<open>Checking for a stop, opening, closing and recovering change of the pager's variables only its connections and
  its tracker.\<close>

definition unlinked :: "pager_vars \<Rightarrow> pager_vars" where
  "unlinked v = v\<lparr>pv_tracker := new_tracker, pv_client := None, pv_receiver := None, pv_held := []\<rparr>"

definition link_frame :: "('w run_state \<Rightarrow> 'w run_state \<Rightarrow> bool) \<Rightarrow> 'w run_state \<times> pager_vars \<Rightarrow> 'w run_state \<times> pager_vars \<Rightarrow> bool" where
  "link_frame J sx sx' \<longleftrightarrow> J (fst sx) (fst sx') \<and> unlinked (snd sx') = unlinked (snd sx)"

lemma unlinked_fields:
  assumes "unlinked v' = unlinked v"
  shows "pv_processed v' = pv_processed v" "pv_high v' = pv_high v" "pv_outstanding v' = pv_outstanding v"
    "pv_taken v' = pv_taken v" "pv_deadline v' = pv_deadline v" "pv_cursor_mode v' = pv_cursor_mode v"
    "pv_next_seq v' = pv_next_seq v"
  using assms
  by (auto simp: unlinked_def dest: arg_cong [where f = pv_processed] arg_cong [where f = pv_high]
      arg_cong [where f = pv_outstanding] arg_cong [where f = pv_taken] arg_cong [where f = pv_deadline]
      arg_cong [where f = pv_cursor_mode] arg_cong [where f = pv_next_seq])

context run_frame begin

lemma frame_link: "frame (link_frame J)"
  by unfold_locales (auto simp: link_frame_def intro: frame_refl frame_trans)

lemma link_run: "keeps J m \<Longrightarrow> keeps (link_frame J) (in_run m)"
  by (auto simp: keeps_def wp_simps link_frame_def elim: wp_mono)

lemma link_vars: "(\<And>v. unlinked (f v) = unlinked v) \<Longrightarrow> keeps (link_frame J) (set_var f)" "keeps (link_frame J) (var g)"
  by (simp_all add: keeps_def wp_simps link_frame_def frame_refl)

lemmas link_rules = frame.keeps_rules [OF frame_link] link_run link_vars keeps_basic keeps_links

lemma keeps_close_option: "keeps J (close_option env h)"
  unfolding close_option_def by (intro keeps_basic keeps_links)

lemma link_parts:
  assumes env: "pg_env pg = env"
  shows link_stop: "keeps (link_frame J) (pager_stop pg)"
    and link_open: "keeps (link_frame J) (open_pager pg session)"
    and link_receiver: "keeps (link_frame J) (page_receiver pg)"
    and link_close: "keeps (link_frame J) (close_pager pg)" "keeps (link_frame J) (close_pager_receiver pg)"
    and link_recover: "keeps (link_frame J) (recover_pager pg e)"
proof -
  show "keeps (link_frame J) (pager_stop pg)"
    unfolding pager_stop_def env by (intro link_rules)
  show opens: "keeps (link_frame J) (open_pager pg session)" for session
    unfolding open_pager_def pager_client_def env by (intro link_rules) (simp add: unlinked_def)
  show "keeps (link_frame J) (page_receiver pg)"
    unfolding page_receiver_def by (intro link_rules opens) (simp add: unlinked_def)
  show closes: "keeps (link_frame J) (close_pager pg)" "keeps (link_frame J) (close_pager_receiver pg)"
    unfolding close_pager_def close_pager_receiver_def env by (intro link_rules keeps_close_option; simp add: unlinked_def)+
  have "keeps (link_frame J) (case note_failure env e t of Inl e' \<Rightarrow> raise e' | Inr t' \<Rightarrow> set_var (\<lambda>v. v\<lparr>pv_tracker := t'\<rparr>))" for t
    by (auto simp: unlinked_def split: sum.split intro!: link_rules)
  then show "keeps (link_frame J) (recover_pager pg e)"
    unfolding recover_pager_def env by (intro link_rules closes)
qed

lemma link_reveals: "keeps (link_frame J) (reveals_partitions page)"
  unfolding reveals_partitions_def note_all_def by (intro link_rules)

end

subsection \<open>Neutral steps\<close>

definition still :: "'w run_state \<Rightarrow> 'w run_state \<Rightarrow> bool" where
  "still s s' \<longleftrightarrow> same_trace s s' \<and> rs_registry s' = rs_registry s \<and> rs_pending s' = rs_pending s"

interpretation still: run_frame "still :: 'w run_state \<Rightarrow> 'w run_state \<Rightarrow> bool" "\<lambda>_ _. True" env for env :: "'w env"
  by unfold_locales (auto simp: still_def same_trace_def)

definition neutral :: "'w run_state \<times> pager_vars \<Rightarrow> 'w run_state \<times> pager_vars \<Rightarrow> bool" where
  "neutral sx sx' \<longleftrightarrow>
     still (fst sx) (fst sx') \<and> pv_processed (snd sx') = pv_processed (snd sx) \<and> pv_high (snd sx') = pv_high (snd sx) \<and>
     pv_outstanding (snd sx') = pv_outstanding (snd sx) \<and> pv_taken (snd sx') = pv_taken (snd sx)"

lemma neutral_refl [simp]: "neutral sx sx"
  by (simp add: neutral_def still_def same_trace_def)

lemma neutral_trans: "neutral sx t \<Longrightarrow> neutral t v \<Longrightarrow> neutral sx v"
  by (simp add: neutral_def still_def same_trace_def)

lemma frame_neutral: "frame neutral"
  by unfold_locales (auto intro: neutral_trans)

lemma neutral_run: "keeps still m \<Longrightarrow> keeps neutral (in_run m)"
  by (auto simp: keeps_def wp_simps neutral_def elim: wp_mono)

lemma neutral_vars:
  "(\<And>v. pv_processed (f v) = pv_processed v \<and> pv_high (f v) = pv_high v \<and> pv_outstanding (f v) = pv_outstanding v \<and>
     pv_taken (f v) = pv_taken v) \<Longrightarrow> keeps neutral (set_var f)"
  "keeps neutral (var g)"
  by (simp_all add: keeps_def wp_simps neutral_def still_def same_trace_def)

lemma still_set_retries: "keeps still (set_retries b)"
  by (simp add: set_retries_def on_handler_def keeps_def wp_simps still_def same_trace_def)

lemmas neutral_rules = frame.keeps_rules [OF frame_neutral] neutral_run neutral_vars still.keeps_basic still.keeps_links
  still_set_retries

lemma neutral_links: "keeps (link_frame still) m \<Longrightarrow> keeps neutral m"
  by (rule keepsI, rule wp_mono [OF keepsD], assumption) (auto simp: link_frame_def neutral_def dest: unlinked_fields)

lemmas neutral_parts = still.link_parts [OF refl, THEN neutral_links]

lemmas neutral_stop = neutral_parts(1) and neutral_open = neutral_parts(2) and neutral_receiver = neutral_parts(3)
  and neutral_close = neutral_parts(4,5) and neutral_recover = neutral_parts(6)
  and neutral_reveals = still.link_reveals [THEN neutral_links]

subsection \<open>The whole run\<close>

text \<open>The guarantee \<open>J\<close> of a computation whose user errors may leave \<open>K\<close> only.\<close>

definition guards :: "('s \<Rightarrow> 's \<Rightarrow> bool) \<Rightarrow> ('s \<Rightarrow> 's \<Rightarrow> bool) \<Rightarrow> (exn, 's, 'a) py \<Rightarrow> bool" where
  "guards J K m \<longleftrightarrow> (\<forall>s. wp m (\<lambda>_. J s) (\<lambda>e. if is_user_exception e then K s else J s) s)"

lemma guardsI: "(\<And>s. wp m (\<lambda>_. J s) (\<lambda>e. if is_user_exception e then K s else J s) s) \<Longrightarrow> guards J K m"
  by (simp add: guards_def)

lemma guardsD: "guards J K m \<Longrightarrow> wp m (\<lambda>_. J s) (\<lambda>e. if is_user_exception e then K s else J s) s"
  by (simp add: guards_def)

locale pager_loop = all: frame J
  for J :: "'w run_state \<times> pager_vars \<Rightarrow> 'w run_state \<times> pager_vars \<Rightarrow> bool" +
  fixes K and pg :: "'w pager" and Pg :: "message list \<Rightarrow> bool"
  assumes neutral_J: "neutral sx sx' \<Longrightarrow> J sx sx'" and J_K: "J sx sx' \<Longrightarrow> K sx sx'"
    and before: "J sx t \<Longrightarrow> K t v \<Longrightarrow> K sx v" and after: "K sx t \<Longrightarrow> neutral t v \<Longrightarrow> K sx v"
    and peeked: "wp (sdk_peek (env_sdk (pg_env pg)) h n q) (\<lambda>page _. Pg page) (\<lambda>_ _. True) w"
    and export: "Pg page \<Longrightarrow> guards J K (export_page pg h page)"
    and cleared: "pg_incremental pg \<Longrightarrow> keeps J (set_var (\<lambda>v. v\<lparr>pv_processed := {}\<rparr>))"
begin

lemma keeps_neutral: "keeps neutral m \<Longrightarrow> keeps J m"
  by (rule keepsI, rule wp_imp [OF keepsD], assumption) (auto intro: neutral_J)

lemma guards_keeps: "keeps J m \<Longrightarrow> guards J K m"
  by (rule guardsI, rule wp_imp [OF keepsD], assumption) (auto intro: J_K)

lemma guards_neutral: "keeps neutral m \<Longrightarrow> guards J K m"
  by (intro guards_keeps keeps_neutral)

lemma guards_then: "guards J K m \<Longrightarrow> J s t \<Longrightarrow> wp m (\<lambda>_. J s) (\<lambda>e. if is_user_exception e then K s else J s) t"
  by (rule wp_imp [OF guardsD]) (auto intro: all.frame_trans before)

lemma guards_bnd: "guards J K m \<Longrightarrow> (\<And>x. guards J K (f x)) \<Longrightarrow> guards J K (bnd m f)"
  by (rule guardsI, unfold wp_bnd, rule wp_imp [OF guardsD], assumption) (auto intro: guards_then)

lemma guards_try:
  "guards J K m \<Longrightarrow> (\<And>e. is_user_exception e \<Longrightarrow> h e = raise e) \<Longrightarrow> (\<And>e. \<not> is_user_exception e \<Longrightarrow> guards J K (h e)) \<Longrightarrow>
     guards J K (try_py m h)"
  by (rule guardsI, unfold wp_try, rule wp_imp [OF guardsD], assumption) (auto simp: wp_raise intro: guards_then)

lemma guards_finally:
  assumes "guards J K m" and fin: "keeps neutral fin" and quiet_fin: "\<And>t. wp fin (\<lambda>_ _. True) (\<lambda>_ _. False) t"
  shows "guards J K (finally_py m fin)"
proof -
  have kept: "wp fin (\<lambda>_. Q) E t" if "\<And>v. neutral t v \<Longrightarrow> Q v" for Q E t
    by (rule wp_imp [OF wp_conj [OF keepsD [OF fin] quiet_fin]]) (use that in auto)
  show ?thesis
    by (rule guardsI, unfold wp_finally, rule wp_imp [OF guardsD [OF assms(1)]])
      (auto split: if_splits intro!: kept intro: after all.frame_trans neutral_J)
qed

lemma guards_if: "(b \<Longrightarrow> guards J K m) \<Longrightarrow> (\<not> b \<Longrightarrow> guards J K n) \<Longrightarrow> guards J K (if b then m else n)"
  by simp

lemma guards_option: "guards J K m \<Longrightarrow> (\<And>x. guards J K (f x)) \<Longrightarrow> guards J K (case v of None \<Rightarrow> m | Some x \<Rightarrow> f x)"
  by (simp split: option.split)

lemma guards_step:
  "guards J K m \<Longrightarrow> (\<And>x. guards J K (f x)) \<Longrightarrow> guards J K n \<Longrightarrow>
     guards J K (case r of Continue \<Rightarrow> m | Stopped reason \<Rightarrow> f reason | Exhausted \<Rightarrow> n)"
  by (simp split: pager_step.split)

lemma guards_ret: "guards J K (ret x)" and guards_raise: "guards J K (raise e)" and guards_var: "guards J K (var g)"
  by (intro guards_neutral neutral_rules)+

lemma guards_peek:
  assumes "\<And>page. Pg page \<Longrightarrow> guards J K (f page)"
  shows "guards J K (bnd (in_run (on_world (sdk_peek (env_sdk (pg_env pg)) h n q))) f)"
proof (rule guardsI, unfold wp_bnd)
  fix sx
  have "keeps neutral (in_run (on_world (sdk_peek (env_sdk (pg_env pg)) h n q)))" by (intro neutral_rules)
  then have J: "wp (in_run (on_world (sdk_peek (env_sdk (pg_env pg)) h n q))) (\<lambda>_. J sx) (\<lambda>e. if is_user_exception e then K sx else J sx) sx"
    by (intro guardsD guards_neutral)
  have P: "wp (in_run (on_world (sdk_peek (env_sdk (pg_env pg)) h n q))) (\<lambda>page _. Pg page) (\<lambda>_ _. True) sx"
    unfolding wp_in_run wp_on_world by (rule peeked)
  show "wp (in_run (on_world (sdk_peek (env_sdk (pg_env pg)) h n q)))
      (\<lambda>x. wp (f x) (\<lambda>_. J sx) (\<lambda>e. if is_user_exception e then K sx else J sx))
      (\<lambda>e. if is_user_exception e then K sx else J sx) sx"
    by (rule wp_imp [OF wp_conj [OF J P]]) (auto intro!: guards_then assms)
qed

lemmas guards_rules = guards_bnd guards_if guards_option guards_step guards_ret guards_raise guards_var guards_peek

lemma guards_after: "guards J K (after_page pg page r)"
proof -
  have "guards J K (when_py (pg_incremental pg) (set_var (\<lambda>v. v\<lparr>pv_processed := {}\<rparr>)))"
    by (cases "pg_incremental pg") (simp_all add: when_py_def guards_keeps [OF cleared] guards_ret)
  moreover have "guards J K (set_var (\<lambda>v. v\<lparr>pv_tracker := note_retry (pv_tracker v)\<rparr>))"
    "guards J K (set_var (\<lambda>v. v\<lparr>pv_next_seq := q\<rparr>))" "guards J K (in_run (on_stats f))" for q f
    by (intro guards_neutral neutral_rules; simp)+
  ultimately show ?thesis
    unfolding after_page_def by (intro guards_rules guards_neutral [OF neutral_close(1)])
qed

lemma guards_page_step: "guards J K (page_step pg)"
proof -
  have reveal: "guards J K (if cm then ret False else reveals_partitions page)" for cm page
    by (intro guards_rules guards_neutral [OF neutral_reveals])
  have switch: "guards J K (bnd (set_var (\<lambda>v. v\<lparr>pv_cursor_mode := True\<rparr>)) (\<lambda>_.
      bnd (in_run (set_retries False)) (\<lambda>_. bnd (close_pager_receiver pg) (\<lambda>_. ret Continue))))"
    by (intro guards_neutral neutral_rules neutral_close) simp
  show ?thesis
    unfolding page_step_def
    by (intro guards_rules reveal switch export guards_after guards_neutral [OF neutral_stop] guards_neutral [OF neutral_receiver])
qed

lemma guards_page_loop: "guards J K (page_loop pg n)"
proof (induction n)
  case 0
  then show ?case by (simp add: guards_ret)
next
  case (Suc n)
  have "guards J K (guarded_page pg)"
    unfolding guarded_page_def
    by (rule guards_try [OF guards_page_step]) (auto intro!: guards_neutral neutral_rules neutral_recover)
  then show ?case unfolding page_loop.simps by (intro guards_rules Suc.IH)
qed

lemma guards_peek_session: "guards J K (peek_session pg h n q)"
proof (induction n arbitrary: q)
  case 0
  then show ?case by (simp add: guards_ret)
next
  case (Suc n)
  have renewed: "guards J K (in_run (bnd (clock (pg_env pg)) (renew_session_if_needed (pg_env pg) h)))"
    by (intro guards_neutral neutral_rules)
  show ?case
    unfolding peek_session.simps split_beta
    by (intro guards_rules guards_neutral [OF neutral_stop] renewed export Suc.IH)
qed

lemma guards_session_step: "guards J K (session_step pg n)"
proof -
  have opened: "guards J K (try_py (bnd (open_pager pg True) (\<lambda>h. ret (Some h)))
      (\<lambda>e. if has_sb_class [OperationTimeoutError] e then ret None else raise e))"
    by (intro guards_neutral neutral_rules neutral_open)
  have var: "guards J K (set_var (\<lambda>v. v\<lparr>pv_held := pv_held v @ [h]\<rparr>))" "guards J K (set_var (\<lambda>v. v\<lparr>pv_seen := insert i (pv_seen v)\<rparr>))"
    "guards J K (in_run (gets f))" for h i f
    by (intro guards_neutral neutral_rules; simp)+
  show ?thesis
    unfolding session_step_def
    by (intro guards_rules guards_neutral [OF neutral_stop] opened var guards_peek_session)
qed

lemma guards_session_loop: "guards J K (session_loop pg m n)"
proof (induction n)
  case 0
  then show ?case by (simp add: guards_ret)
next
  case (Suc n)
  have "guards J K (guarded_session pg m)"
    unfolding guarded_session_def
    by (rule guards_try [OF guards_session_step]) (auto intro!: guards_neutral neutral_rules neutral_recover)
  then show ?case unfolding session_loop.simps by (intro guards_rules Suc.IH)
qed

lemma guards_pager: "guards J K (pager_body pg start n)"
proof -
  have plain: "guards J K (run_pages pg start n)"
    unfolding run_pages_def
    by (rule guards_bnd, intro guards_neutral neutral_rules, rule guards_bnd, intro guards_neutral neutral_rules, simp,
        rule guards_bnd, intro guards_neutral neutral_rules, rule guards_page_loop)
  have sessions: "guards J K (run_sessions pg n)"
    unfolding run_sessions_def
    by (rule guards_bnd, intro guards_neutral neutral_rules, rule guards_bnd, intro guards_neutral neutral_rules, rule guards_session_loop)
  have closed: "wp (bnd (in_run (set_retries b)) (\<lambda>_. close_pager pg)) (\<lambda>_ _. True) (\<lambda>_ _. False) t" for b t
  proof -
    have "wp (for_each (close_option (pg_env pg)) hs) (\<lambda>_ _. True) (\<lambda>_ _. False) v" for hs v
      by (rule wp_for_each_inv) (auto simp: close_option_def close_quietly_def wp_simps split: option.split intro: wp_anything)
    then show ?thesis
      by (simp add: close_pager_def set_retries_def on_handler_def wp_bnd wp_in_run wp_modify wp_var wp_set_var del: for_each.simps)
  qed
  show ?thesis
    unfolding pager_body_def
    by (rule guards_bnd, intro guards_neutral neutral_rules, rule guards_bnd, intro guards_neutral neutral_rules, simp,
        rule guards_bnd, intro guards_neutral neutral_rules, rule guards_finally, intro guards_rules plain sessions,
        intro neutral_rules neutral_close, rule closed)
qed

end

lemma keeps_guards: "guards J J m \<longleftrightarrow> keeps J m"
  by (simp add: keeps_def guards_def)

text \<open>A guarantee of batches, of marking a message and of everything that leaves the run's state alone is one of the pager.\<close>

context run_frame begin

lemma keeps_export:
  assumes "pg_env pg = env" and batches: "\<And>h ms g. keeps J (process_batch env h ms g)" and marks: "\<And>q. keeps J (trace (EvProcessed q))"
  shows "keeps (pair_frame J) (export_page pg h page)"
proof -
  have mark: "keeps (pair_frame J) (mark_processed q)" for q
    unfolding mark_processed_def by (intro keeps_vars marks)
  have select: "keeps (pair_frame J) (select_messages pg now ms sel)" for now ms sel
  proof (induction ms arbitrary: sel)
    case Nil
    then show ?case by (simp add: vars.keeps_ret)
  next
    case (Cons m ms)
    show ?case unfolding select_messages.simps by (intro keeps_vars keeps_basic mark Cons.IH)
  qed
  have "keeps (pair_frame J) (process_page pg h ms)" for ms
    unfolding process_page_def mark_taken_def page_progress_def assms(1) by (intro keeps_vars keeps_basic mark batches)
  then show ?thesis
    unfolding export_page_def assms(1) by (intro keeps_vars keeps_basic select)
qed

lemma keeps_pager:
  assumes "pg_env pg = env" and batches: "\<And>h ms g. keeps J (process_batch env h ms g)" and stills: "\<And>s t. still s t \<Longrightarrow> J s t"
    and marks: "\<And>q. keeps J (trace (EvProcessed q))"
  shows "keeps J (peek_run pg fuel)"
proof -
  have "pager_loop (pair_frame J) (pair_frame J) pg (\<lambda>_. True)"
  proof unfold_locales
    show "guards (pair_frame J) (pair_frame J) (export_page pg h page)" for h page
      using keeps_export [OF assms(1) batches marks] by (simp add: keeps_guards)
  qed (auto simp: pair_frame_def neutral_def wp_anything intro: stills frame_trans keeps_set_var)
  then have "keeps (pair_frame J) (pager_body pg start fuel)" for start
    unfolding keeps_guards [symmetric] by (rule pager_loop.guards_pager)
  then show ?thesis
    unfolding peek_run_def Let_def by (intro keeps_basic keeps_run_vars keeps_vars)
qed

end

subsection \<open>Nothing is settled\<close>

fun peek_event :: "event \<Rightarrow> bool" where
  "peek_event (EvWrite rows) = True"
| "peek_event (EvProcessed q) = True"
| "peek_event e = False"

definition peeks :: "'w env \<Rightarrow> 'w run_state \<Rightarrow> 'w run_state \<Rightarrow> bool" where
  "peeks env s s' \<longleftrightarrow>
     (mode_of env = PEEK \<longrightarrow> extends_trace peek_event s s' \<and> rs_settler_armed s' = rs_settler_armed s)"

interpretation peeks: run_frame "peeks env" "\<lambda>_ _. True" env for env :: "'w env"
  by unfold_locales (auto simp: peeks_def intro: extends_trace_trans, simp add: extends_trace_def)

lemma peeks_same: "same_trace s t \<Longrightarrow> peeks env s t"
  by (simp add: peeks_def same_trace_def extends_trace_def)

lemma peeks_process: "keeps (peeks env) (process_batch env h ms g)"
proof (cases "mode_of env = PEEK")
  case True
  have page: "peeks env s t" if "page_trace ms retried s t" for s t retried
    using that by (auto simp: page_trace_def peeks_def extends_trace_def)
  show ?thesis
    by (rule keepsI, rule wp_imp [OF peek_process [OF True]]) (auto intro: page peeks_same)
next
  case False
  then show ?thesis by (auto simp: keeps_def peeks_def intro: wp_anything)
qed

lemma peeks_run: "keeps (peeks (pg_env pg)) (peek_run pg fuel)"
  by (rule peeks.keeps_pager [OF refl peeks_process]) (auto simp: still_def same_trace_def keeps_def wp_simps peeks_def extends_trace_def)

text \<open>Peek mode only reads: whatever the entity holds, the SDK does and however the run ends, the pager writes rows
  and marks messages as processed, but completes, defers, abandons and dead-letters nothing and never arms
  \<^verbatim>\<open>write_always\<close>.\<close>
theorem peek_settles_nothing:
  assumes "mode_of (pg_env pg) = PEEK"
  shows "\<exists>new. rs_trace (snd (peek_run pg fuel s)) = rs_trace s @ new \<and> list_all peek_event new \<and>
    rs_settler_armed (snd (peek_run pg fuel s)) = rs_settler_armed s"
  using keeps_run [OF peeks_run, of pg s fuel] assms by (auto simp: peeks_def extends_trace_def list_all_iff)

subsection \<open>Exporting a page\<close>

fun written_cells_of :: "event \<Rightarrow> pystr list" where
  "written_cells_of (EvWrite rows) = map row_cell rows"
| "written_cells_of e = []"

definition exported_cells :: "'w run_state \<Rightarrow> pystr list" where
  "exported_cells s = concat (map written_cells_of (rs_trace s))"

text \<open>What exporting a page of different messages adds: the rows' sequence numbers \<open>qs\<close>, new and of the page.\<close>

definition adds_rows :: "message list \<Rightarrow> int list \<Rightarrow> 'w run_state \<times> pager_vars \<Rightarrow> 'w run_state \<Rightarrow> bool" where
  "adds_rows page qs sx s' \<longleftrightarrow>
     exported_cells s' = exported_cells (fst sx) @ map str_of_int qs \<and> distinct qs \<and>
     set qs \<subseteq> m_seq ` set page - pv_processed (snd sx)"

definition within :: "'w pager \<Rightarrow> int \<Rightarrow> bool" where
  "within pg n \<longleftrightarrow> (0 < max_messages (pg_limits pg) \<longrightarrow> n \<le> max_messages (pg_limits pg))"

definition exported :: "'w pager \<Rightarrow> message list \<Rightarrow> 'w run_state \<times> pager_vars \<Rightarrow> 'w run_state \<times> pager_vars \<Rightarrow> bool" where
  "exported pg page sx sx' \<longleftrightarrow>
     (\<exists>qs. adds_rows page qs sx (fst sx') \<and> set qs \<subseteq> pv_processed (snd sx') \<and>
        int (length qs) \<le> pv_taken (snd sx') - pv_taken (snd sx)) \<and>
     pv_processed (snd sx) \<subseteq> pv_processed (snd sx') \<and> (within pg (pv_taken (snd sx)) \<longrightarrow> within pg (pv_taken (snd sx')))"

definition interrupted :: "'w pager \<Rightarrow> message list \<Rightarrow> 'w run_state \<times> pager_vars \<Rightarrow> 'w run_state \<times> pager_vars \<Rightarrow> bool" where
  "interrupted pg page sx sx' \<longleftrightarrow>
     (\<exists>qs. adds_rows page qs sx (fst sx') \<and>
        (within pg (pv_taken (snd sx)) \<longrightarrow> within pg (pv_taken (snd sx) + int (length qs))))"

text \<open>The selection: messages of the page that are not processed, as many as \<^verbatim>\<open>max_messages\<close> allows.\<close>

definition selected_of :: "'w pager \<Rightarrow> message list \<Rightarrow> message list \<Rightarrow> 'w run_state \<times> pager_vars \<Rightarrow>
    message list \<Rightarrow> 'w run_state \<times> pager_vars \<Rightarrow> bool" where
  "selected_of pg page sel sx sel' sx' \<longleftrightarrow>
     (\<exists>new. sel' = sel @ new \<and> distinct (map m_seq new) \<and> m_seq ` set new \<subseteq> m_seq ` set page - pv_processed (snd sx')) \<and>
     exported_cells (fst sx') = exported_cells (fst sx) \<and> pv_taken (snd sx') = pv_taken (snd sx) \<and>
     pv_processed (snd sx) \<subseteq> pv_processed (snd sx') \<and> pv_processed (snd sx') \<subseteq> pv_processed (snd sx) \<union> m_seq ` set page \<and>
     (within pg (pv_taken (snd sx) + int (length sel)) \<longrightarrow> within pg (pv_taken (snd sx) + int (length sel')))"

lemma wp_mark [wp_simps]:
  "wp (mark_processed q) Q E sx =
     Q () ((fst sx)\<lparr>rs_trace := rs_trace (fst sx) @ [EvProcessed q]\<rparr>,
       (snd sx)\<lparr>pv_processed := insert q (pv_processed (snd sx)),
         pv_high := Some (case pv_high (snd sx) of None \<Rightarrow> q | Some h \<Rightarrow> max h q)\<rparr>)"
  by (simp add: mark_processed_def wp_simps)

lemma exported_cells_simps [simp]:
  "exported_cells (s\<lparr>rs_trace := rs_trace s' @ es\<rparr>) = exported_cells s' @ concat (map written_cells_of es)"
  "exported_cells (s\<lparr>rs_stats := st\<rparr>) = exported_cells s" "exported_cells (s\<lparr>rs_world := w\<rparr>) = exported_cells s"
  by (simp_all add: exported_cells_def)

lemma selected_later:
  assumes "selected_of pg ms sel t sel' v" and "m_seq m \<notin> m_seq ` set ms"
    and "exported_cells (fst t) = exported_cells (fst sx)" and "pv_taken (snd t) = pv_taken (snd sx)"
    and "pv_processed (snd sx) \<subseteq> pv_processed (snd t)" and "pv_processed (snd t) \<subseteq> insert (m_seq m) (pv_processed (snd sx))"
  shows "selected_of pg (m # ms) sel sx sel' v"
proof -
  from assms(1) obtain new where new: "sel' = sel @ new" "distinct (map m_seq new)"
    "m_seq ` set new \<subseteq> m_seq ` set ms - pv_processed (snd v)" by (auto simp: selected_of_def)
  then have "m_seq ` set new \<subseteq> m_seq ` set (m # ms) - pv_processed (snd v)" by fastforce
  moreover have "pv_processed (snd v) \<subseteq> pv_processed (snd sx) \<union> m_seq ` set (m # ms)"
    using assms(1,6) by (auto simp: selected_of_def)
  ultimately show ?thesis
    using assms(1,3-5) new unfolding selected_of_def by (intro conjI exI [where x = new]) auto
qed

lemma selected_now:
  assumes "selected_of pg ms (sel @ [m]) sx sel' v" and "m_seq m \<notin> m_seq ` set ms" and "m_seq m \<notin> pv_processed (snd sx)"
    and "\<not> (0 < max_messages (pg_limits pg) \<and> max_messages (pg_limits pg) \<le> pv_taken (snd sx) + int (length sel))"
  shows "selected_of pg (m # ms) sel sx sel' v"
proof -
  from assms(1) obtain new where new: "sel' = sel @ m # new" "distinct (map m_seq new)"
    "m_seq ` set new \<subseteq> m_seq ` set ms - pv_processed (snd v)" by (auto simp: selected_of_def)
  have "m_seq m \<notin> pv_processed (snd v)" using assms(1-3) by (auto simp: selected_of_def)
  moreover have "m_seq m \<notin> m_seq ` set new" using new(3) assms(2) by auto
  ultimately show ?thesis
    using assms(1,4) new unfolding selected_of_def within_def by (intro conjI exI [where x = "m # new"]) auto
qed

lemma select_messages_selected:
  "distinct (map m_seq ms) \<Longrightarrow> wp (select_messages pg now ms sel) (\<lambda>r. selected_of pg ms sel sx (fst r)) (\<lambda>_ _. False) sx"
proof (induction ms arbitrary: sel sx)
  case Nil
  then show ?case by (simp add: wp_ret selected_of_def)
next
  case (Cons m ms)
  have m: "m_seq m \<notin> m_seq ` set ms" and ms: "distinct (map m_seq ms)" using Cons.prems by auto
  have stop: "selected_of pg (m # ms) sel sx sel sx" by (auto simp: selected_of_def)
  have skip: "wp (select_messages pg now ms sel) (\<lambda>r. selected_of pg (m # ms) sel sx (fst r)) (\<lambda>_ _. False) t"
    if "exported_cells (fst t) = exported_cells (fst sx)" "pv_taken (snd t) = pv_taken (snd sx)"
      "pv_processed (snd sx) \<subseteq> pv_processed (snd t)" "pv_processed (snd t) \<subseteq> insert (m_seq m) (pv_processed (snd sx))" for t
    by (rule wp_imp [OF Cons.IH [OF ms]]) (use selected_later [OF _ m that] in auto)
  have take: "wp (select_messages pg now ms (sel @ [m])) (\<lambda>r. selected_of pg (m # ms) sel sx (fst r)) (\<lambda>_ _. False) sx"
    if "m_seq m \<notin> pv_processed (snd sx)"
      "\<not> (0 < max_messages (pg_limits pg) \<and> max_messages (pg_limits pg) \<le> pv_taken (snd sx) + int (length sel))"
    by (rule wp_imp [OF Cons.IH [OF ms]]) (use selected_now [OF _ m that] in auto)
  show ?case
    by (simp add: wp_bnd wp_var wp_in_run wp_on_stats wp_mark wp_ret) (auto simp: wp_ret stop intro!: skip take)
qed

lemma mark_all:
  "wp (for_each (mark_taken retried) ms)
     (\<lambda>_ t. exported_cells (fst t) = exported_cells (fst sx) \<and>
        pv_processed (snd t) = pv_processed (snd sx) \<union> (m_seq ` set ms - set retried) \<and>
        pv_taken (snd t) = pv_taken (snd sx) + int (length (filter (\<lambda>m. m_seq m \<notin> set retried) ms)))
     (\<lambda>_ _. False) sx"
proof (induction ms arbitrary: sx)
  case Nil
  then show ?case by (simp add: wp_ret)
next
  case (Cons m ms)
  show ?case
  proof (cases "m_seq m \<in> set retried")
    case True
    then show ?thesis
      unfolding for_each.simps wp_bnd mark_taken_def [of retried m] wp_when by (simp add: wp_ret) (rule wp_imp [OF Cons.IH], auto)
  next
    case False
    show ?thesis
      unfolding for_each.simps wp_bnd mark_taken_def [of retried m] wp_when wp_mark wp_set_var
      by (simp only: False not_False_eq_True if_True, rule wp_imp [OF Cons.IH]) (use False in auto)
  qed
qed

text \<open>The written and the retried messages of a selection are different, so each written one is taken.\<close>

lemma distinct_counts: "distinct xs \<longleftrightarrow> (\<forall>x. count (mset xs) x \<le> 1)"
proof (induction xs)
  case (Cons x xs)
  show ?case
  proof
    assume "distinct (x # xs)"
    then have "count (mset xs) x = 0" "\<forall>y. count (mset xs) y \<le> 1" using Cons.IH by auto
    moreover have "count (mset (x # xs)) y = (if x = y then Suc (count (mset xs) y) else count (mset xs) y)" for y by simp
    ultimately show "\<forall>y. count (mset (x # xs)) y \<le> 1" by (metis One_nat_def le_refl)
  next
    assume le: "\<forall>y. count (mset (x # xs)) y \<le> 1"
    have "count (mset xs) y \<le> count (mset (x # xs)) y" for y by simp
    then have "count (mset xs) y \<le> 1" for y using le order_trans by blast
    moreover have "count (mset xs) x = 0" using le [rule_format, of x] by simp
    ultimately show "distinct (x # xs)" using Cons.IH by (simp add: count_eq_zero_iff)
  qed
qed simp

lemma taken_rows:
  assumes "mset qs + mset retried \<subseteq># mset (map m_seq ms)" and "distinct (map m_seq ms)"
  shows "distinct qs \<and> set qs \<subseteq> m_seq ` set ms - set retried \<and> length qs \<le> length (filter (\<lambda>m. m_seq m \<notin> set retried) ms)"
proof -
  have "distinct (qs @ retried)"
  proof -
    have "count (mset (qs @ retried)) q \<le> count (mset (map m_seq ms)) q" for q
      using mset_subset_eq_count [OF assms(1), of q] by simp
    moreover have "count (mset (map m_seq ms)) q \<le> 1" for q
      using assms(2) by (simp only: distinct_counts)
    ultimately show ?thesis
      unfolding distinct_counts by (blast intro: order_trans)
  qed
  moreover have "set qs \<subseteq> m_seq ` set ms"
    using assms(1) by (metis (no_types, lifting) image_set le_sup_iff set_mset_mono set_mset_mset set_mset_union)
  ultimately have set: "distinct qs" "set qs \<subseteq> m_seq ` set (filter (\<lambda>m. m_seq m \<notin> set retried) ms)" by auto
  have "distinct (map m_seq (filter (\<lambda>m. m_seq m \<notin> set retried) ms))" using assms(2) by (simp add: distinct_map_filter)
  then have "length (filter (\<lambda>m. m_seq m \<notin> set retried) ms) = card (m_seq ` set (filter (\<lambda>m. m_seq m \<notin> set retried) ms))"
    by (metis distinct_card length_map list.set_map)
  moreover have "card (set qs) \<le> card (m_seq ` set (filter (\<lambda>m. m_seq m \<notin> set retried) ms))" using set(2) by (intro card_mono) auto
  ultimately show ?thesis using set distinct_card [OF set(1)] by auto
qed

text \<open>Exporting a page of different messages.\<close>

lemma page_trace_rows:
  assumes "page_trace sel retried s s'" and "distinct (map m_seq sel)"
  obtains qs where "exported_cells s' = exported_cells s @ map str_of_int qs" "distinct qs"
    "set qs \<subseteq> m_seq ` set sel - set retried" "length qs \<le> length (filter (\<lambda>m. m_seq m \<notin> set retried) sel)"
proof -
  from assms(1) obtain rows qs where trace: "rs_trace s' = rs_trace s @ (if rows = [] then [] else [EvWrite rows])"
    and cells: "map row_cell rows = map str_of_int qs" and page: "mset qs + mset retried \<subseteq># mset (map m_seq sel)"
    by (auto simp: page_trace_def)
  have "exported_cells s' = exported_cells s @ map str_of_int qs"
    using trace cells by (cases "rows = []") (simp_all add: exported_cells_def)
  then show thesis using taken_rows [OF page assms(2)] that by blast
qed

lemma same_trace_cells: "same_trace s t \<Longrightarrow> exported_cells t = exported_cells s"
  by (simp add: same_trace_def exported_cells_def)

definition taken_page :: "message list \<Rightarrow> 'w run_state \<times> pager_vars \<Rightarrow> 'w run_state \<times> pager_vars \<Rightarrow> bool" where
  "taken_page sel sx t \<longleftrightarrow>
     (\<exists>qs. exported_cells (fst t) = exported_cells (fst sx) @ map str_of_int qs \<and> distinct qs \<and> set qs \<subseteq> m_seq ` set sel \<and>
        set qs \<subseteq> pv_processed (snd t) \<and> int (length qs) \<le> pv_taken (snd t) - pv_taken (snd sx)) \<and>
     pv_processed (snd sx) \<subseteq> pv_processed (snd t) \<and> pv_taken (snd t) \<le> pv_taken (snd sx) + int (length sel)"

definition broken_page :: "message list \<Rightarrow> exn \<Rightarrow> 'w run_state \<times> pager_vars \<Rightarrow> 'w run_state \<times> pager_vars \<Rightarrow> bool" where
  "broken_page sel e sx t \<longleftrightarrow>
     (\<exists>qs. exported_cells (fst t) = exported_cells (fst sx) @ map str_of_int qs \<and> distinct qs \<and> set qs \<subseteq> m_seq ` set sel \<and>
        length qs \<le> length sel \<and> (qs \<noteq> [] \<longrightarrow> is_user_exception e)) \<and>
     pv_processed (snd t) = pv_processed (snd sx) \<and> pv_taken (snd t) = pv_taken (snd sx)"

lemma process_page_exported:
  assumes mode: "mode_of (pg_env pg) = PEEK" and sel: "distinct (map m_seq sel)"
  shows "wp (process_page pg h sel) (\<lambda>_. taken_page sel sx) (\<lambda>e. broken_page sel e sx) sx"
proof -
  have taken: "wp (for_each (mark_taken (br_retried r)) sel) (\<lambda>_. taken_page sel sx) (\<lambda>e. broken_page sel e sx) t"
    if page: "page_trace sel (br_retried r) (fst sx) s'" and t: "fst t = s'" "pv_processed (snd t) = pv_processed (snd sx)"
      "pv_taken (snd t) = pv_taken (snd sx)" for r s' t
  proof -
    obtain qs where qs: "exported_cells s' = exported_cells (fst sx) @ map str_of_int qs" "distinct qs"
      "set qs \<subseteq> m_seq ` set sel - set (br_retried r)" "length qs \<le> length (filter (\<lambda>m. m_seq m \<notin> set (br_retried r)) sel)"
      using page_trace_rows [OF page sel] .
    have le: "length (filter (\<lambda>m. m_seq m \<notin> set (br_retried r)) sel) \<le> length sel" by simp
    show ?thesis
      by (rule wp_imp [OF mark_all [where sx = t]]) (use qs t le in \<open>auto simp: taken_page_def\<close>)
  qed
  have failed: "broken_page sel e sx t"
    if "same_trace (fst sx) s' \<or> is_user_exception e \<and> page_trace sel [] (fst sx) s'"
      and t: "fst t = s'" "pv_processed (snd t) = pv_processed (snd sx)" "pv_taken (snd t) = pv_taken (snd sx)" for e s' t
    using that(1)
  proof
    assume "same_trace (fst sx) s'"
    then show ?thesis using t by (auto simp: broken_page_def same_trace_cells intro: exI [where x = "[]"])
  next
    assume user: "is_user_exception e \<and> page_trace sel [] (fst sx) s'"
    obtain qs where "exported_cells s' = exported_cells (fst sx) @ map str_of_int qs" "distinct qs"
      "set qs \<subseteq> m_seq ` set sel - set []" "length qs \<le> length (filter (\<lambda>m. m_seq m \<notin> set []) sel)"
      using page_trace_rows [OF conjunct2 [OF user] sel] .
    then show ?thesis using user t by (auto simp: broken_page_def)
  qed
  show ?thesis
    unfolding process_page_def page_progress_def wp_bnd wp_in_run wp_gets wp_var wp_finally wp_when wp_set_var wp_ret
    by (rule wp_imp [OF peek_process [OF mode]]) (auto intro!: taken failed)
qed

lemma selection_rows:
  assumes "selected_of pg page [] sx sel v" and "exported_cells s' = exported_cells (fst v) @ map str_of_int qs"
    and "distinct qs" and "set qs \<subseteq> m_seq ` set sel"
  shows "adds_rows page qs sx s'"
proof -
  from assms(1) have sel: "m_seq ` set sel \<subseteq> m_seq ` set page - pv_processed (snd v)"
    and v: "exported_cells (fst v) = exported_cells (fst sx)" "pv_processed (snd sx) \<subseteq> pv_processed (snd v)"
    by (auto simp: selected_of_def)
  have "set qs \<subseteq> m_seq ` set page - pv_processed (snd sx)"
    by (rule order_trans [OF assms(4) order_trans [OF sel Diff_mono [OF order_refl v(2)]]])
  then show ?thesis using assms(2,3) v(1) by (simp add: adds_rows_def)
qed

lemma selected_taken:
  assumes "selected_of pg page [] sx sel v" "taken_page sel v t"
  shows "exported pg page sx t"
proof -
  from assms(2) obtain qs where qs: "exported_cells (fst t) = exported_cells (fst v) @ map str_of_int qs" "distinct qs"
    "set qs \<subseteq> m_seq ` set sel" "set qs \<subseteq> pv_processed (snd t)" "int (length qs) \<le> pv_taken (snd t) - pv_taken (snd v)"
    by (auto simp: taken_page_def)
  have u: "pv_taken (snd v) = pv_taken (snd sx)"
    "pv_processed (snd sx) \<subseteq> pv_processed (snd v)" "within pg (pv_taken (snd sx)) \<longrightarrow> within pg (pv_taken (snd sx) + int (length sel))"
    using assms(1) by (auto simp: selected_of_def)
  have t: "pv_processed (snd v) \<subseteq> pv_processed (snd t)" "pv_taken (snd t) \<le> pv_taken (snd v) + int (length sel)"
    using assms(2) by (auto simp: taken_page_def)
  have "within pg (pv_taken (snd sx)) \<longrightarrow> within pg (pv_taken (snd t))" using u(1,3) t(2) by (auto simp: within_def)
  then show ?thesis using selection_rows [OF assms(1) qs(1-3)] qs(4,5) u(1,2) t(1) unfolding exported_def by auto
qed

lemma selected_broken:
  assumes "selected_of pg page [] sx sel v" "broken_page sel e v t"
  shows "if is_user_exception e then interrupted pg page sx t else exported pg page sx t"
proof -
  from assms(2) obtain qs where qs: "exported_cells (fst t) = exported_cells (fst v) @ map str_of_int qs" "distinct qs"
    "set qs \<subseteq> m_seq ` set sel" "length qs \<le> length sel" "qs \<noteq> [] \<longrightarrow> is_user_exception e"
    and t: "pv_processed (snd t) = pv_processed (snd v)" "pv_taken (snd t) = pv_taken (snd v)"
    by (auto simp: broken_page_def)
  have u: "pv_taken (snd v) = pv_taken (snd sx)"
    "pv_processed (snd sx) \<subseteq> pv_processed (snd v)" "within pg (pv_taken (snd sx)) \<longrightarrow> within pg (pv_taken (snd sx) + int (length sel))"
    using assms(1) by (auto simp: selected_of_def)
  have rows: "adds_rows page qs sx (fst t)" by (rule selection_rows [OF assms(1) qs(1-3)])
  show ?thesis
  proof (cases "is_user_exception e")
    case True
    have "within pg (pv_taken (snd sx)) \<longrightarrow> within pg (pv_taken (snd sx) + int (length qs))"
      using u(3) qs(4) by (auto simp: within_def)
    with rows True show ?thesis unfolding interrupted_def by auto
  next
    case False
    then show ?thesis using rows qs(5) t u(1,2) unfolding exported_def by (auto intro!: exI [where x = "[]"])
  qed
qed

lemma exported_page:
  assumes mode: "mode_of (pg_env pg) = PEEK" and page: "distinct (map m_seq page)"
  shows "wp (export_page pg h page) (\<lambda>_. exported pg page sx)
     (\<lambda>e t. if is_user_exception e then interrupted pg page sx t else exported pg page sx t) sx"
proof -
  have none: "taken_page [] u u" for u :: "'a run_state \<times> pager_vars" by (simp add: taken_page_def)
  have frame: "exported_cells (fst t') = exported_cells (fst t) \<Longrightarrow> snd t' = (snd t)\<lparr>pv_outstanding := q\<rparr> \<Longrightarrow>
      exported pg page sx t \<Longrightarrow> exported pg page sx t'" for t t' q
    by (simp add: exported_def adds_rows_def)
  obtain now w where now: "sdk_clock (env_sdk (pg_env pg)) (rs_world (fst sx)) = (now, w)" by fastforce
  have clocked: "selected_of pg page [] ((fst sx)\<lparr>rs_world := w\<rparr>, snd sx) sel u \<Longrightarrow> selected_of pg page [] sx sel u" for sel u
    by (simp add: selected_of_def)
  have processed: "wp (if sel \<noteq> [] then process_page pg h sel else ret []) (\<lambda>_. taken_page sel u) (\<lambda>e. broken_page sel e u) u"
    if "selected_of pg page [] sx sel u" for sel u
    using that none process_page_exported [OF mode] by (auto simp: wp_ret selected_of_def)
  have tail: "wp (bnd (set_var (\<lambda>v. v\<lparr>pv_outstanding := q\<rparr>)) (\<lambda>_. bnd (in_run (gets (is_partitioned \<circ> rs_info))) (\<lambda>part.
      bnd (when_py (stop = Some WATERMARK \<and> (part \<or> pg_sessions pg)) (in_run (on_stats (warn ''watermark_approximate'')))) (\<lambda>_.
        ret (stop, retried))))) (\<lambda>_. exported pg page sx) E t" if "exported pg page sx t" for q stop retried E t
    using that by (simp add: wp_bnd wp_set_var wp_in_run wp_gets wp_when wp_on_stats wp_ret)
      (simp add: exported_def adds_rows_def)
  define E where "E e t \<longleftrightarrow> (if is_user_exception e then interrupted pg page sx t else exported pg page sx t)" for e t
  have finished: "wp (bnd (if sel \<noteq> [] then process_page pg h sel else ret []) (\<lambda>retried.
      bnd (set_var (\<lambda>v. v\<lparr>pv_outstanding := (if retried = [] then None else Some (Min (set retried)))\<rparr>)) (\<lambda>_.
      bnd (in_run (gets (is_partitioned \<circ> rs_info))) (\<lambda>part.
      bnd (when_py (stop = Some WATERMARK \<and> (part \<or> pg_sessions pg)) (in_run (on_stats (warn ''watermark_approximate'')))) (\<lambda>_.
        ret (stop, retried)))))) (\<lambda>_. exported pg page sx) E v"
    if "selected_of pg page [] ((fst sx)\<lparr>rs_world := w\<rparr>, snd sx) sel v" for sel stop v
    unfolding wp_bnd [of "if b then m else n" for b m n]
    by (rule wp_imp [OF processed [OF clocked [OF that]]])
      (auto intro!: tail intro: selected_taken [OF clocked [OF that]] selected_broken [OF clocked [OF that], folded E_def])
  have "wp (export_page pg h page) (\<lambda>_. exported pg page sx) E sx"
    unfolding export_page_def wp_bnd [of "in_run (clock env)" for env] wp_in_run wp_clock now split_beta fst_conv snd_conv
      wp_bnd [of "select_messages pg now page sel" for sel]
    by (rule wp_imp [OF select_messages_selected [OF page]]) (use finished in blast)+
  then show ?thesis by (simp only: E_def [abs_def])
qed

subsection \<open>The limit and single exports\<close>

text \<open>What the pager relies on: in peek mode, the messages of a page have different sequence numbers.\<close>

definition distinct_pages :: "'w env \<Rightarrow> bool" where
  "distinct_pages env \<longleftrightarrow>
     (\<forall>h n q w. wp (sdk_peek (env_sdk env) h n q) (\<lambda>page _. distinct (map m_seq page)) (\<lambda>_ _. True) w)"

definition reliable :: "'w pager \<Rightarrow> bool" where
  "reliable pg \<longleftrightarrow> mode_of (pg_env pg) = PEEK \<and> distinct_pages (pg_env pg)"

definition limited :: "'w pager \<Rightarrow> 'w run_state \<times> pager_vars \<Rightarrow> 'w run_state \<times> pager_vars \<Rightarrow> bool" where
  "limited pg sx sx' \<longleftrightarrow> (reliable pg \<and> within pg (pv_taken (snd sx)) \<longrightarrow>
     within pg (pv_taken (snd sx')) \<and>
     (\<exists>cells. exported_cells (fst sx') = exported_cells (fst sx) @ cells \<and>
        int (length cells) \<le> pv_taken (snd sx') - pv_taken (snd sx)))"

definition limited_rows :: "'w pager \<Rightarrow> 'w run_state \<times> pager_vars \<Rightarrow> 'w run_state \<times> pager_vars \<Rightarrow> bool" where
  "limited_rows pg sx sx' \<longleftrightarrow> (reliable pg \<and> within pg (pv_taken (snd sx)) \<longrightarrow>
     (\<exists>cells. exported_cells (fst sx') = exported_cells (fst sx) @ cells \<and>
        within pg (pv_taken (snd sx) + int (length cells))))"

lemma limited_trans:
  assumes "limited pg sx t" and "limited pg t v"
  shows "limited pg sx v"
proof (cases "reliable pg \<and> within pg (pv_taken (snd sx))")
  case True
  with assms obtain cs ds where "within pg (pv_taken (snd v))"
    "exported_cells (fst v) = exported_cells (fst sx) @ cs @ ds" "int (length (cs @ ds)) \<le> pv_taken (snd v) - pv_taken (snd sx)"
    unfolding limited_def by fastforce
  then show ?thesis unfolding limited_def by blast
qed (auto simp: limited_def)

lemma limited_before:
  assumes "limited pg sx t" and "limited_rows pg t v"
  shows "limited_rows pg sx v"
proof (cases "reliable pg \<and> within pg (pv_taken (snd sx))")
  case True
  with assms obtain cs ds where "exported_cells (fst v) = exported_cells (fst sx) @ cs @ ds"
    "int (length cs) \<le> pv_taken (snd t) - pv_taken (snd sx)" "within pg (pv_taken (snd t) + int (length ds))"
    unfolding limited_def limited_rows_def by fastforce
  moreover from this have "within pg (pv_taken (snd sx) + int (length (cs @ ds)))" by (auto simp: within_def)
  ultimately show ?thesis unfolding limited_rows_def by blast
qed (auto simp: limited_rows_def)

lemma neutral_cells: "neutral sx t \<Longrightarrow> exported_cells (fst t) = exported_cells (fst sx)"
  by (simp add: neutral_def still_def same_trace_cells)

lemma export_guards:
  assumes "reliable pg \<Longrightarrow> distinct (map m_seq page)"
    and "\<And>sx t. \<not> reliable pg \<Longrightarrow> J sx t" and "\<And>sx t. \<not> reliable pg \<Longrightarrow> K sx t"
    and "\<And>sx t. reliable pg \<Longrightarrow> exported pg page sx t \<Longrightarrow> J sx t"
    and "\<And>sx t. reliable pg \<Longrightarrow> interrupted pg page sx t \<Longrightarrow> K sx t"
  shows "guards J K (export_page pg h page)"
proof (cases "reliable pg")
  case True
  then have "mode_of (pg_env pg) = PEEK" by (simp add: reliable_def)
  then show ?thesis
    by (intro guardsI, intro wp_imp [OF exported_page [OF _ assms(1) [OF True]]]) (auto simp: assms(4,5) [OF True])
next
  case False
  then show ?thesis by (auto intro!: guardsI wp_anything simp: assms(2,3))
qed

lemma reliable_peek:
  "wp (sdk_peek (env_sdk (pg_env pg)) h n q) (\<lambda>page _. reliable pg \<longrightarrow> distinct (map m_seq page)) (\<lambda>_ _. True) w"
  by (cases "reliable pg") (auto simp: reliable_def distinct_pages_def intro: wp_anything)

interpretation limit: pager_loop "limited pg" "limited_rows pg" pg "\<lambda>page. reliable pg \<longrightarrow> distinct (map m_seq page)"
  for pg :: "'w pager"
proof unfold_locales
  show "limited pg sx sx" for sx :: "'w run_state \<times> pager_vars" by (simp add: limited_def)
  show "limited_rows pg sx t" if "limited pg sx t" for sx t :: "'w run_state \<times> pager_vars"
    using that unfolding limited_def limited_rows_def within_def by fastforce
  show "limited_rows pg sx v" if "limited pg sx t" "limited_rows pg t v" for sx t v :: "'w run_state \<times> pager_vars"
    using that by (rule limited_before)
  show "limited pg sx v" if "limited pg sx t" "limited pg t v" for sx t v :: "'w run_state \<times> pager_vars"
    using that by (rule limited_trans)
  show "limited_rows pg sx v" if "limited_rows pg sx t" "neutral t v" for sx t v :: "'w run_state \<times> pager_vars"
    using that by (simp add: limited_rows_def neutral_cells)
  show "guards (limited pg) (limited_rows pg) (export_page pg h page)" if "reliable pg \<longrightarrow> distinct (map m_seq page)" for h page
    using that by (intro export_guards)
      (auto simp: limited_def limited_rows_def exported_def interrupted_def adds_rows_def)
qed (auto simp: limited_def neutral_def still_def same_trace_cells keeps_def wp_simps intro: reliable_peek)

text \<open>Each message is exported once: every row of the run is a processed message's.\<close>

definition once :: "'w pager \<Rightarrow> pystr list \<Rightarrow> 'w run_state \<times> pager_vars \<Rightarrow> bool" where
  "once pg before sx \<longleftrightarrow> (reliable pg \<and> \<not> pg_incremental pg \<longrightarrow>
     (\<exists>qs. exported_cells (fst sx) = before @ map str_of_int qs \<and> distinct qs \<and> set qs \<subseteq> pv_processed (snd sx)))"

definition once_rows :: "'w pager \<Rightarrow> pystr list \<Rightarrow> 'w run_state \<times> pager_vars \<Rightarrow> bool" where
  "once_rows pg before sx \<longleftrightarrow> (reliable pg \<and> \<not> pg_incremental pg \<longrightarrow>
     (\<exists>qs. exported_cells (fst sx) = before @ map str_of_int qs \<and> distinct qs))"

lemma once_export:
  assumes "once pg before sx" and "adds_rows page qs sx s'"
  shows "once_rows pg before (s', v)"
    and "set qs \<subseteq> pv_processed v \<Longrightarrow> pv_processed (snd sx) \<subseteq> pv_processed v \<Longrightarrow> once pg before (s', v)"
proof -
  have rows: "\<exists>ps. exported_cells s' = before @ map str_of_int ps \<and> distinct ps \<and> set ps \<subseteq> pv_processed (snd sx) \<union> set qs"
    if "reliable pg \<and> \<not> pg_incremental pg"
  proof -
    from assms(1) that obtain ps where ps: "exported_cells (fst sx) = before @ map str_of_int ps" "distinct ps"
      "set ps \<subseteq> pv_processed (snd sx)" by (auto simp: once_def)
    with assms(2) have "distinct (ps @ qs)" unfolding adds_rows_def by fastforce
    moreover have "exported_cells s' = before @ map str_of_int (ps @ qs)" "set (ps @ qs) \<subseteq> pv_processed (snd sx) \<union> set qs"
      using ps assms(2) by (auto simp: adds_rows_def)
    ultimately show ?thesis by blast
  qed
  then show "once_rows pg before (s', v)" unfolding once_rows_def by fastforce
  show "once pg before (s', v)" if "set qs \<subseteq> pv_processed v" "pv_processed (snd sx) \<subseteq> pv_processed v"
    using rows that unfolding once_def by fastforce
qed

interpretation single: pager_loop "\<lambda>sx t. once pg before sx \<longrightarrow> once pg before t" "\<lambda>sx t. once pg before sx \<longrightarrow> once_rows pg before t"
  pg "\<lambda>page. reliable pg \<longrightarrow> distinct (map m_seq page)" for pg :: "'w pager" and before :: "pystr list"
proof unfold_locales
  show "guards (\<lambda>sx t. once pg before sx \<longrightarrow> once pg before t) (\<lambda>sx t. once pg before sx \<longrightarrow> once_rows pg before t) (export_page pg h page)"
    if "reliable pg \<longrightarrow> distinct (map m_seq page)" for h page
  proof (intro export_guards impI)
    fix sx t :: "'w run_state \<times> pager_vars"
    assume "once pg before sx"
    then show "once pg before t" if "exported pg page sx t" using that once_export(2) [of pg before sx page _ "fst t" "snd t"]
      by (auto simp: exported_def)
    show "once_rows pg before t" if "interrupted pg page sx t" using that \<open>once pg before sx\<close> once_export(1) [of pg before sx page _ "fst t" "snd t"]
      by (auto simp: interrupted_def)
  qed (use that in \<open>auto simp: once_def once_rows_def\<close>)
  show "once pg before sx \<longrightarrow> once_rows pg before t" if "once pg before sx \<longrightarrow> once pg before t" for sx t :: "'w run_state \<times> pager_vars"
    using that by (auto simp: once_def once_rows_def)
qed (auto simp: once_def once_rows_def neutral_def still_def same_trace_cells keeps_def wp_simps intro: reliable_peek)

lemma pager_user_rows:
  assumes "guards J K (pager_body pg start fuel)" and J_K: "\<And>sx t. J sx t \<Longrightarrow> K sx t"
  shows "wp (pager_body pg start fuel) (\<lambda>_. K sx) (\<lambda>_. K sx) sx"
  by (rule wp_imp [OF guardsD [OF assms(1)]]) (auto split: if_splits intro: J_K)

text \<open>What holds of the trace after the body holds of it after the run.\<close>

lemma peek_run_trace:
  assumes body: "\<And>start. wp (pager_body pg start fuel) (\<lambda>_ t. Q (rs_trace (fst t))) (\<lambda>_ t. Q (rs_trace (fst t))) (s, pager_start)"
    and "Q (rs_trace s)"
  shows "Q (rs_trace (snd (peek_run pg fuel s)))"
proof -
  have "wp (peek_run pg fuel) (\<lambda>_ t. Q (rs_trace t)) (\<lambda>_ t. Q (rs_trace t)) s"
    unfolding peek_run_def Let_def wp_bnd [of "gets f" for f] wp_gets wp_if wp_raise wp_run_vars wp_bnd [of "pager_body pg a b" for a b]
    using assms(2) by (auto intro!: wp_imp [OF body] simp: wp_simps split: option.split)
  then show ?thesis by (auto simp: wp_def split: prod.splits sum.splits)
qed

definition trace_cells :: "event list \<Rightarrow> pystr list" where
  "trace_cells es = concat (map written_cells_of es)"

text \<open>C7: However many pages, sessions, recoveries and retries a peek run goes through, and however it ends, it never
  writes more rows than \<^verbatim>\<open>max_messages\<close>, provided that the messages of a peeked page have different sequence numbers.\<close>
theorem peek_respects_max_messages:
  assumes "mode_of (pg_env pg) = PEEK" and "distinct_pages (pg_env pg)" and "0 < max_messages (pg_limits pg)"
  shows "\<exists>cells. exported_cells (snd (peek_run pg fuel s)) = exported_cells s @ cells \<and>
    int (length cells) \<le> max_messages (pg_limits pg)"
proof -
  let ?Q = "\<lambda>tr. \<exists>cells. trace_cells tr = exported_cells s @ cells \<and> int (length cells) \<le> max_messages (pg_limits pg)"
  have "?Q (rs_trace (snd (peek_run pg fuel s)))"
  proof (rule peek_run_trace [where Q = ?Q])
    fix start
    show "wp (pager_body pg start fuel) (\<lambda>_ t. ?Q (rs_trace (fst t))) (\<lambda>_ t. ?Q (rs_trace (fst t))) (s, pager_start)"
      by (rule wp_imp [OF pager_user_rows [OF limit.guards_pager limit.J_K]])
        (use assms in \<open>auto simp: limited_rows_def reliable_def within_def pager_start_def trace_cells_def exported_cells_def\<close>)
  qed (use assms(3) in \<open>simp add: trace_cells_def exported_cells_def\<close>)
  then show ?thesis by (simp add: trace_cells_def exported_cells_def)
qed

text \<open>C6: A full peek (not incremental) exports no message twice: even when it recovers, releases its sessions and peeks
  them from the start again, or peeks a partitioned entity without a position, the sequence numbers of the rows it writes
  are all different.\<close>
theorem peek_exports_once:
  assumes "mode_of (pg_env pg) = PEEK" and "distinct_pages (pg_env pg)" and "\<not> pg_incremental pg"
  shows "\<exists>qs. exported_cells (snd (peek_run pg fuel s)) = exported_cells s @ map str_of_int qs \<and> distinct qs"
proof -
  let ?Q = "\<lambda>tr. \<exists>qs. trace_cells tr = exported_cells s @ map str_of_int qs \<and> distinct qs"
  have "?Q (rs_trace (snd (peek_run pg fuel s)))"
  proof (rule peek_run_trace [where Q = ?Q])
    fix start
    have "once pg (exported_cells s) (s, pager_start)" by (simp add: once_def)
    then show "wp (pager_body pg start fuel) (\<lambda>_ t. ?Q (rs_trace (fst t))) (\<lambda>_ t. ?Q (rs_trace (fst t))) (s, pager_start)"
      by (intro wp_imp [OF pager_user_rows [OF single.guards_pager single.J_K]])
        (use assms in \<open>auto simp: once_rows_def reliable_def trace_cells_def exported_cells_def\<close>)
  qed (simp add: trace_cells_def exported_cells_def)
  then show ?thesis by (simp add: trace_cells_def exported_cells_def)
qed

subsection \<open>The cursor\<close>

lemma new_cursor_cases:
  "new_cursor pg start v = pg_cursor pg \<or>
     (\<exists>c q. new_cursor pg start v = Some c \<and> cursor_entity_path c = entity_path (env_entity (pg_env pg)) \<and>
        start \<le> last_sequence_number c \<and> pv_high v = Some q \<and> last_sequence_number c \<le> q \<and>
        (\<forall>u. pv_outstanding v = Some u \<longrightarrow> last_sequence_number c < u))"
  by (auto simp: new_cursor_def Let_def split: option.split)

lemma peek_run_cursor:
  "wp (peek_run pg fuel)
     (\<lambda>r _. \<forall>c. r = Some c \<longrightarrow> (if pg_incremental pg then \<exists>v. c = new_cursor pg (cursor_start pg) v else c = None)) (\<lambda>_ _. True) s"
proof -
  let ?Q = "\<lambda>r (_ :: 'a run_state). \<forall>c. r = Some c \<longrightarrow> (if pg_incremental pg then \<exists>v. c = new_cursor pg (cursor_start pg) v else c = None)"
  have ended: "wp (case r of None \<Rightarrow> ret None | Some reason \<Rightarrow>
        bnd (in_run (on_stats (\<lambda>st. st\<lparr>s_stop_reason := stop_name reason\<rparr>))) (\<lambda>_. bnd (var id) (\<lambda>v.
          ret (Some (if pg_incremental pg then new_cursor pg start v else None)))))
      (\<lambda>c sx. ?Q c (fst sx)) (\<lambda>_ _. True) t"
    if "start = (if pg_incremental pg then cursor_start pg else 1)" for r t start
    using that by (cases r) (auto simp: wp_simps)
  have body: "wp (pager_body pg start fuel) (\<lambda>r. wp (case r of None \<Rightarrow> ret None | Some reason \<Rightarrow>
        bnd (in_run (on_stats (\<lambda>st. st\<lparr>s_stop_reason := stop_name reason\<rparr>))) (\<lambda>_. bnd (var id) (\<lambda>v.
          ret (Some (if pg_incremental pg then new_cursor pg start v else None)))))
      (\<lambda>c sx. ?Q c (fst sx)) (\<lambda>_ _. True)) (\<lambda>_ _. True) t"
    if "start = (if pg_incremental pg then cursor_start pg else 1)" for t start
    by (rule wp_anything) (use ended [OF that] in \<open>simp_all only:\<close>)
  show ?thesis
    unfolding peek_run_def Let_def wp_bnd [of "gets f" for f] wp_gets wp_if wp_raise wp_run_vars wp_bnd [of "pager_body pg a b" for a b]
    using body by auto
qed

text \<open>C8: The peek cursor of an entity never moves backwards and never changes its entity: a run that returns gives the
  stored cursor or one of the row's entity, at or past the position the run started from, which is the one right after
  the stored cursor of the same entity.\<close>
theorem peek_cursor_never_regresses:
  assumes "fst (peek_run pg fuel s) = Inr (Some cursor)" and "pg_incremental pg"
    and "pg_cursor pg = Some c" and "cursor_entity_path c = entity_path (env_entity (pg_env pg))"
  shows "\<exists>c'. cursor = Some c' \<and> cursor_entity_path c' = cursor_entity_path c \<and> last_sequence_number c \<le> last_sequence_number c' \<and>
    (c' \<noteq> c \<longrightarrow> last_sequence_number c < last_sequence_number c')"
proof -
  from peek_run_cursor [of pg fuel s] assms(1,2) obtain v where v: "cursor = new_cursor pg (cursor_start pg) v"
    by (auto simp: wp_def split: prod.splits sum.splits)
  have "cursor_start pg = last_sequence_number c + 1" using assms(3,4) by (simp add: cursor_start_def)
  with new_cursor_cases [of pg "cursor_start pg" v] v assms(3,4) show ?thesis by auto
qed

subsection \<open>Witnesses\<close>

text \<open>Two messages on one page, then the end of the entity; the limit is one message.\<close>

definition peeking_sdk :: "int sdk" where
  "peeking_sdk = ticking_sdk\<lparr>sdk_peek := (\<lambda>h n q. ret (if q \<le> 7 then [sample_message, sample_message\<lparr>m_seq := 9\<rparr>] else []))\<rparr>"

definition peeking_pager :: "fetch_mode \<Rightarrow> int pager" where
  "peeking_pager mode =
     \<lparr>pg_env = \<lparr>env_sdk = peeking_sdk, env_lib = sample_lib, env_config = sample_configuration
          \<lparr>source := (source sample_configuration)\<lparr>settlement_mode := PEEK, fetch_mode := mode\<rparr>,
           limits := \<lparr>max_messages = 1, stop_at_job_start = False\<rparr>\<rparr>,
        env_entity = sample_ref, env_text = ascii_text, env_secrets = []\<rparr>,
      pg_cursor = None, pg_t0 = 0\<rparr>"

definition peeking_run :: "int run_state" where
  "peeking_run = \<lparr>rs_world = 0, rs_stats = new_stats ''peek'', rs_registry = None, rs_pending = empty_builder,
     rs_output = sample_table, rs_unreadable = new_handler, rs_settler_armed = False, rs_info = default_entity_info, rs_trace = []\<rparr>"

lemma peeking_pager_facts:
  "mode_of (pg_env (peeking_pager mode)) = PEEK" "distinct_pages (pg_env (peeking_pager mode))"
  "max_messages (pg_limits (peeking_pager mode)) = 1" "pg_incremental (peeking_pager mode) \<longleftrightarrow> mode = INCREMENTAL_FETCH"
  "exported_cells peeking_run = []"
  by (simp_all add: peeking_pager_def mode_of_def distinct_pages_def peeking_sdk_def wp_ret sample_message_def pg_limits_def
      pg_incremental_def exported_cells_def peeking_run_def)

theorem peek_settles_nothing_witness:
  "list_all peek_event (rs_trace (snd (peek_run (peeking_pager FULL_FETCH) 9 peeking_run)))"
  using peek_settles_nothing [OF peeking_pager_facts(1), of FULL_FETCH 9 peeking_run] by (auto simp: peeking_run_def)

theorem peek_respects_max_messages_witness:
  "length (exported_cells (snd (peek_run (peeking_pager INCREMENTAL_FETCH) 9 peeking_run))) \<le> 1"
  using peek_respects_max_messages [OF peeking_pager_facts(1,2), of INCREMENTAL_FETCH 9 peeking_run]
  by (auto simp: peeking_pager_facts)

theorem peek_exports_once_witness:
  "\<exists>qs. exported_cells (snd (peek_run (peeking_pager FULL_FETCH) 9 peeking_run)) = map str_of_int qs \<and> distinct qs"
  using peek_exports_once [OF peeking_pager_facts(1,2), of FULL_FETCH 9 peeking_run] by (auto simp: peeking_pager_facts)

text \<open>Nothing is past the stored cursor, so it stays.\<close>

definition resumed_pager :: "int pager" where
  "resumed_pager = (peeking_pager INCREMENTAL_FETCH)
     \<lparr>pg_cursor := Some \<lparr>cursor_entity_path = entity_path sample_ref, last_sequence_number = 41\<rparr>\<rparr>"

lemma resumed_facts [simp]:
  "pg_incremental resumed_pager" "\<not> pg_sessions resumed_pager" "cursor_start resumed_pager = 42"
  "env_sdk (pg_env resumed_pager) = peeking_sdk" "env_entity (pg_env resumed_pager) = sample_ref"
  "pg_limits resumed_pager = \<lparr>max_messages = 1, stop_at_job_start = False\<rparr>"
  "max_duration_seconds (advanced (env_config (pg_env resumed_pager))) = 60"
  "effective_auth_type (env_config (pg_env resumed_pager)) = CONNECTION_STRING"
  by (simp_all add: resumed_pager_def peeking_pager_def pg_incremental_def pg_sessions_def cursor_start_def pg_limits_def sample_configuration_def
      effective_auth_type_def uses_row_connection_string_def)

theorem peek_cursor_never_regresses_witness:
  "\<exists>c'. fst (peek_run resumed_pager 1 peeking_run) = Inr (Some (Some c')) \<and> 41 \<le> last_sequence_number c'"
proof -
  have "\<exists>c. fst (peek_run resumed_pager 1 peeking_run) = Inr (Some c)"
    by (simp add: peek_run_def pager_body_def run_pages_def page_step_def guarded_page_def pager_stop_def page_receiver_def
       open_pager_def pager_client_def monotonic_def run_prims in_run_def var_def set_var_def run_vars_def Let_def o_def finally_py_def
       peeking_sdk_def ticking_sdk_def pager_start_def peeking_run_def default_entity_info_def page_loop.simps One_nat_def
       data_client_def build_client_def open_receiver_def enter_receiver_def receiver_profile_def close_pager_def close_option_def
       close_quietly_def set_retries_def on_handler_def seconds_def close_handle_def)
  then obtain c where run: "fst (peek_run resumed_pager 1 peeking_run) = Inr (Some c)" ..
  have "pg_cursor resumed_pager = Some \<lparr>cursor_entity_path = entity_path sample_ref, last_sequence_number = 41\<rparr>"
    by (simp add: resumed_pager_def)
  from peek_cursor_never_regresses [OF run _ this] run show ?thesis by auto
qed

end
