(* ===== verification/Peek_Complete.thy ===== *)
theory Peek_Complete
  imports Peek_Facts
begin

text \<open>
  An incremental peek skips nothing. The argument follows one page: what the batch processor exports of it, which of its
  messages the selection visits, and how far the cursor may then go. It is about an entity that others may change
  during the run, and about the messages that stay in it.
\<close>

subsection \<open>What a batch exports\<close>

text \<open>A table that accepts the rows of the run, and the messages of which the processor makes a row, or at least
  an unreadable body, whatever columns the registry has by then.\<close>

definition table_ready :: "'w env \<Rightarrow> 'w run_state \<Rightarrow> bool" where
  "table_ready env s \<longleftrightarrow>
     table_fits (rs_registry s) (rs_output s) \<and> ot_body_format (rs_output s) = body_format (body (env_config env)) \<and>
     (\<forall>r. rs_registry s = Some r \<longrightarrow> (\<exists>R. registry_ok R r))"

definition safe_to_read :: "'w env \<Rightarrow> message \<Rightarrow> bool" where
  "safe_to_read env m \<longleftrightarrow>
     (\<forall>t s. table_ready env s \<longrightarrow> wp (to_row env m t) (\<lambda>_ _. True) (\<lambda>f _. \<exists>err. f = Unreadable err) s)"

definition readable :: "'w env \<Rightarrow> message \<Rightarrow> bool" where
  "readable env m \<longleftrightarrow> (\<forall>t s. table_ready env s \<longrightarrow> wp (to_row env m t) (\<lambda>_ _. True) (\<lambda>_ _. False) s)"

lemma ready_grows:
  "table_ready env s \<Longrightarrow> registry_grows (rs_registry s) (rs_registry t) \<Longrightarrow> rs_output t = rs_output s \<Longrightarrow> table_ready env t"
  unfolding table_ready_def
  by (auto intro: table_fits_grows simp: registry_grows_def split: option.splits) (metis option.exhaust)+

text \<open>What leaves the table, the registry and the written rows alone.\<close>

definition tabled :: "'w run_state \<Rightarrow> 'w run_state \<Rightarrow> bool" where
  "tabled s s' \<longleftrightarrow> exported_cells s' = exported_cells s \<and> rs_registry s' = rs_registry s \<and> rs_output s' = rs_output s"

interpretation tabled: run_frame "tabled :: 'w run_state \<Rightarrow> 'w run_state \<Rightarrow> bool" "\<lambda>_ _. True" env for env :: "'w env"
  by unfold_locales (auto simp: tabled_def, simp add: exported_cells_def)

text \<open>What reading has made of the messages so far.\<close>

definition all_read :: "'w env \<Rightarrow> message list \<Rightarrow> batch_acc \<Rightarrow> bool" where
  "all_read env ms acc \<longleftrightarrow>
     (\<forall>m \<in> set ms. readable env m \<longrightarrow> str_of_int (m_seq m) \<in> row_cell ` set (ba_rows acc)) \<and>
     set (ba_retried acc) \<subseteq> m_seq ` set ms"

lemma peek_unreadable_returns:
  assumes "mode_of env = PEEK"
  shows "wp (handle_unreadable env h m err g) (\<lambda>_ _. True) (\<lambda>_ _. False) s"
  using assms by (auto simp: unreadable_defs wp_simps Let_def lock_holding_def)

lemma all_read_message:
  assumes mode: "mode_of env = PEEK" and ready: "table_ready env s" and safe: "safe_to_read env m" and acc: "all_read env ms acc"
  shows "wp (read_message env h g t m acc)
    (\<lambda>acc' s'. all_read env (ms @ [m]) acc' \<and> table_ready env s' \<and> rs_output s' = rs_output s) (\<lambda>_ _. False) s"
proof -
  let ?s = "s\<lparr>rs_stats := note_delivery_count (delivery_count m) ((rs_stats s)\<lparr>s_received := s_received (rs_stats s) + 1\<rparr>)\<rparr>"
  have ready': "table_ready env ?s" using ready by (simp add: table_ready_def)
  let ?ok = "\<lambda>s'. table_ready env s' \<and> rs_output s' = rs_output s"
  have row: "wp (to_row env m t) (\<lambda>rb s'. row_cell (fst rb) = str_of_int (m_seq m) \<and> ?ok s')
      (\<lambda>f s'. (\<exists>err. f = Unreadable err) \<and> \<not> readable env m \<and> ?ok s') ?s"
  proof -
    have "wp (to_row env m t) (\<lambda>_ _. True) (\<lambda>f _. (\<exists>err. f = Unreadable err) \<and> \<not> readable env m) ?s"
      using safe ready' by (cases "readable env m") (auto simp: safe_to_read_def readable_def elim: wp_mono)
    from wp_conj [OF this wp_conj [OF to_row_frame [of env m t ?s] to_row_fits [of env m t ?s]]] show ?thesis
      by (rule wp_imp) (auto intro: ready_grows [OF ready'])
  qed
  have handled: "wp (bnd (handle_unreadable env h m err g) (\<lambda>action.
        ret (if action = RETRY then acc\<lparr>ba_retried := ba_retried acc @ [m_seq m]\<rparr> else acc\<lparr>ba_disposed := True\<rparr>)))
      (\<lambda>acc' s'. all_read env (ms @ [m]) acc' \<and> ?ok s') (\<lambda>_ _. False) s1"
    if "\<not> readable env m" "?ok s1" for s1 err
    unfolding wp_bnd wp_ret
    by (rule wp_imp [OF wp_conj [OF peek_unreadable_returns [OF mode] handle_unreadable_registry]])
      (use that acc in \<open>auto simp: all_read_def intro: ready_grows\<close>)
  show ?thesis
    unfolding read_message_def wp_bnd wp_on_stats wp_catch
    by (rule wp_imp [OF row]) (use acc handled in \<open>auto simp: wp_ret all_read_def split: body_failure.split\<close>)
qed

lemma all_read_messages:
  assumes "mode_of env = PEEK" and "\<forall>m \<in> set ms. safe_to_read env m"
  shows "table_ready env s \<Longrightarrow> all_read env ms0 acc \<Longrightarrow>
    wp (read_messages env h g t ms acc)
      (\<lambda>acc' s'. all_read env (ms0 @ ms) acc' \<and> table_ready env s' \<and> rs_output s' = rs_output s) (\<lambda>_ _. False) s"
  using assms(2)
proof (induction ms arbitrary: ms0 acc s)
  case (Cons m ms)
  have "safe_to_read env m" using Cons.prems by simp
  from all_read_message [OF assms(1) Cons.prems(1) this Cons.prems(2)] show ?case
    unfolding read_messages.simps wp_bnd
    by (rule wp_imp) (use Cons.IH Cons.prems(3) in \<open>fastforce elim!: wp_mono\<close>)+
qed (simp add: wp_ret)

text \<open>A batch that returns has written a row of every readable message; it fails with a user error only.\<close>

definition all_exported :: "'w env \<Rightarrow> message list \<Rightarrow> 'w run_state \<Rightarrow> 'w run_state \<Rightarrow> bool" where
  "all_exported env ms s s' \<longleftrightarrow>
     set (exported_cells s) \<subseteq> set (exported_cells s') \<and>
     (\<forall>m \<in> set ms. readable env m \<longrightarrow> str_of_int (m_seq m) \<in> set (exported_cells s'))"

lemma ready_frame:
  "rs_registry t = rs_registry s \<Longrightarrow> rs_output t = rs_output s \<Longrightarrow> table_ready env t = table_ready env s"
  by (simp add: table_ready_def)

lemma table_fits_csv: "table_fits reg (t\<lparr>ot_csv := a, ot_rows_written := b\<rparr>) = table_fits reg t"
  by (simp add: table_fits_def fixed_columns_def)

lemma ready_rows:
  "table_ready env (s\<lparr>rs_output := (rs_output s)\<lparr>ot_csv := a, ot_rows_written := b\<rparr>, rs_trace := tr\<rparr>) = table_ready env s"
  by (simp add: table_ready_def table_fits_csv)

definition writes_rows :: "'w env \<Rightarrow> output_row list \<Rightarrow> 'w run_state \<Rightarrow> bool" where
  "writes_rows env rows s \<longleftrightarrow> (\<exists>cs. write_output env rows s =
     (Inr (), s\<lparr>rs_output := (rs_output s)\<lparr>ot_csv := ot_csv (rs_output s) @ cs,
         ot_rows_written := ot_rows_written (rs_output s) + length rows\<rparr>,
       rs_trace := rs_trace s @ [EvWrite rows]\<rparr>))"

lemma peek_reads:
  assumes mode: "mode_of env = PEEK" and safe: "\<forall>m \<in> set ms. safe_to_read env m" and ready: "table_ready env s"
  shows "wp (read_messages env h g now ms empty_acc)
    (\<lambda>acc s'. all_read env ms acc \<and> table_ready env s' \<and> exported_cells s' = exported_cells s \<and> writes_rows env (ba_rows acc) s')
    (\<lambda>_ _. False) s"
proof -
  have "all_read env [] empty_acc" by (simp add: all_read_def empty_acc_def)
  from all_read_messages [OF mode safe ready this]
  have read: "wp (read_messages env h g now ms empty_acc)
      (\<lambda>acc s'. all_read env ms acc \<and> table_ready env s' \<and> rs_output s' = rs_output s) (\<lambda>_ _. False) s" by simp
  have "page_acc [] empty_acc" by (simp add: page_acc_def empty_acc_def)
  from peek_read [OF mode this]
  have cells: "wp (read_messages env h g now ms empty_acc) (\<lambda>acc s'. exported_cells s' = exported_cells s) (\<lambda>_ _. True) s"
    by (rule wp_imp) (auto simp: same_trace_cells)
  have "wp (read_messages env h g now ms empty_acc)
      (\<lambda>acc s'. rs_output s' = rs_output s \<longrightarrow> writes_rows env (ba_rows acc) s') (\<lambda>_ _. True) s"
    unfolding wp_def
    using batch_write [of env h g now ms s] ready
    by (auto simp: table_ready_def writes_rows_def split: prod.split sum.split)
  from wp_conj [OF read wp_conj [OF cells this]] show ?thesis by (rule wp_imp) auto
qed

lemma peek_writes:
  assumes "all_read env ms acc" and "table_ready env t" and "exported_cells t = exported_cells s" and "writes_rows env (ba_rows acc) t"
  shows "wp (write_batch (write_output env) acc) (\<lambda>_ v. all_exported env ms s v \<and> table_ready env v) (\<lambda>_ _. False) t"
proof (cases "ba_rows acc = []")
  case True
  then show ?thesis using assms by (auto simp: write_batch_def wp_when all_exported_def all_read_def)
next
  case False
  from assms(4) obtain cs where put: "write_output env (ba_rows acc) t =
    (Inr (), t\<lparr>rs_output := (rs_output t)\<lparr>ot_csv := ot_csv (rs_output t) @ cs,
       ot_rows_written := ot_rows_written (rs_output t) + length (ba_rows acc)\<rparr>,
       rs_trace := rs_trace t @ [EvWrite (ba_rows acc)]\<rparr>)" by (auto simp: writes_rows_def)
  show ?thesis
    unfolding write_batch_def wp_when wp_bnd wp_on_stats
    by (simp add: False, unfold wp_def [of "write_output env rows" for rows] put, simp)
      (use assms in \<open>auto simp: all_exported_def all_read_def table_ready_def table_fits_csv exported_cells_def\<close>)
qed

lemma peek_settles:
  assumes mode: "mode_of env = PEEK" and "all_exported env ms s t" and "table_ready env t"
  shows "wp (bnd (for_each (settle_one env (make_settler env) h) mbs) (\<lambda>_. bnd final_checks (\<lambda>_. ret r)))
    (\<lambda>r' s'. r' = r \<and> all_exported env ms s s' \<and> table_ready env s') (\<lambda>e _. is_user_exception e) t"
proof -
  have settled: "wp (for_each (settle_one env (make_settler env) h) mbs)
      (\<lambda>_ v. all_exported env ms s v \<and> table_ready env v) (\<lambda>_ _. False) t"
  proof (rule wp_for_each_inv)
    fix mb and v :: "'a run_state"
    assume "all_exported env ms s v \<and> table_ready env v"
    then show "wp (settle_one env (make_settler env) h mb) (\<lambda>_ v. all_exported env ms s v \<and> table_ready env v) (\<lambda>_ _. False) v"
      using mode by (simp add: settle_one_def make_settler_def noop_settle_def lock_holding_def wp_simps)
  qed (use assms in simp)
  have checked: "wp final_checks (\<lambda>_ v'. all_exported env ms s v' \<and> table_ready env v') (\<lambda>e _. is_user_exception e) v"
    if "all_exported env ms s v" "table_ready env v" for v
  proof -
    have "wp final_checks (\<lambda>_ v'. rs_registry v' = rs_registry v) (\<lambda>_ _. True) v"
      by (auto simp: final_checks_def raise_pending_def check_overflow_def check_abort_share_def on_handler_def wp_simps Let_def
          split: option.split)
    from wp_conj [OF this final_checks_frame] show ?thesis
      by (rule wp_imp) (use that in \<open>auto simp: all_exported_def exported_cells_def table_ready_def\<close>)
  qed
  show ?thesis
    unfolding wp_bnd wp_ret
    by (rule wp_imp [OF settled], intro allI impI wp_imp [OF checked]) auto
qed

lemma peek_batch_exports:
  assumes mode: "mode_of env = PEEK" and safe: "\<forall>m \<in> set ms. safe_to_read env m" and ready: "table_ready env s"
  shows "wp (process_batch env h ms g)
    (\<lambda>r s'. all_exported env ms s s' \<and> table_ready env s' \<and> set (br_retried r) \<subseteq> m_seq ` set ms)
    (\<lambda>e _. is_user_exception e) s"
proof -
  let ?Q = "\<lambda>r s'. all_exported env ms s s' \<and> table_ready env s' \<and> set (br_retried r) \<subseteq> m_seq ` set ms"
  obtain now w where clock: "sdk_clock (env_sdk env) (rs_world s) = (now, w)" by fastforce
  have "table_ready env (s\<lparr>rs_world := w\<rparr>)" using ready by (simp add: table_ready_def)
  note read = peek_reads [OF mode safe this, of h g now]
  have written: "wp (bnd (write_batch (write_output env) acc) (\<lambda>_.
      bnd (for_each (settle_one env (make_settler env) h) (ba_readable acc)) (\<lambda>_. bnd final_checks (\<lambda>_. ret r))))
      ?Q (\<lambda>e _. is_user_exception e) t"
    if "all_read env ms acc" "table_ready env t" "exported_cells t = exported_cells s" "writes_rows env (ba_rows acc) t"
      "br_retried r = ba_retried acc" for acc r t
  proof -
    have settled: "wp (bnd (for_each (settle_one env (make_settler env) h) (ba_readable acc)) (\<lambda>_. bnd final_checks (\<lambda>_. ret r)))
        ?Q (\<lambda>e _. is_user_exception e) v" if "all_exported env ms s v" "table_ready env v" for v
      by (rule wp_imp [OF peek_settles [OF mode that]])
        (use \<open>all_read env ms acc\<close> \<open>br_retried r = ba_retried acc\<close> in \<open>auto simp: all_read_def\<close>)
    show ?thesis
      unfolding wp_bnd [of "write_batch p a" for p a]
      by (rule wp_imp [OF peek_writes [OF that(1-4)]]) (use settled in auto)
  qed
  show ?thesis
    unfolding process_batch_def process_def wp_bnd [of "clock env"] wp_clock clock prod.case wp_bnd [of "read_messages env h g t ms acc" for t acc]
    by (rule wp_imp [OF read]; intro allI impI; (rule written)?) simp_all
qed

subsection \<open>What a selection visits\<close>

text \<open>The messages an incremental peek owes: a row can be made of them, they are neither waiting to be activated nor can
  they expire.\<close>

definition exportable :: "'w env \<Rightarrow> message \<Rightarrow> bool" where
  "exportable env m \<longleftrightarrow> readable env m \<and> \<not> is_pending_activation m \<and> m_expires_at m = None"

text \<open>A selection visits the messages \<open>vs\<close>: it selects the exportable ones among them that are not processed yet, and
  marks other ones.\<close>

definition visited :: "'w env \<Rightarrow> message list \<Rightarrow> message list \<Rightarrow> pager_vars \<Rightarrow> pager_vars \<Rightarrow> bool" where
  "visited env vs new v v' \<longleftrightarrow>
     set new \<subseteq> set vs \<and> (\<forall>m \<in> set vs. exportable env m \<longrightarrow> m \<in> set new \<or> m_seq m \<in> pv_processed v) \<and>
     pv_processed v' \<subseteq> pv_processed v \<union> m_seq ` set vs \<and>
     (\<forall>h. pv_high v' = Some h \<longrightarrow> pv_high v = Some h \<or> h \<in> m_seq ` set vs) \<and>
     pv_next_seq v' = pv_next_seq v \<and> pv_cursor_mode v' = pv_cursor_mode v"

lemma visited_old:
  assumes "visited env vs new v v'" and "m_seq m \<in> pv_processed v"
  shows "visited env (m # vs) new v v'"
  using assms unfolding visited_def by (intro conjI; auto)

lemma visited_new:
  assumes "visited env vs new v v'"
  shows "visited env (m # vs) (m # new) v v'"
  using assms unfolding visited_def by (intro conjI; auto)

text \<open>The whole selection: the list afterwards and why it stopped, if it did.\<close>

definition selects ::
  "'w env \<Rightarrow> message list \<Rightarrow> message list \<Rightarrow> pager_vars \<Rightarrow> message list \<times> stop_reason option \<Rightarrow> pager_vars \<Rightarrow> bool" where
  "selects env ms sel v r v' \<longleftrightarrow>
     (\<exists>vs rest new. ms = vs @ rest \<and> (snd r = None \<longrightarrow> rest = []) \<and> fst r = sel @ new \<and> visited env vs new v v')"

lemma selects_stop: "ms = [] \<or> r \<noteq> None \<Longrightarrow> selects env ms sel v (sel, r) v"
  unfolding selects_def visited_def by (rule exI [where x = "[]"]) auto

lemma selects_old:
  assumes "selects env ms sel v r v'" and "m_seq m \<in> pv_processed v"
  shows "selects env (m # ms) sel v r v'"
proof -
  from assms(1) obtain vs rest new where "ms = vs @ rest" "snd r = None \<longrightarrow> rest = []" "fst r = sel @ new" "visited env vs new v v'"
    by (auto simp: selects_def)
  then show ?thesis
    unfolding selects_def
    by (intro exI [where x = "m # vs"] exI [where x = rest] exI [where x = new]) (simp add: visited_old [OF _ assms(2)])
qed

lemma selects_new:
  assumes "selects env ms (sel @ [m]) v r v'"
  shows "selects env (m # ms) sel v r v'"
proof -
  from assms(1) obtain vs rest new where "ms = vs @ rest" "snd r = None \<longrightarrow> rest = []" "fst r = sel @ m # new" "visited env vs new v v'"
    by (auto simp: selects_def)
  then show ?thesis
    unfolding selects_def
    by (intro exI [where x = "m # vs"] exI [where x = rest] exI [where x = "m # new"]) (simp add: visited_new)
qed

definition marked :: "int \<Rightarrow> pager_vars \<Rightarrow> pager_vars" where
  "marked q v = v\<lparr>pv_processed := insert q (pv_processed v),
     pv_high := Some (case pv_high v of None \<Rightarrow> q | Some h \<Rightarrow> max h q)\<rparr>"

lemma visited_skip:
  assumes "visited env vs new (marked (m_seq m) v) v'" and "\<not> exportable env m" and "m_seq m \<notin> m_seq ` set vs"
  shows "visited env (m # vs) new v v'"
proof -
  have "m_seq m' \<noteq> m_seq m" if "m' \<in> set vs" for m' using assms(3) that by (metis imageI)
  then have others: "m' \<in> set new \<or> m_seq m' \<in> pv_processed v" if "m' \<in> set vs" "exportable env m'" for m'
    using assms(1) that by (auto simp: visited_def marked_def)
  have high: "pv_high v = Some h \<or> h \<in> m_seq ` set (m # vs)" if "pv_high v' = Some h" for h
    using assms(1) that by (cases "pv_high v") (auto simp: visited_def marked_def max_def split: if_splits)
  from assms(1) have "set new \<subseteq> set vs" "pv_next_seq v' = pv_next_seq v" "pv_cursor_mode v' = pv_cursor_mode v"
    "pv_processed v' \<subseteq> insert (m_seq m) (pv_processed v) \<union> m_seq ` set vs"
    by (simp_all add: visited_def marked_def)
  with others high assms(2) show ?thesis unfolding visited_def by auto
qed

lemma selects_skip:
  assumes "selects env ms sel (marked (m_seq m) v) r v'" and "\<not> exportable env m" and "m_seq m \<notin> m_seq ` set ms"
  shows "selects env (m # ms) sel v r v'"
proof -
  from assms(1) obtain vs rest new where "ms = vs @ rest" "snd r = None \<longrightarrow> rest = []" "fst r = sel @ new"
    "visited env vs new (marked (m_seq m) v) v'" by (auto simp: selects_def)
  then show ?thesis
    unfolding selects_def
    by (intro exI [where x = "m # vs"] exI [where x = rest] exI [where x = new]) (use assms(2,3) in \<open>auto intro: visited_skip\<close>)
qed

lemma select_visits:
  assumes "distinct (map m_seq ms)"
  shows "wp (select_messages pg now ms sel)
    (\<lambda>r t. tabled (fst sx) (fst t) \<and> selects (pg_env pg) ms sel (snd sx) r (snd t)) (\<lambda>_ _. False) sx"
  using assms
proof (induction ms arbitrary: sel sx)
  case Nil
  then show ?case by (auto simp: wp_ret tabled.frame_refl intro: selects_stop)
next
  case (Cons m ms)
  let ?Q = "\<lambda>r t. tabled (fst sx) (fst t) \<and> selects (pg_env pg) (m # ms) sel (snd sx) r (snd t)"
  have m: "m_seq m \<notin> m_seq ` set ms" and ms: "distinct (map m_seq ms)" using Cons.prems by auto
  have old: "wp (select_messages pg now ms sel) ?Q (\<lambda>_ _. False) sx" if "m_seq m \<in> pv_processed (snd sx)"
    by (rule wp_imp [OF Cons.IH [OF ms]]) (use that in \<open>auto intro: selects_old\<close>)
  have new: "wp (select_messages pg now ms (sel @ [m])) ?Q (\<lambda>_ _. False) sx"
    by (rule wp_imp [OF Cons.IH [OF ms]]) (auto intro: selects_new)
  have skip: "wp (select_messages pg now ms sel) ?Q (\<lambda>_ _. False) (s', marked (m_seq m) (snd sx))"
    if "\<not> exportable (pg_env pg) m" and "tabled (fst sx) s'" for s'
    by (rule wp_imp [OF Cons.IH [OF ms]]) (use that m in \<open>auto intro: selects_skip tabled.frame_trans\<close>)
  have mark: "tabled s (s\<lparr>rs_stats := st, rs_trace := rs_trace s @ [EvProcessed q]\<rparr>)" for s :: "'a run_state" and st q
    by (simp add: tabled_def)
  have ifs: "(b \<Longrightarrow> P) \<Longrightarrow> (\<not> b \<Longrightarrow> P') \<Longrightarrow> (if b then P else P')" for b P P' by simp
  show ?case
    unfolding select_messages.simps
    by (simp only: wp_if wp_bnd wp_var wp_in_run wp_on_stats wp_mark [folded marked_def] wp_ret)
      (intro ifs old new conjI selects_stop tabled.frame_refl; auto simp: exportable_def mark intro!: skip)
qed

text \<open>Processing the selection marks messages of it.\<close>

definition marks :: "message list \<Rightarrow> pager_vars \<Rightarrow> pager_vars \<Rightarrow> bool" where
  "marks ms v v' \<longleftrightarrow>
     pv_processed v' \<subseteq> pv_processed v \<union> m_seq ` set ms \<and>
     (\<forall>h. pv_high v' = Some h \<longrightarrow> pv_high v = Some h \<or> h \<in> m_seq ` set ms) \<and>
     pv_next_seq v' = pv_next_seq v \<and> pv_cursor_mode v' = pv_cursor_mode v"

lemma marks_refl [simp]: "marks ms v v"
  by (simp add: marks_def)

lemma marks_trans: "marks ms v v' \<Longrightarrow> marks ms v' v'' \<Longrightarrow> marks ms v v''"
  unfolding marks_def by (elim conjE, intro conjI) (blast | simp)+

lemma marks_marked: "m \<in> set ms \<Longrightarrow> marks ms v (marked (m_seq m) v)"
  by (auto simp: marks_def marked_def max_def split: option.splits)

lemma marks_other:
  "pv_processed v' = pv_processed v \<Longrightarrow> pv_high v' = pv_high v \<Longrightarrow> pv_next_seq v' = pv_next_seq v \<Longrightarrow>
     pv_cursor_mode v' = pv_cursor_mode v \<Longrightarrow> marks ms v v'"
  by (simp add: marks_def)

lemma mark_taken_marks:
  "wp (for_each (mark_taken retried) ms) (\<lambda>_ t. tabled (fst sx) (fst t) \<and> marks ms (snd sx) (snd t)) (\<lambda>_ _. False) sx"
proof (rule wp_for_each_inv)
  fix m t
  assume m: "m \<in> set ms" and t: "tabled (fst sx) (fst t) \<and> marks ms (snd sx) (snd t)"
  have "marks ms (snd sx) ((marked (m_seq m) (snd t))\<lparr>pv_taken := n\<rparr>)" for n
    by (rule marks_trans [OF conjunct2 [OF t] marks_trans [OF marks_marked [OF m] marks_other]]) simp_all
  moreover have "tabled (fst sx) ((fst t)\<lparr>rs_trace := rs_trace (fst t) @ [EvProcessed q]\<rparr>)" for q
    using t by (simp add: tabled_def)
  ultimately show "wp (mark_taken retried m) (\<lambda>_ t. tabled (fst sx) (fst t) \<and> marks ms (snd sx) (snd t)) (\<lambda>_ _. False) t"
    using t by (simp add: mark_taken_def wp_when wp_bnd wp_mark [folded marked_def] wp_set_var)
qed (simp add: tabled.frame_refl)

lemma process_page_marks:
  assumes mode: "mode_of (pg_env pg) = PEEK" and safe: "\<forall>m \<in> set sel. safe_to_read (pg_env pg) m"
    and ready: "table_ready (pg_env pg) (fst sx)"
  shows "wp (process_page pg h sel) (\<lambda>retried t. all_exported (pg_env pg) sel (fst sx) (fst t) \<and>
      table_ready (pg_env pg) (fst t) \<and> set retried \<subseteq> m_seq ` set sel \<and> marks sel (snd sx) (snd t))
    (\<lambda>e _. is_user_exception e) sx"
proof -
  have marked: "wp (for_each (mark_taken (br_retried r)) sel) (\<lambda>_ t'. all_exported (pg_env pg) sel (fst sx) (fst t') \<and>
      table_ready (pg_env pg) (fst t') \<and> marks sel (snd sx) (snd t')) (\<lambda>e _. is_user_exception e) t"
    if "all_exported (pg_env pg) sel (fst sx) (fst t)" "table_ready (pg_env pg) (fst t)"
      "marks sel (snd sx) (snd t)" for r t
    by (rule wp_imp [OF mark_taken_marks [of "br_retried r" sel t]])
      (use that in \<open>auto simp: tabled_def all_exported_def table_ready_def intro: marks_trans\<close>)
  show ?thesis
    unfolding process_page_def page_progress_def wp_bnd wp_in_run wp_gets wp_var wp_finally wp_when wp_set_var wp_ret
    by (simp only: fst_conv snd_conv, rule wp_imp [OF peek_batch_exports [OF mode safe ready]])
      (auto intro!: marked marks_other)
qed

subsection \<open>What a page completes\<close>

text \<open>The exportable messages among those that stay in the entity, from the start of the run on, of which the sequence
  number satisfies \<open>P\<close>: all of them have been written.\<close>

definition covered :: "'w env \<Rightarrow> message set \<Rightarrow> int \<Rightarrow> (int \<Rightarrow> bool) \<Rightarrow> 'w run_state \<Rightarrow> bool" where
  "covered env stored start P s \<longleftrightarrow>
     (\<forall>m \<in> stored. exportable env m \<and> start \<le> m_seq m \<and> P (m_seq m) \<longrightarrow> str_of_int (m_seq m) \<in> set (exported_cells s))"

lemma covered_mono:
  "covered env stored start P s \<Longrightarrow> set (exported_cells s) \<subseteq> set (exported_cells t) \<Longrightarrow> (\<And>q. P' q \<Longrightarrow> P q) \<Longrightarrow>
     covered env stored start P' t"
  by (auto simp: covered_def)

text \<open>What the pager knows to be complete: everything below the next page, everything it has marked, everything up to the
  highest mark.\<close>

definition known :: "pager_vars \<Rightarrow> int \<Rightarrow> bool" where
  "known v q \<longleftrightarrow> q < pv_next_seq v \<or> q \<in> pv_processed v \<or> (\<exists>h. pv_high v = Some h \<and> q \<le> h)"

definition complete :: "'w pager \<Rightarrow> message set \<Rightarrow> int \<Rightarrow> 'w run_state \<times> pager_vars \<Rightarrow> bool" where
  "complete pg stored start sx \<longleftrightarrow>
     table_ready (pg_env pg) (fst sx) \<and> \<not> pv_cursor_mode (snd sx) \<and> 1 \<le> pv_next_seq (snd sx) \<and>
     covered (pg_env pg) stored start (known (snd sx)) (fst sx)"

text \<open>A page of the entity from the sequence number \<open>q\<close> on: in order, and every message that stays in the entity is on
  it, unless it comes after its last one. An empty page is the end.\<close>

definition page_from :: "'w env \<Rightarrow> message set \<Rightarrow> int \<Rightarrow> message list \<Rightarrow> bool" where
  "page_from env stored q page \<longleftrightarrow>
     sorted_wrt (<) (map m_seq page) \<and> (\<forall>m \<in> set page. q \<le> m_seq m \<and> safe_to_read env m) \<and>
     (\<forall>m \<in> stored. q \<le> m_seq m \<longrightarrow> page \<noteq> [] \<and> (m_seq m \<le> m_seq (last page) \<longrightarrow> m \<in> set page))"

definition browses :: "'w env \<Rightarrow> message set \<Rightarrow> bool" where
  "browses env stored \<longleftrightarrow>
     (\<forall>h n q w. 1 \<le> q \<longrightarrow> wp (sdk_peek (env_sdk env) h n q) (\<lambda>page _. page_from env stored q page) (\<lambda>_ _. True) w)"

lemma sorted_prefix:
  assumes "sorted_wrt (<) (map m_seq (vs @ rest))" and "m \<in> set (vs @ rest)" and "x \<in> set vs" and "m_seq m \<le> m_seq x"
  shows "m \<in> set vs"
  using assms by (auto simp: sorted_wrt_append dest!: bspec)

lemma sorted_last:
  assumes "sorted_wrt (<) (map m_seq page)" and "m \<in> set page"
  shows "m_seq m \<le> m_seq (last page)"
proof -
  from assms(2) obtain xs ys where page: "page = xs @ m # ys" by (meson split_list)
  show ?thesis
    using assms(1) page by (cases "ys = []") (auto simp: sorted_wrt_append intro: less_imp_le)
qed

text \<open>After the messages \<open>vs\<close> of a page have been visited and the new ones among them exported, everything up to any of
  them is exported.\<close>

lemma visited_covered:
  assumes page: "page_from (pg_env pg) stored (pv_next_seq (snd sx)) (vs @ rest)" and before: "complete pg stored start sx"
    and visit: "visited (pg_env pg) vs new (snd sx) v" and exp: "all_exported (pg_env pg) new (fst sx) t" and x: "x \<in> set vs"
  shows "covered (pg_env pg) stored start (\<lambda>q. q \<le> m_seq x) t"
  unfolding covered_def
proof (intro ballI impI, elim conjE)
  fix m assume m: "m \<in> stored" "exportable (pg_env pg) m" "start \<le> m_seq m" "m_seq m \<le> m_seq x"
  have old: "str_of_int (m_seq m) \<in> set (exported_cells t)" if "known (snd sx) (m_seq m)"
  proof -
    have "str_of_int (m_seq m) \<in> set (exported_cells (fst sx))"
      using before m(1-3) that by (simp add: complete_def covered_def)
    then show ?thesis using exp by (auto simp: all_exported_def)
  qed
  show "str_of_int (m_seq m) \<in> set (exported_cells t)"
  proof (cases "m_seq m < pv_next_seq (snd sx)")
    case True
    then show ?thesis using old by (simp add: known_def)
  next
    case False
    have sorted: "sorted_wrt (<) (map m_seq (vs @ rest))" using page by (simp add: page_from_def)
    have "m_seq m \<le> m_seq (last (vs @ rest))" using sorted_last [OF sorted, of x] x m(4) by simp
    moreover have "pv_next_seq (snd sx) \<le> m_seq m" using False by simp
    ultimately have "m \<in> set (vs @ rest)" using page m(1) unfolding page_from_def by blast
    then have "m \<in> set vs" by (rule sorted_prefix [OF sorted _ x m(4)])
    then consider "m \<in> set new" | "m_seq m \<in> pv_processed (snd sx)" using visit m(2) unfolding visited_def by blast
    then show ?thesis
    proof cases
      case 1
      then show ?thesis using exp m(2) by (simp add: all_exported_def exportable_def)
    next
      case 2
      then show ?thesis using old by (simp add: known_def)
    qed
  qed
qed

definition page_done ::
  "'w pager \<Rightarrow> message set \<Rightarrow> int \<Rightarrow> message list \<Rightarrow> int \<Rightarrow> stop_reason option \<times> int list \<Rightarrow>
   'w run_state \<times> pager_vars \<Rightarrow> bool" where
  "page_done pg stored start page next_seq r t \<longleftrightarrow>
     complete pg stored start t \<and> pv_next_seq (snd t) = next_seq \<and>
     (fst r = None \<longrightarrow> covered (pg_env pg) stored start (\<lambda>q. q \<le> m_seq (last page)) (fst t)) \<and>
     (snd r \<noteq> [] \<longrightarrow> Min (set (snd r)) \<in> m_seq ` set page \<and>
        covered (pg_env pg) stored start (\<lambda>q. q \<le> Min (set (snd r))) (fst t))"

lemma page_completes:
  assumes page: "page_from (pg_env pg) stored (pv_next_seq (snd sx)) page" "page \<noteq> []" and before: "complete pg stored start sx"
    and sel: "selects (pg_env pg) page [] (snd sx) (new, stop) v" and exp: "all_exported (pg_env pg) new (fst sx) (fst t)"
    and ready: "table_ready (pg_env pg) (fst t)" and retried: "set retried \<subseteq> m_seq ` set new" and marks: "marks new v (snd t)"
  shows "page_done pg stored start page (pv_next_seq (snd sx)) (stop, retried) t"
proof -
  from sel obtain vs rest where split: "page = vs @ rest" "stop = None \<longrightarrow> rest = []" and visit: "visited (pg_env pg) vs new (snd sx) v"
    by (auto simp: selects_def)
  have upto: "covered (pg_env pg) stored start (\<lambda>q. q \<le> x) (fst t)" if "x \<in> m_seq ` set vs" for x
    using visited_covered [OF page(1) [unfolded split(1)] before visit exp] that by auto
  have new: "m_seq ` set new \<subseteq> m_seq ` set vs" using visit by (auto simp: visited_def)
  have next_seq: "pv_next_seq (snd t) = pv_next_seq (snd sx)" and mode: "pv_cursor_mode (snd t) = pv_cursor_mode (snd sx)"
    using visit marks by (auto simp: visited_def marks_def)
  have old: "covered (pg_env pg) stored start (known (snd sx)) (fst t)"
    using before exp by (auto simp: complete_def all_exported_def intro: covered_mono)
  have processed: "pv_processed (snd t) \<subseteq> pv_processed (snd sx) \<union> m_seq ` set vs"
    and high: "pv_high (snd sx) = Some h \<or> h \<in> m_seq ` set vs" if "pv_high (snd t) = Some h" for h
    using visit marks new that unfolding visited_def marks_def by blast+
  have "known (snd sx) q \<or> (\<exists>x \<in> m_seq ` set vs. q \<le> x)" if "known (snd t) q" for q
    using that
  proof -
    have "pv_processed (snd t) \<subseteq> pv_processed (snd sx) \<union> m_seq ` set vs"
      using visit marks new unfolding visited_def marks_def by blast
    with that high next_seq show ?thesis unfolding known_def by (metis (no_types, lifting) Un_iff order_refl subsetD)
  qed
  then have "covered (pg_env pg) stored start (known (snd t)) (fst t)"
    using old upto unfolding covered_def by blast
  then have "complete pg stored start t" using before ready next_seq mode by (simp add: complete_def)
  moreover have "covered (pg_env pg) stored start (\<lambda>q. q \<le> m_seq (last page)) (fst t)" if "stop = None"
    using that split page(2) by (intro upto) simp
  moreover have "Min (set retried) \<in> m_seq ` set page \<and> covered (pg_env pg) stored start (\<lambda>q. q \<le> Min (set retried)) (fst t)"
    if "retried \<noteq> []"
  proof -
    have "Min (set retried) \<in> set retried" using that by (intro Min_in) auto
    then have "Min (set retried) \<in> m_seq ` set vs" using retried new by blast
    then show ?thesis using upto split(1) by auto
  qed
  ultimately show ?thesis
    using next_seq by (simp add: page_done_def del: Min_le_iff Min_ge_iff)
qed

lemma export_page_completes:
  assumes mode: "mode_of (pg_env pg) = PEEK" and page: "page_from (pg_env pg) stored (pv_next_seq (snd sx)) page" "page \<noteq> []"
    and before: "complete pg stored start sx"
  shows "wp (export_page pg h page) (page_done pg stored start page (pv_next_seq (snd sx))) (\<lambda>e _. is_user_exception e) sx"
proof -
  obtain now w where clock: "sdk_clock (env_sdk (pg_env pg)) (rs_world (fst sx)) = (now, w)" by fastforce
  have tail: "wp (bnd (set_var (\<lambda>v. v\<lparr>pv_outstanding := (if retried = [] then None else Some (Min (set retried)))\<rparr>)) (\<lambda>_.
      bnd (in_run (gets (is_partitioned \<circ> rs_info))) (\<lambda>part.
      bnd (when_py (stop = Some WATERMARK \<and> (part \<or> pg_sessions pg)) (in_run (on_stats (warn ''watermark_approximate'')))) (\<lambda>_.
        ret (stop, retried))))) (page_done pg stored start page (pv_next_seq (snd sx))) E t"
    if sel: "selects (pg_env pg) page [] (snd sx) (new, stop) v" and exp: "all_exported (pg_env pg) new (fst sx) (fst t)"
      and ready: "table_ready (pg_env pg) (fst t)" and retried: "set retried \<subseteq> m_seq ` set new" and marks: "marks new v (snd t)"
    for new stop v retried t E
  proof -
    have "page_done pg stored start page (pv_next_seq (snd sx)) (stop, retried) (s', (snd t)\<lparr>pv_outstanding := o'\<rparr>)"
      if "tabled (fst t) s'" for s' o'
      by (rule page_completes [OF page before sel _ _ retried])
        (use exp ready that marks in \<open>auto simp: tabled_def all_exported_def table_ready_def marks_def\<close>)
    note finished = this
    have ifs: "P \<Longrightarrow> P' \<Longrightarrow> (if b then P else P')" for b P P' by simp
    show ?thesis
      by (simp only: wp_bnd wp_set_var wp_in_run wp_gets wp_when wp_on_stats wp_ret fst_conv snd_conv)
        (rule ifs; rule finished; simp add: tabled_def)
  qed
  have processed: "wp (bnd (if new \<noteq> [] then process_page pg h new else ret []) (\<lambda>retried.
      bnd (set_var (\<lambda>v. v\<lparr>pv_outstanding := (if retried = [] then None else Some (Min (set retried)))\<rparr>)) (\<lambda>_.
      bnd (in_run (gets (is_partitioned \<circ> rs_info))) (\<lambda>part.
      bnd (when_py (stop = Some WATERMARK \<and> (part \<or> pg_sessions pg)) (in_run (on_stats (warn ''watermark_approximate'')))) (\<lambda>_.
        ret (stop, retried)))))) (page_done pg stored start page (pv_next_seq (snd sx))) (\<lambda>e _. is_user_exception e) t"
    if u: "tabled (fst sx) (fst t)" and sel: "selects (pg_env pg) page [] (snd sx) (new, stop) (snd t)" for new stop t
  proof -
    have ready: "table_ready (pg_env pg) (fst t)" using u before by (simp add: tabled_def complete_def table_ready_def)
    have safe: "\<forall>m \<in> set new. safe_to_read (pg_env pg) m"
      using sel page(1) unfolding selects_def visited_def page_from_def by auto
    have processed: "wp (if new \<noteq> [] then process_page pg h new else ret []) (\<lambda>retried t'. all_exported (pg_env pg) new (fst t) (fst t') \<and>
        table_ready (pg_env pg) (fst t') \<and> set retried \<subseteq> m_seq ` set new \<and> marks new (snd t) (snd t')) (\<lambda>e _. is_user_exception e) t"
      using process_page_marks [OF mode safe ready] ready by (simp add: wp_ret all_exported_def)
    show ?thesis
      unfolding wp_bnd [of "if new \<noteq> [] then a else b" for a b]
      by (rule wp_imp [OF processed]; intro allI impI; (rule tail [OF sel])?)
        (use u in \<open>simp_all add: all_exported_def tabled_def\<close>)
  qed
  have distinct: "distinct (map m_seq page)" using page(1) strict_sorted_iff [of "map m_seq page"] by (simp add: page_from_def)
  show ?thesis
    unfolding export_page_def wp_bnd [of "in_run (clock env)" for env] wp_in_run wp_clock clock split_beta fst_conv snd_conv
      wp_bnd [of "select_messages pg now page sel" for sel]
    by (rule wp_imp [OF select_visits [OF distinct]]; intro allI impI; (rule processed)?) (simp_all add: tabled_def)
qed

subsection \<open>The page loop completes the entity\<close>

lemma wp_links:
  assumes "keeps (link_frame tabled) m" and "\<And>t. link_frame tabled sx t \<Longrightarrow> Q t"
  shows "wp m (\<lambda>_. Q) (\<lambda>_. Q) sx"
  by (rule wp_mono [OF keepsD [OF assms(1)]]) (rule assms(2), assumption)+

lemma covered_tabled: "tabled s t \<Longrightarrow> covered env stored start P t = covered env stored start P s"
  by (simp add: covered_def tabled_def)

lemma complete_links:
  assumes "complete pg stored start sx" and "link_frame tabled sx t"
  shows "complete pg stored start t"
proof -
  have run: "tabled (fst sx) (fst t)" and "unlinked (snd t) = unlinked (snd sx)" using assms(2) by (simp_all add: link_frame_def)
  note vars = unlinked_fields [OF this(2)]
  have known: "known (snd t) = known (snd sx)" unfolding known_def fun_eq_iff vars by simp
  have ready: "table_ready env (fst t) = table_ready env (fst sx)" for env
    using run ready_frame [of "fst t" "fst sx" env] by (simp add: tabled_def)
  from assms(1) show ?thesis
    unfolding complete_def ready vars known covered_tabled [OF run] .
qed

lemma page_done_links:
  assumes "page_done pg stored start page q r sx" and "link_frame tabled sx t"
  shows "page_done pg stored start page q r t"
proof -
  have run: "tabled (fst sx) (fst t)" and "unlinked (snd t) = unlinked (snd sx)" using assms(2) by (simp_all add: link_frame_def)
  from assms(1) complete_links [OF _ assms(2)] show ?thesis
    unfolding page_done_def unlinked_fields(7) [OF \<open>unlinked (snd t) = unlinked (snd sx)\<close>] covered_tabled [OF run] by blast
qed

lemmas link_tabled = tabled.link_parts [OF refl] tabled.link_reveals

text \<open>The end of a round: the pager is at the end of the entity only when everything is written.\<close>

definition round_complete ::
  "'w pager \<Rightarrow> message set \<Rightarrow> int \<Rightarrow> pager_step \<Rightarrow> 'w run_state \<times> pager_vars \<Rightarrow> bool" where
  "round_complete pg stored start r t \<longleftrightarrow>
     complete pg stored start t \<and> (r = Stopped END_OF_ENTITY \<longrightarrow> covered (pg_env pg) stored start (\<lambda>_. True) (fst t))"

text \<open>What an exception leaves; a user error ends the run.\<close>

definition faulted :: "'w pager \<Rightarrow> message set \<Rightarrow> int \<Rightarrow> exn \<Rightarrow> 'w run_state \<times> pager_vars \<Rightarrow> bool" where
  "faulted pg stored start e t \<longleftrightarrow> is_user_exception e \<or> complete pg stored start t"

lemma complete_next:
  assumes "complete pg stored start t" and "covered (pg_env pg) stored start (\<lambda>x. x < q) (fst t)" and "1 \<le> q"
    and "tabled (fst t) s'" and "ps \<subseteq> pv_processed (snd t)"
  shows "complete pg stored start (s', (snd t)\<lparr>pv_next_seq := q, pv_processed := ps\<rparr>)"
proof -
  have "covered (pg_env pg) stored start (\<lambda>x. x < q \<or> known (snd t) x) (fst t)"
    using assms(1,2) by (auto simp: complete_def covered_def)
  then have "covered (pg_env pg) stored start (known ((snd t)\<lparr>pv_next_seq := q, pv_processed := ps\<rparr>)) (fst t)"
    by (rule covered_mono) (use assms(5) in \<open>auto simp: known_def\<close>)
  then show ?thesis
    using assms covered_tabled [OF assms(4)] by (simp add: complete_def tabled_def table_ready_def)
qed

lemma after_page_completes:
  assumes page: "page_from (pg_env pg) stored q page" "page \<noteq> []" and q: "1 \<le> q"
    and finished: "page_done pg stored start page q r t" and stop: "fst r \<noteq> Some END_OF_ENTITY"
  shows "wp (after_page pg page r) (round_complete pg stored start) (faulted pg stored start) t"
proof (cases "snd r = []")
  case True
  have "1 \<le> m_seq (last page) + 1" using page q by (auto simp: page_from_def dest!: bspec [where x = "last page"])
  moreover have "covered (pg_env pg) stored start (\<lambda>x. x < m_seq (last page) + 1) (fst t)" if "fst r = None"
    using finished that by (simp add: page_done_def)
  moreover have "complete pg stored start t" using finished by (simp add: page_done_def)
  ultimately have "complete pg stored start (fst t, (snd t)\<lparr>pv_next_seq := m_seq (last page) + 1, pv_processed := ps\<rparr>)"
    if "fst r = None" "ps \<subseteq> pv_processed (snd t)" for ps
    using that by (auto intro: complete_next tabled.frame_refl)
  from this [of "{}"] this [of "pv_processed (snd t)"]
  show ?thesis
    using True stop finished
    by (auto simp: after_page_def wp_bnd wp_set_var wp_when wp_ret round_complete_def page_done_def split: option.split)
next
  case False
  let ?q = "Min (set (snd r))"
  have next_page: "round_complete pg stored start Continue (s', w)"
    if v: "page_done pg stored start page q r v" "tabled (fst v) s'" "w = (snd v)\<lparr>pv_tracker := tr, pv_next_seq := ?q\<rparr>" for v s' w tr
  proof -
    obtain m where m: "?q = m_seq m" "m \<in> set page" using v(1) False unfolding page_done_def by blast
    from m(2) page(1) have "q \<le> m_seq m" unfolding page_from_def by blast
    then have positive: "1 \<le> ?q" using q m(1) by simp
    have upto: "covered (pg_env pg) stored start (\<lambda>x. x \<le> ?q) (fst v)" and "complete pg stored start v"
      using v(1) False unfolding page_done_def by blast+
    from this(2) have "complete pg stored start (s', (snd v)\<lparr>pv_next_seq := ?q, pv_processed := pv_processed (snd v)\<rparr>)"
      by (rule complete_next [OF _ covered_mono [OF upto] positive v(2)]) simp_all
    moreover have "known w = known ((snd v)\<lparr>pv_next_seq := ?q, pv_processed := pv_processed (snd v)\<rparr>)"
      using v(3) by (simp add: known_def fun_eq_iff)
    ultimately show ?thesis
      using v(3) by (simp add: round_complete_def complete_def)
  qed
  show ?thesis
    unfolding after_page_def if_P [OF False] wp_bnd [of "close_pager pg"]
  proof (rule wp_imp [OF wp_links [OF link_tabled(4)]], rule page_done_links [OF finished], assumption; intro allI impI)
    fix v assume v: "page_done pg stored start page q r v"
    show "wp (bnd (set_var (\<lambda>v. v\<lparr>pv_tracker := note_retry (pv_tracker v)\<rparr>)) (\<lambda>_.
        bnd (in_run (on_stats (\<lambda>st. st\<lparr>s_unreadable_recycles := s_unreadable_recycles st + 1\<rparr>))) (\<lambda>_.
        bnd (set_var (\<lambda>v. v\<lparr>pv_next_seq := ?q\<rparr>)) (\<lambda>_. ret Continue))))
        (round_complete pg stored start) (faulted pg stored start) v"
      by (simp only: wp_bnd wp_set_var wp_in_run wp_on_stats wp_ret fst_conv snd_conv)
        (rule next_page [OF v], simp_all add: tabled_def)
  next
    fix e v assume "page_done pg stored start page q r v"
    then show "faulted pg stored start e v" by (simp add: faulted_def page_done_def)
  qed
qed

text \<open>Only an empty page is the end of the entity.\<close>

lemma stop_is_not_end: "wp (pager_stop pg) (\<lambda>r _. r \<noteq> Some END_OF_ENTITY) (\<lambda>_ _. True) sx"
  by (auto simp: pager_stop_def wp_simps wp_if split: prod.split)

lemma selection_is_not_end: "wp (select_messages pg now ms sel) (\<lambda>r _. snd r \<noteq> Some END_OF_ENTITY) (\<lambda>_ _. True) sx"
proof (induction ms arbitrary: sel sx)
  case (Cons m ms)
  have ifs: "(b \<Longrightarrow> P) \<Longrightarrow> (\<not> b \<Longrightarrow> P') \<Longrightarrow> (if b then P else P')" for b P P' by simp
  show ?case
    unfolding select_messages.simps
    by (simp only: wp_if wp_bnd wp_var wp_in_run wp_on_stats wp_mark wp_ret)
      (intro ifs Cons.IH; simp)
qed (simp add: wp_ret)

lemma export_is_not_end: "wp (export_page pg h page) (\<lambda>r _. fst r \<noteq> Some END_OF_ENTITY) (\<lambda>_ _. True) sx"
proof -
  have rest: "wp (bnd m (\<lambda>retried. bnd (f retried) (\<lambda>_. bnd p (\<lambda>part. bnd (g part) (\<lambda>_. ret (stop, retried))))))
      (\<lambda>r _. fst r \<noteq> Some END_OF_ENTITY) (\<lambda>_ _. True) t" if "stop \<noteq> Some END_OF_ENTITY"
    for m :: "('a, 'b) paging" and f :: "'b \<Rightarrow> ('a, unit) paging" and p :: "('a, bool) paging" and g stop t
    unfolding wp_bnd wp_ret by (simp add: that wp_anything)
  show ?thesis
    unfolding export_page_def wp_bnd [of "in_run m" for m] wp_in_run wp_clock wp_bnd [of "select_messages pg now page sel" for now sel] split_beta
    by (rule wp_imp [OF selection_is_not_end]) (auto intro: rest)
qed

lemma links_complete:
  assumes "keeps (link_frame tabled) m" "complete pg stored start t"
  shows "wp m (\<lambda>_. complete pg stored start) (faulted pg stored start) t"
  unfolding faulted_def
  by (rule wp_mono [OF wp_links [OF assms(1) complete_links [OF assms(2)]]]; (rule disjI2)?; assumption)

text \<open>The rest of a round, once a page has been read, and once a receiver is open.\<close>

abbreviation (input) handle_page where
  "handle_page pg h m page reveals \<equiv>
     (if reveals then (if pg_incremental pg then raise (user_exception PartitionedIncremental None) else m)
      else bnd (export_page pg h page) (after_page pg page))"

abbreviation (input) browse_page where
  "browse_page pg h m cursor_mode next_seq \<equiv>
     bnd (in_run (on_world (sdk_peek (env_sdk (pg_env pg)) h PEEK_PAGE_SIZE (if cursor_mode then 0 else next_seq)))) (\<lambda>page.
       if page = [] then ret (Stopped END_OF_ENTITY)
       else bnd (if cursor_mode then ret False else reveals_partitions page) (\<lambda>reveals. handle_page pg h m page reveals))"

lemma exported_completes:
  assumes "mode_of (pg_env pg) = PEEK" "page_from (pg_env pg) stored q page" "page \<noteq> []" "1 \<le> q" "complete pg stored start t" "pv_next_seq (snd t) = q"
  shows "wp (bnd (export_page pg h page) (after_page pg page)) (round_complete pg stored start) (faulted pg stored start) t"
  unfolding wp_bnd
  by (rule wp_imp [OF wp_conj [OF export_page_completes [OF assms(1) assms(2) [folded assms(6)] assms(3,5)] export_is_not_end]])
    (use assms(2-) in \<open>auto simp: faulted_def intro!: after_page_completes [OF assms(2-4)]\<close>)

lemma revealed_completes:
  assumes mode: "mode_of (pg_env pg) = PEEK" and inc: "pg_incremental pg"
    and page: "page_from (pg_env pg) stored q page" "page \<noteq> []" "1 \<le> q" and t: "complete pg stored start t" "pv_next_seq (snd t) = q"
  shows "wp (bnd (reveals_partitions page) (\<lambda>reveals. handle_page pg h m page reveals))
    (round_complete pg stored start) (faulted pg stored start) t"
proof -
  have kept: "wp (reveals_partitions page) (\<lambda>_ v. complete pg stored start v \<and> pv_next_seq (snd v) = q)
      (\<lambda>_ v. complete pg stored start v \<and> pv_next_seq (snd v) = q) t"
  proof (rule wp_links)
    show "keeps (link_frame tabled) (reveals_partitions page)" by (rule link_tabled)
    fix v assume v: "link_frame tabled t v"
    then have "unlinked (snd v) = unlinked (snd t)" by (simp add: link_frame_def)
    from unlinked_fields(7) [OF this] show "complete pg stored start v \<and> pv_next_seq (snd v) = q"
      using complete_links [OF t(1) v] t(2) by simp
  qed
  show ?thesis
    unfolding wp_bnd [of "reveals_partitions page"]
  proof (rule wp_imp [OF kept]; intro allI impI; (elim conjE)?)
    fix r v assume v: "complete pg stored start v" "pv_next_seq (snd v) = q"
    show "wp (handle_page pg h m page r) (round_complete pg stored start) (faulted pg stored start) v"
      using exported_completes [OF mode page v] inc by (cases r) (simp_all add: wp_raise faulted_def)
  next
    fix e v assume "complete pg stored start v"
    then show "faulted pg stored start e v" unfolding faulted_def by (rule disjI2)
  qed
qed

lemma browsed_completes:
  assumes mode: "mode_of (pg_env pg) = PEEK" and inc: "pg_incremental pg" and browse: "browses (pg_env pg) stored"
    and t: "complete pg stored start t"
  shows "wp (browse_page pg h m (pv_cursor_mode (snd t)) (pv_next_seq (snd t))) (round_complete pg stored start) (faulted pg stored start) t"
proof -
  let ?q = "pv_next_seq (snd t)"
  have q: "1 \<le> ?q" "\<not> pv_cursor_mode (snd t)" using t by (simp_all add: complete_def)
  have world: "complete pg stored start ((fst t)\<lparr>rs_world := w\<rparr>, snd t)" for w
    by (rule complete_links [OF t]) (simp add: link_frame_def tabled_def)
  have peek: "wp (sdk_peek (env_sdk (pg_env pg)) h PEEK_PAGE_SIZE ?q) (\<lambda>page _. page_from (pg_env pg) stored ?q page) (\<lambda>_ _. True) w" for w
    using browse q(1) by (simp add: browses_def)
  have ended: "covered (pg_env pg) stored start (\<lambda>_. True) (fst t)" if "page_from (pg_env pg) stored ?q []"
    using that t unfolding page_from_def complete_def covered_def known_def by (meson not_le)
  show ?thesis
    unfolding wp_bnd [of "in_run m" for m] wp_in_run wp_on_world if_not_P [OF q(2)]
  proof (rule wp_imp [OF peek]; intro allI impI)
    fix page w assume page: "page_from (pg_env pg) stored ?q page"
    show "wp (if page = [] then ret (Stopped END_OF_ENTITY) else bnd (reveals_partitions page) (\<lambda>reveals. handle_page pg h m page reveals))
        (round_complete pg stored start) (faulted pg stored start) ((fst t)\<lparr>rs_world := w\<rparr>, snd t)"
    proof (cases "page = []")
      case True
      then show ?thesis
        using world ended page by (simp add: wp_ret round_complete_def covered_def)
    next
      case False
      from revealed_completes [OF mode inc page this q(1) world] show ?thesis by (simp add: False)
    qed
  next
    fix e w show "faulted pg stored start e ((fst t)\<lparr>rs_world := w\<rparr>, snd t)" using world by (simp add: faulted_def)
  qed
qed

lemma page_step_completes:
  assumes "mode_of (pg_env pg) = PEEK" "pg_incremental pg" "browses (pg_env pg) stored" and before: "complete pg stored start sx"
  shows "wp (page_step pg) (round_complete pg stored start) (faulted pg stored start) sx"
proof -
  have received: "wp (bnd (page_receiver pg) (\<lambda>h. bnd (var pv_cursor_mode) (\<lambda>cursor_mode. bnd (var pv_next_seq) (\<lambda>next_seq.
        browse_page pg h m cursor_mode next_seq))))
      (round_complete pg stored start) (faulted pg stored start) t"
    if "complete pg stored start t" for m t
    unfolding wp_bnd [of "page_receiver pg"] wp_bnd [of "var f" for f] wp_var
    by (rule wp_imp [OF links_complete [OF link_tabled(3) that]]) (simp_all add: browsed_completes [OF assms(1-3)])
  show ?thesis
    unfolding page_step_def wp_bnd [of "pager_stop pg"]
  proof (rule wp_imp [OF wp_conj [OF links_complete [OF link_tabled(1) before] stop_is_not_end]]; intro allI impI; (elim conjE)?)
    fix stop t assume stop: "complete pg stored start t" "stop \<noteq> Some END_OF_ENTITY"
    show "wp (case stop of Some reason \<Rightarrow> ret (Stopped reason)
        | None \<Rightarrow> bnd (page_receiver pg) (\<lambda>h. bnd (var pv_cursor_mode) (\<lambda>cursor_mode. bnd (var pv_next_seq) (\<lambda>next_seq.
            browse_page pg h
              (bnd (set_var (\<lambda>v. v\<lparr>pv_cursor_mode := True\<rparr>)) (\<lambda>_.
                bnd (in_run (set_retries False)) (\<lambda>_. bnd (close_pager_receiver pg) (\<lambda>_. ret Continue)))) cursor_mode next_seq))))
        (round_complete pg stored start) (faulted pg stored start) t"
      using stop received [OF stop(1)] by (cases stop) (simp_all add: wp_ret round_complete_def)
  qed simp_all
qed

lemma guarded_page_completes:
  assumes "mode_of (pg_env pg) = PEEK" and "pg_incremental pg" and "browses (pg_env pg) stored" and "complete pg stored start sx"
  shows "wp (guarded_page pg) (round_complete pg stored start) (\<lambda>_ _. True) sx"
proof -
  have "wp (bnd (recover_pager pg e) (\<lambda>_. ret Continue)) (round_complete pg stored start) (\<lambda>_ _. True) t"
    if "complete pg stored start t" for e t
    unfolding wp_bnd wp_ret
    by (rule wp_mono [OF wp_links [OF link_tabled(6) complete_links [OF that]]]) (simp_all add: round_complete_def)
  then show ?thesis
    unfolding guarded_page_def wp_try
    by (intro wp_imp [OF page_step_completes [OF assms]]) (auto simp: faulted_def wp_if wp_raise)
qed

lemma page_loop_completes:
  assumes "mode_of (pg_env pg) = PEEK" and "pg_incremental pg" and "browses (pg_env pg) stored"
  shows "complete pg stored start sx \<Longrightarrow>
    wp (page_loop pg n) (\<lambda>r t. complete pg stored start t \<and>
      (r = Some END_OF_ENTITY \<longrightarrow> covered (pg_env pg) stored start (\<lambda>_. True) (fst t))) (\<lambda>_ _. True) sx"
proof (induction n arbitrary: sx)
  case (Suc n)
  show ?case
    unfolding page_loop.simps wp_bnd
    by (rule wp_imp [OF guarded_page_completes [OF assms Suc.prems]])
      (use Suc.IH in \<open>auto simp: round_complete_def wp_ret split: pager_step.split\<close>)
qed (simp add: wp_ret)

subsection \<open>The run completes the entity up to its cursor\<close>

lemma tabled_set_retries: "keeps tabled (set_retries b)"
  by (simp add: set_retries_def on_handler_def keeps_def wp_simps tabled_def exported_cells_def)

lemma pager_body_completes:
  assumes "mode_of (pg_env pg) = PEEK" and inc: "pg_incremental pg" and "browses (pg_env pg) stored" and plain: "\<not> pg_sessions pg"
    and ready: "table_ready (pg_env pg) (fst sx)" and start: "1 \<le> start" and fresh: "snd sx = pager_start"
  shows "wp (pager_body pg start n) (\<lambda>r t. complete pg stored start t \<and>
      (r = Some END_OF_ENTITY \<longrightarrow> covered (pg_env pg) stored start (\<lambda>_. True) (fst t))) (\<lambda>_ _. True) sx"
proof -
  let ?Q = "\<lambda>r t. complete pg stored start t \<and> (r = Some END_OF_ENTITY \<longrightarrow> covered (pg_env pg) stored start (\<lambda>_. True) (fst t))"
  have fresh_vars: "complete pg stored start (s, pager_start\<lparr>pv_deadline := d, pv_cursor_mode := False, pv_next_seq := start\<rparr>)"
    if "table_ready (pg_env pg) s" for s d
    using that start by (auto simp: complete_def covered_def known_def pager_start_def)
  have pages: "wp (run_pages pg start n) ?Q (\<lambda>_ _. True) (s, pager_start\<lparr>pv_deadline := d\<rparr>)" if "table_ready (pg_env pg) s" for s d
    unfolding run_pages_def
    using page_loop_completes [OF assms(1-3) fresh_vars [OF that]] inc by (simp add: wp_bnd wp_in_run wp_gets wp_set_var wp_when)
  have closes: "wp (bnd (in_run (set_retries b)) (\<lambda>_. close_pager pg)) (\<lambda>_. ?Q r) (\<lambda>_ _. True) t" if "?Q r t" for b r t
  proof -
    have links: "keeps (link_frame tabled) (bnd (in_run (set_retries b)) (\<lambda>_. close_pager pg))"
      by (intro tabled.link_rules link_tabled tabled_set_retries)
    have kept: "?Q r v" if v: "link_frame tabled t v" for v
    proof -
      have "tabled (fst t) (fst v)" using v by (simp add: link_frame_def)
      from covered_tabled [OF this] \<open>?Q r t\<close> complete_links [OF _ v] show ?thesis by blast
    qed
    show ?thesis by (rule wp_mono [OF wp_links [OF links, of t "?Q r", OF kept]]) simp_all
  qed
  obtain d w where now: "sdk_monotonic (env_sdk (pg_env pg)) (rs_world (fst sx)) = (d, w)" by fastforce
  have "table_ready (pg_env pg) ((fst sx)\<lparr>rs_world := w\<rparr>)" using ready by (simp add: table_ready_def)
  note begun = pages [OF this]
  have any: "wp m (\<lambda>_ _. True) (\<lambda>_ _. True) t" for m :: "('a, unit) paging" and t by (simp add: wp_anything)
  have "wp (finally_py (if pg_sessions pg then run_sessions pg n else run_pages pg start n)
      (bnd (in_run (set_retries b)) (\<lambda>_. close_pager pg))) ?Q (\<lambda>_ _. True) ((fst sx)\<lparr>rs_world := w\<rparr>, pager_start\<lparr>pv_deadline := d\<rparr>)" for b d
    unfolding wp_finally if_not_P [OF plain]
    by (rule wp_imp [OF begun]; intro allI impI; (rule any closes)?) simp_all
  then show ?thesis
    unfolding pager_body_def wp_bnd [of "in_run (monotonic e)" for e] wp_bnd [of "set_var f" for f] wp_bnd [of "in_run (gets f)" for f]
      wp_in_run wp_monotonic now wp_set_var wp_gets
    by (simp add: fresh)
qed

lemma stop_name_end: "stop_name r = ''end_of_entity'' \<longleftrightarrow> r = END_OF_ENTITY"
  by (cases r) simp_all

text \<open>The new cursor is one up to which everything is known to be complete, or the old one.\<close>

lemma new_cursor_known:
  assumes "new_cursor pg (cursor_start pg) v = Some c" and "cursor_entity_path c = entity_path (env_entity (pg_env pg))"
    and "cursor_start pg \<le> q" and "q \<le> last_sequence_number c"
  shows "known v q"
  using assms
  by (auto simp: new_cursor_def known_def cursor_start_def Let_def split: option.splits if_splits)

lemma peek_run_completes:
  assumes "mode_of (pg_env pg) = PEEK" and inc: "pg_incremental pg" and "browses (pg_env pg) stored" and "\<not> pg_sessions pg"
    and "table_ready (pg_env pg) s" and "1 \<le> cursor_start pg"
  shows "wp (peek_run pg n) (\<lambda>r t. \<forall>cursor. r = Some cursor \<longrightarrow>
      (\<forall>c. cursor = Some c \<and> cursor_entity_path c = entity_path (env_entity (pg_env pg)) \<longrightarrow>
         covered (pg_env pg) stored (cursor_start pg) (\<lambda>q. q \<le> last_sequence_number c) t) \<and>
      (s_stop_reason (rs_stats t) = stop_name END_OF_ENTITY \<longrightarrow> covered (pg_env pg) stored (cursor_start pg) (\<lambda>_. True) t))
    (\<lambda>_ _. True) s"
proof -
  have body: "wp (pager_body pg (cursor_start pg) n) (\<lambda>r t. complete pg stored (cursor_start pg) t \<and>
      (r = Some END_OF_ENTITY \<longrightarrow> covered (pg_env pg) stored (cursor_start pg) (\<lambda>_. True) (fst t))) (\<lambda>_ _. True) (s, pager_start)"
    by (rule pager_body_completes [OF assms(1-4)]) (use assms(5,6) in simp_all)
  have upto: "covered (pg_env pg) stored (cursor_start pg) (\<lambda>q. q \<le> last_sequence_number c) t"
    if "covered (pg_env pg) stored (cursor_start pg) (known v) t" "new_cursor pg (cursor_start pg) v = Some c"
      "cursor_entity_path c = entity_path (env_entity (pg_env pg))" for t v c
    using that(1) new_cursor_known [OF that(2,3)] by (auto simp: covered_def)
  have stats: "covered env stored start P (t\<lparr>rs_stats := st\<rparr>) = covered env stored start P t" for env start P and t :: "'a run_state" and st
    by (simp add: covered_def)
  show ?thesis
    unfolding peek_run_def Let_def wp_bnd [of "gets f" for f] wp_gets wp_if wp_raise wp_run_vars wp_bnd [of "pager_body pg q n" for q]
    using inc
    by (auto simp: wp_bnd wp_ret wp_in_run wp_on_stats wp_var stats stop_name_end complete_def
        intro!: wp_imp [OF body] upto split: option.split)
qed

text \<open>C5: An incremental peek loses nothing. Let the messages that stay in the entity during the run be \<open>stored\<close>; others may
  come and go. Whatever cursor the run returns, a row of every exportable message from the start of the run up to that
  cursor has been written, however often the pager recovered, skipped, retried or was stopped; and when it stopped at the
  end of the entity, a row of every one from the start on. Peeking returns the messages of a page in order and leaves none out,
  and reading a message fails, if it fails, with one of the unreadable-body errors.\<close>
theorem peek_loses_nothing:
  assumes "fst (peek_run pg n s) = Inr (Some cursor)"
    and "mode_of (pg_env pg) = PEEK" and "pg_incremental pg" and "\<not> pg_sessions pg" and "1 \<le> cursor_start pg"
    and "browses (pg_env pg) stored" and "table_ready (pg_env pg) s"
    and "m \<in> stored" and "exportable (pg_env pg) m" and "cursor_start pg \<le> m_seq m"
    and "(\<exists>c. cursor = Some c \<and> cursor_entity_path c = entity_path (env_entity (pg_env pg)) \<and> m_seq m \<le> last_sequence_number c) \<or>
      s_stop_reason (rs_stats (snd (peek_run pg n s))) = stop_name END_OF_ENTITY"
  shows "str_of_int (m_seq m) \<in> set (exported_cells (snd (peek_run pg n s)))"
proof -
  obtain t where run: "peek_run pg n s = (Inr (Some cursor), t)" using assms(1) by (metis prod.collapse)
  from wp_normalD [OF peek_run_completes [OF assms(2,3,6,4,7,5)] run] assms(8-11) run show ?thesis
    by (auto simp: covered_def)
qed

subsection \<open>A small entity, peeked to its end\<close>

definition browsing_pager :: "int pager" where
  "browsing_pager = (peeking_pager INCREMENTAL_FETCH)
     \<lparr>pg_env := (pg_env (peeking_pager INCREMENTAL_FETCH))
        \<lparr>env_sdk := ticking_sdk\<lparr>sdk_monotonic := (\<lambda>w. (0, w)), sdk_peek := (\<lambda>h n q. ret (if q \<le> 7 then [sample_message] else []))\<rparr>,
         env_config := (env_config (pg_env (peeking_pager INCREMENTAL_FETCH)))\<lparr>limits := \<lparr>max_messages = 0, stop_at_job_start = False\<rparr>\<rparr>\<rparr>\<rparr>"

lemma browsing_facts [simp]:
  "pg_incremental browsing_pager" "\<not> pg_sessions browsing_pager" "cursor_start browsing_pager = 1"
  "mode_of (pg_env browsing_pager) = PEEK" "pg_limits browsing_pager = \<lparr>max_messages = 0, stop_at_job_start = False\<rparr>"
  "max_duration_seconds (advanced (env_config (pg_env browsing_pager))) = 60"
  "body_format (body (env_config (pg_env browsing_pager))) = TEXT" "env_lib (pg_env browsing_pager) = sample_lib"
  "effective_auth_type (env_config (pg_env browsing_pager)) = CONNECTION_STRING"
  "sdk_monotonic (env_sdk (pg_env browsing_pager)) w = (0, w)" "sdk_clock (env_sdk (pg_env browsing_pager)) w = (w, w)"
  "sdk_client (env_sdk (pg_env browsing_pager)) k = ret 0" "sdk_receiver (env_sdk (pg_env browsing_pager)) rq = ret 0"
  "sdk_enter (env_sdk (pg_env browsing_pager)) h = ret ()" "sdk_close (env_sdk (pg_env browsing_pager)) h = ret ()"
  "sdk_peek (env_sdk (pg_env browsing_pager)) h n q = ret (if q \<le> 7 then [sample_message] else [])"
  by (simp_all add: browsing_pager_def peeking_pager_def pg_incremental_def pg_sessions_def cursor_start_def pg_limits_def mode_of_def
      sample_configuration_def ticking_sdk_def effective_auth_type_def uses_row_connection_string_def)

text \<open>A row can be made of any message whose body encodes, unless bodies are flattened.\<close>

lemma readable_plain:
  assumes "encode_body (env_lib env) m (body_format (body (env_config env))) = Inr e" and "body_format (body (env_config env)) \<noteq> JSON_FLATTEN"
  shows "readable env m"
proof -
  have "enc_fields e = None" using encoded_cells [OF assms(1)] assms(2) by (auto split: option.splits)
  then show ?thesis by (simp add: readable_def to_row_def assms(1) wp_simps Let_def)
qed

lemma browsing_read:
  "\<exists>st row. read_messages (pg_env browsing_pager) h g now [sample_message] empty_acc s =
     (Inr \<lparr>ba_rows = [row], ba_readable = [(sample_message, 2)], ba_retried = [], ba_disposed = False\<rparr>, s\<lparr>rs_stats := st\<rparr>) \<and>
     s_unreadable st = s_unreadable (rs_stats s)"
  by (simp add: read_message_def run_prims to_row_def sample_encoded of_sum_def Let_def empty_acc_def note_delivery_count_def amqp_times)
    (rule exI, rule conjI, rule refl, simp)

lemma browsing_batch:
  assumes "rs_registry s = None" and "uh_pending (rs_unreadable s) = None" and "s_unreadable (rs_stats s) = s_unreadable (new_stats ''peek'')"
    and "rs_output s = sample_table"
  shows "\<exists>st t row. process_batch (pg_env browsing_pager) h [sample_message] g s =
     (Inr \<lparr>br_written = 1, br_needs_recycle = False, br_progressed = True, br_retried = []\<rparr>,
      s\<lparr>rs_output := t, rs_trace := rs_trace s @ [EvWrite [row]], rs_stats := st,
        rs_unreadable := (rs_unreadable s)\<lparr>uh_pending := None\<rparr>\<rparr>)"
proof -
  obtain st row where read: "read_messages (pg_env browsing_pager) h g (rs_world s) [sample_message] empty_acc s =
     (Inr \<lparr>ba_rows = [row], ba_readable = [(sample_message, 2)], ba_retried = [], ba_disposed = False\<rparr>, s\<lparr>rs_stats := st\<rparr>)"
    and st: "s_unreadable st = s_unreadable (rs_stats s)"
    using browsing_read [of h g "rs_world s" s] by blast
  have "\<exists>cs. write_output (pg_env browsing_pager) [row] (s\<lparr>rs_stats := st\<rparr>) =
      (Inr (), s\<lparr>rs_stats := st, rs_output := (rs_output s)\<lparr>ot_csv := ot_csv (rs_output s) @ cs,
          ot_rows_written := ot_rows_written (rs_output s) + 1\<rparr>, rs_trace := rs_trace s @ [EvWrite [row]]\<rparr>)"
    using batch_write [OF read] assms sample_table_fits sample_table_format by auto
  then obtain t where "write_output (pg_env browsing_pager) [row] (s\<lparr>rs_stats := st\<rparr>) =
      (Inr (), s\<lparr>rs_stats := st, rs_output := t, rs_trace := rs_trace s @ [EvWrite [row]]\<rparr>)" by blast
  with read st assms show ?thesis
    by (simp del: read_messages.simps add: process_batch_def process_def run_prims write_batch_def settle_one_def make_settler_def
        noop_settle_def lock_holding_def safe_settle_def final_checks_def raise_pending_def check_overflow_def check_abort_share_def
        on_handler_def unreadable_total_def new_stats_def)
      (intro exI, rule refl)
qed

lemma sample_readable: "readable (pg_env browsing_pager) sample_message"
  using readable_plain [of "pg_env browsing_pager" sample_message] by (simp add: sample_encoded)

lemma browsing_browses: "browses (pg_env browsing_pager) {sample_message}"
proof -
  have "safe_to_read (pg_env browsing_pager) sample_message"
    using sample_readable by (auto simp: readable_def safe_to_read_def intro: wp_mono)
  then show ?thesis
    by (simp add: browses_def page_from_def wp_ret) (simp add: sample_message_def)
qed

lemma browsing_ready: "table_ready (pg_env browsing_pager) peeking_run"
  using sample_table_fits sample_table_format by (simp add: table_ready_def peeking_run_def)

lemma browsing_state [simp]:
  "rs_info peeking_run = default_entity_info" "rs_trace peeking_run = []" "rs_world peeking_run = 0"
  "rs_unreadable peeking_run = new_handler" "uh_retries_enabled new_handler" "s_written (rs_stats peeking_run) = 0"
  "peeking_run\<lparr>rs_world := 0\<rparr> = peeking_run" "peeking_run\<lparr>rs_unreadable := new_handler\<rparr> = peeking_run"
  by (simp_all add: peeking_run_def new_handler_def new_stats_def)

lemma browsing_message [simp]:
  "m_seq sample_message = 7" "m_expires_at sample_message = None" "\<not> is_pending_activation sample_message"
  by (simp_all add: sample_message_def is_pending_activation_def)

lemma browsing_reveals [simp]: "reveals_partitions [sample_message] (peeking_run, v) = (Inr False, (peeking_run, v))"
  by (simp add: reveals_partitions_def in_run_def run_prims note_all_def note_sequence_number_def partition_of_def sample_message_def
      is_partitioned_def default_entity_info_def peeking_run_def)

lemma browsing_run:
  "\<exists>t. peek_run browsing_pager 2 peeking_run =
     (Inr (Some (Some \<lparr>cursor_entity_path = entity_path (env_entity (pg_env browsing_pager)), last_sequence_number = 7\<rparr>)), t)"
proof -
  obtain st t row where batch: "process_batch (pg_env browsing_pager) 0 [sample_message] (rt_generation new_tracker) peeking_run =
     (Inr \<lparr>br_written = 1, br_needs_recycle = False, br_progressed = True, br_retried = []\<rparr>,
      peeking_run\<lparr>rs_output := t, rs_trace := rs_trace peeking_run @ [EvWrite [row]], rs_stats := st,
        rs_unreadable := (rs_unreadable peeking_run)\<lparr>uh_pending := None\<rparr>\<rparr>)"
    using browsing_batch [of peeking_run 0 "rt_generation new_tracker"] by (auto simp: peeking_run_def new_handler_def)
  show ?thesis
    by (cases "s_written st") (simp_all add: peek_run_def pager_body_def run_pages_def page_step_def guarded_page_def pager_stop_def page_receiver_def
       open_pager_def pager_client_def monotonic_def run_prims in_run_def var_def set_var_def run_vars_def Let_def o_def finally_py_def
       pager_start_def page_loop.simps numeral_2_eq_2 export_page_def process_page_def
       data_client_def build_client_def open_receiver_def enter_receiver_def receiver_profile_def close_pager_def close_option_def
       close_quietly_def set_retries_def on_handler_def seconds_def close_handle_def batch default_entity_info_def
       after_page_def mark_taken_def mark_processed_def page_progress_def new_cursor_def)
qed

theorem peek_loses_nothing_witness:
  "str_of_int 7 \<in> set (exported_cells (snd (peek_run browsing_pager 2 peeking_run)))"
proof -
  obtain t where run: "peek_run browsing_pager 2 peeking_run =
     (Inr (Some (Some \<lparr>cursor_entity_path = entity_path (env_entity (pg_env browsing_pager)), last_sequence_number = 7\<rparr>)), t)"
    using browsing_run by blast
  have "exportable (pg_env browsing_pager) sample_message" using sample_readable by (simp add: exportable_def)
  from peek_loses_nothing [OF _ _ _ _ _ browsing_browses browsing_ready _ this, of 2] show ?thesis by (simp add: run)
qed

end
