(* ===== verification/Component.thy ===== *)
theory Component
  imports Peek Loop_Facts State_Json
begin

text \<open>
  The orchestration of \<^verbatim>\<open>src/component.py\<close>: one run of a row (\<^verbatim>\<open>Component.run\<close> and its steps)
  and the sync actions. The record \<open>component\<close> holds what the platform and pydantic hand to it: the
  parameters as typed by each model (\<open>None\<close> when the types are rejected), the loaded state, the SDK.
  \<^verbatim>\<open>RunContext\<close> is split: what the collaborators change is the state of a run, what they read is the
  environment, the rest is \<open>run_context\<close>. The result of a run is the state it writes, \<open>None\<close> when the
  fuel of a loop ran out.
\<close>

subsection \<open>What a run is given\<close>

record 'w component =
  cp_sdk :: "'w sdk"
  cp_admin :: "'w admin"
  cp_lib :: pylib
  cp_text :: textlib
  cp_raw :: "string \<rightharpoonup> param"
  cp_auth :: auth_configuration
  cp_row :: "entity_configuration option"
  cp_full :: "configuration option"
  cp_selected_topic :: "string option"
  cp_loaded :: "load_error + extractor_state"
  cp_legacy_queue :: bool
  cp_throttled :: "'w \<Rightarrow> nat"
  cp_duration :: "'w \<Rightarrow> pystr"
  cp_preview_chars :: nat

text \<open>The label of the AMQP links, from the ids of the platform.\<close>

definition client_identifier :: "string option \<Rightarrow> string option \<Rightarrow> string" where
  "client_identifier config_id row_id =
     (let or_else = (\<lambda>v d. case v of None \<Rightarrow> d | Some s \<Rightarrow> if s = [] then d else s) in
      take 64 (''kbc-'' @ or_else config_id ''local'' @ ''-'' @ or_else row_id ''root''))"

lemma client_identifier_length: "length (client_identifier c r) \<le> 64"
  by (simp add: client_identifier_def Let_def)

record run_context =
  rc_state :: extractor_state
  rc_t0 :: datetime

definition component_env :: "'w component \<Rightarrow> configuration \<Rightarrow> 'w env" where
  "component_env cp c =
     \<lparr>env_sdk = cp_sdk cp, env_lib = cp_lib cp, env_config = c, env_entity = from_source (source c),
      env_text = cp_text cp, env_secrets = connector_secrets c\<rparr>"

text \<open>The state before the collaborators of a run exist; \<open>start_run\<close> builds them.\<close>

definition blank_run :: "'w \<Rightarrow> 'w run_state" where
  "blank_run w =
     \<lparr>rs_world = w, rs_stats = new_stats [], rs_registry = None, rs_pending = empty_builder,
      rs_output = new_output_table [] \<lparr>table_name = [], load_type = INCREMENTAL_LOAD, primary_key = SEQUENCE_NUMBER\<rparr> TEXT,
      rs_unreadable = new_handler, rs_settler_armed = False, rs_info = default_entity_info, rs_trace = []\<rparr>"

subsection \<open>The steps of a run\<close>

definition rejected :: "string \<Rightarrow> ('w, 'a) run" where
  "rejected what = raise (user_exception (OtherUserError what) None)"

text \<open>\<^verbatim>\<open>_load_run_config\<close>: the auth block first, then the whole row.\<close>

definition checked_auth :: "'w component \<Rightarrow> ('w, auth_configuration) run" where
  "checked_auth cp = (case validate_auth (cp_auth cp) of Inl err \<Rightarrow> rejected ''authentication'' | Inr a \<Rightarrow> ret a)"

definition load_run_config :: "'w component \<Rightarrow> ('w, configuration) run" where
  "load_run_config cp =
     bnd (checked_auth cp) (\<lambda>_.
       case cp_full cp of
         None \<Rightarrow> rejected ''configuration''
       | Some c \<Rightarrow> (case validate_configuration c of Inl err \<Rightarrow> rejected ''configuration'' | Inr c' \<Rightarrow> ret c'))"

definition check_sessions :: "configuration \<Rightarrow> entity_ref \<Rightarrow> entity_info \<Rightarrow> ('w, unit) run" where
  "check_sessions c e info =
     (case requires_session info of
        None \<Rightarrow> ret ()
      | Some required \<Rightarrow>
          if is_sub_queue e \<or> required = session_enabled (source c) then ret ()
          else raise (user_exception (SessionSettingMismatch (entity_path e) required) None))"

definition write_always_modes :: "settlement_mode list" where
  "write_always_modes = [COMPLETE, RECEIVE_AND_DELETE]"

definition start_run :: "'w component \<Rightarrow> 'w env \<Rightarrow> ('w, run_context) run" where
  "start_run cp env =
     bnd (clock env) (\<lambda>t0.
       case cp_loaded cp of
         Inl err \<Rightarrow> rejected ''state''
       | Inr st \<Rightarrow>
           bnd (modify (\<lambda>s. s\<lparr>rs_stats := new_stats (settlement_mode_value (mode_of env))\<rparr>)) (\<lambda>_.
           bnd (load_entity_info env (cp_admin cp)) (\<lambda>info.
           bnd (modify (\<lambda>s. s\<lparr>rs_info := info\<rparr>)) (\<lambda>_.
           bnd (check_sessions (env_config env) (env_entity env) info) (\<lambda>_.
           bnd (when_py (mode_of env \<in> set write_always_modes \<and> cp_legacy_queue cp)
                  (on_stats (warn ''legacy_queue_write_always''))) (\<lambda>_.
           bnd (modify (\<lambda>s. s\<lparr>rs_registry := (if body_format (body (env_config env)) = JSON_FLATTEN
                    then Some (new_registry (flatten_columns st) metadata_column_names) else None),
                  rs_pending := empty_builder\<rparr>)) (\<lambda>_.
             ret \<lparr>rc_state = st, rc_t0 = t0\<rparr>)))))))"

definition output_name :: "'w env \<Rightarrow> string" where
  "output_name env =
     (let name = table_name (destination (env_config env)) in if name = [] then default_table_name (env_entity env) else name)"

definition open_output :: "'w env \<Rightarrow> ('w, unit) run" where
  "open_output env =
     bnd (modify (\<lambda>s. s\<lparr>rs_output := new_output_table (output_name env) (destination (env_config env))
            (body_format (body (env_config env)))\<rparr>)) (\<lambda>_.
     bnd (gets rs_registry) (\<lambda>reg. on_output (open_table reg)))"

text \<open>The constructor of \<^verbatim>\<open>BatchProcessor\<close> refuses to flatten without a registry.\<close>

definition require_registry :: "'w env \<Rightarrow> ('w, unit) run" where
  "require_registry env =
     bnd (gets rs_registry) (\<lambda>reg.
       when_py (body_format (body (env_config env)) = JSON_FLATTEN \<and> reg = None) (raise (builtin ''ValueError'')))"

definition build_processor :: "('w, unit) run" where
  "build_processor = modify (\<lambda>s. s\<lparr>rs_unreadable := new_handler, rs_settler_armed := False\<rparr>)"

definition commit_pending :: "'w env \<Rightarrow> run_context \<Rightarrow> ('w, unit) run" where
  "commit_pending env rc =
     bnd (commit env (pending_commit (rc_state rc))) (\<lambda>kept.
     bnd (gets rs_pending) (\<lambda>b.
       case builder_carry kept b of
         Inl err \<Rightarrow> raise (builtin (dict_error_name err))
       | Inr b' \<Rightarrow> modify (\<lambda>s. s\<lparr>rs_pending := b'\<rparr>)))"

definition reconcile_deferrals :: "'w env \<Rightarrow> ('w, unit) run" where
  "reconcile_deferrals env = (if mode_of env = DEFER_COMMIT then orphan_scan env else foreign_probe env)"

text \<open>\<^verbatim>\<open>_projected_state\<close>, the merge rule; \<open>cursor\<close> is the context's peek cursor.\<close>

definition projected_state :: "'w env \<Rightarrow> run_context \<Rightarrow> peek_cursor option \<Rightarrow> ('w, extractor_state) run" where
  "projected_state env rc cursor =
     bnd (if is_destructive (mode_of env)
          then bnd (clock env) (\<lambda>t. bnd (gets rs_pending) (\<lambda>b.
                 ret ((rc_state rc)\<lparr>pending_commit := builder_build (format_timestamp (Some t)) b\<rparr>)))
          else if fetch_mode (source (env_config env)) = INCREMENTAL_FETCH
          then ret ((rc_state rc)\<lparr>state_peek_cursor := cursor\<rparr>)
          else ret (rc_state rc)) (\<lambda>st.
     bnd (gets rs_registry) (\<lambda>reg.
       ret (case reg of None \<Rightarrow> st | Some r \<Rightarrow> st\<lparr>flatten_columns := registry_to_state r\<rparr>)))"

text \<open>The size callback of the receive loop; projecting the state raises nothing.\<close>

definition projected_size :: "'w component \<Rightarrow> 'w env \<Rightarrow> run_context \<Rightarrow> 'w run_state \<Rightarrow> int \<times> 'w" where
  "projected_size cp env rc s =
     (case projected_state env rc (state_peek_cursor (rc_state rc)) s of
        (Inl e, s') \<Rightarrow> (0, rs_world s')
      | (Inr st, s') \<Rightarrow> (size_bytes st, rs_world s'))"

definition component_loop :: "'w component \<Rightarrow> 'w env \<Rightarrow> run_context \<Rightarrow> 'w loop" where
  "component_loop cp env rc =
     \<lparr>lp_env = env, lp_admin = cp_admin cp, lp_t0 = rc_t0 rc, lp_state_size = projected_size cp env rc\<rparr>"

definition consume_entity :: "'w component \<Rightarrow> 'w env \<Rightarrow> run_context \<Rightarrow> nat \<Rightarrow> ('w, stop_reason option) run" where
  "consume_entity cp env rc fuel =
     bnd (when_py (mode_of env = RECEIVE_AND_DELETE) (on_stats (warn ''at_most_once''))) (\<lambda>_.
     bnd (when_py (1 < prefetch_count (advanced (env_config env))) (on_stats (warn ''prefetch''))) (\<lambda>_.
       receive_loop (component_loop cp env rc) fuel))"

definition carried_total :: "extractor_state \<Rightarrow> int" where
  "carried_total st = sum_list (map group_count (concat (map pe_groups (pending_commit st))))"

definition peek_entity :: "'w env \<Rightarrow> run_context \<Rightarrow> nat \<Rightarrow> ('w, peek_cursor option option) run" where
  "peek_entity env rc fuel =
     bnd (when_py (carried_total (rc_state rc) \<noteq> 0) (on_stats (warn ''pending_carried''))) (\<lambda>_.
       peek_run \<lparr>pg_env = env, pg_cursor = state_peek_cursor (rc_state rc), pg_t0 = rc_t0 rc\<rparr> fuel)"

text \<open>The body of the output's \<^verbatim>\<open>with\<close> block; its result is the context's peek cursor.\<close>

definition run_steps :: "'w component \<Rightarrow> 'w env \<Rightarrow> run_context \<Rightarrow> nat \<Rightarrow> ('w, peek_cursor option option) run" where
  "run_steps cp env rc fuel =
     bnd (require_registry env) (\<lambda>_.
     bnd build_processor (\<lambda>_.
       if is_destructive (mode_of env) then
         bnd (commit_pending env rc) (\<lambda>_.
         bnd (reconcile_deferrals env) (\<lambda>_.
         bnd (consume_entity cp env rc fuel) (\<lambda>r.
           ret (case r of None \<Rightarrow> None | Some reason \<Rightarrow> Some (state_peek_cursor (rc_state rc))))))
       else peek_entity env rc fuel))"

definition finish_run :: "'w component \<Rightarrow> 'w env \<Rightarrow> run_context \<Rightarrow> peek_cursor option \<Rightarrow> ('w, extractor_state) run" where
  "finish_run cp env rc cursor =
     bnd (projected_state env rc cursor) (\<lambda>st.
     bnd (modify (\<lambda>s. s\<lparr>rs_stats := note_throttled (cp_throttled cp (rs_world s)) (rs_stats s)\<rparr>)) (\<lambda>_.
     bnd (modify (\<lambda>s. s\<lparr>rs_stats := fst (log_summary (cp_duration cp (rs_world s)) (rs_stats s))\<rparr>)) (\<lambda>_. ret st)))"

definition run_row :: "'w component \<Rightarrow> 'w env \<Rightarrow> nat \<Rightarrow> ('w, extractor_state option) run" where
  "run_row cp env fuel =
     bnd (start_run cp env) (\<lambda>rc.
     bnd (open_output env) (\<lambda>_.
     bnd (finally_py (run_steps cp env rc fuel) (on_output close_table)) (\<lambda>r.
       case r of
         None \<Rightarrow> ret None
       | Some cursor \<Rightarrow> bnd (finish_run cp env rc cursor) (\<lambda>st. ret (Some st)))))"

definition run_component :: "'w component \<Rightarrow> nat \<Rightarrow> ('w, extractor_state option) run" where
  "run_component cp fuel = bnd (load_run_config cp) (\<lambda>c. run_row cp (component_env cp c) fuel)"

text \<open>The exit code of the process.\<close>

definition exit_code :: "exn + 'a \<Rightarrow> nat" where
  "exit_code r = (case r of Inr x \<Rightarrow> 0 | Inl e \<Rightarrow> if is_user_exception e then 1 else 2)"

subsection \<open>Sync actions\<close>

datatype message_type = SUCCESS | WARNING | INFO | TABLE

datatype action_message =
    ConnectedToNamespace
  | NoManageUnknownEntity
  | NoManageNoSession string
  | NoManageEntityReadable string
  | NoMessagesToPreview
  | Preview pystr

type_synonym validation_result = "action_message \<times> message_type"

text \<open>The environment of an action: the validated auth block and the row's source, if it has one.\<close>

definition action_config :: "auth_configuration \<Rightarrow> source_config \<Rightarrow> configuration" where
  "action_config a src =
     \<lparr>auth_type = auth_type a, connection_string = connection_string a, tenant_id = tenant_id a, client_id = client_id a,
      client_secret = client_secret a, fully_qualified_namespace = fully_qualified_namespace a,
      row_connection_string = row_connection_string a, source = src,
      limits = \<lparr>max_messages = 0, stop_at_job_start = True\<rparr>, body = \<lparr>body_format = TEXT, unreadable_body = POLICY_FAIL\<rparr>,
      destination = \<lparr>table_name = [], load_type = INCREMENTAL_LOAD, primary_key = SOURCE_ENTITY_SEQUENCE_NUMBER\<rparr>,
      advanced = default_advanced, advanced_options = False\<rparr>"

definition no_source :: source_config where
  "no_source = \<lparr>entity_type = QUEUE, queue_name = None, topic_name = None, subscription_name = None, sub_queue = SQ_NONE,
     session_enabled = False, settlement_mode = PEEK, fetch_mode = INCREMENTAL_FETCH, idle_timeout_seconds = 10\<rparr>"

definition action_env :: "'w component \<Rightarrow> auth_configuration \<Rightarrow> source_config \<Rightarrow> 'w env" where
  "action_env cp a src = component_env cp (action_config a src)"

definition entity_parameters :: "'w component \<Rightarrow> ('w, entity_configuration) run" where
  "entity_parameters cp =
     (case cp_row cp of
        None \<Rightarrow> rejected ''source''
      | Some c \<Rightarrow> (case validate_entity_configuration c of Inl err \<Rightarrow> rejected ''source'' | Inr c' \<Rightarrow> ret c'))"

definition entity_parameters_or_none :: "'w component \<Rightarrow> ('w, entity_configuration option) run" where
  "entity_parameters_or_none cp =
     try_py (bnd (entity_parameters cp) (\<lambda>c. ret (Some c))) (\<lambda>e. if is_user_exception e then ret None else raise e)"

definition peek_request :: "'w env \<Rightarrow> handle \<Rightarrow> receiver_request" where
  "peek_request env client =
     receiver_profile env client PEEK_LOCK 1
       (if session_enabled (source (env_config env)) then Some (seconds SESSION_ACCEPT_WAIT_SECONDS) else None)"

text \<open>\<^verbatim>\<open>session_probe_client\<close> and \<^verbatim>\<open>commit_client\<close> pass the same arguments.\<close>

definition peek_row_entity :: "'w env \<Rightarrow> int \<Rightarrow> ('w, message list option) run" where
  "peek_row_entity env n =
     (let sessions = session_enabled (source (env_config env)) in
      try_py
        (run_vars ()
          (bnd (in_run (data_client env (if sessions then CommitClient else ReceiveClient))) (\<lambda>client.
             with_handle env client
               (bnd (in_run (open_receiver env (peek_request env client))) (\<lambda>h.
                bnd (in_run (on_world (sdk_enter (env_sdk env) h))) (\<lambda>_.
                  with_handle env h
                    (bnd (in_run (on_world (sdk_peek (env_sdk env) h n 0))) (\<lambda>ms. ret (Some ms)))))))))
        (\<lambda>e. if has_sb_class [OperationTimeoutError] e \<and> sessions then ret None
             else if is_servicebus_error e
             then raise (mapped_from (env_text env) e (entity_path (env_entity env)) (env_secrets env))
             else raise e))"

text \<open>\<^verbatim>\<open>_within_deadline\<close>: \<open>in_time\<close> says whether the worker thread has finished after the deadline.\<close>

definition within_deadline :: "bool \<Rightarrow> ('w, 'a) run \<Rightarrow> ('w, 'a) run" where
  "within_deadline in_time action s =
     (case action s of
        (r, s') \<Rightarrow> (if in_time then r else Inl (user_exception SyncActionTimeout None), s'))"

definition is_management_denial :: "exn \<Rightarrow> bool" where
  "is_management_denial e = (case exn_class e of UserException (ManagementProbeDenied a d) \<Rightarrow> True | _ \<Rightarrow> False)"

definition probe_entity_instead :: "'w component \<Rightarrow> auth_configuration \<Rightarrow> exn \<Rightarrow> ('w, validation_result) run" where
  "probe_entity_instead cp a denied =
     bnd (entity_parameters_or_none cp) (\<lambda>c. case c of
       None \<Rightarrow>
         (if effective_auth_type a = CONNECTION_STRING then ret (NoManageUnknownEntity, WARNING) else raise denied)
     | Some c \<Rightarrow>
         (let env = action_env cp a (source c); path = entity_path (from_source (source c)) in
          bnd (peek_row_entity env 1) (\<lambda>ms.
            ret (case ms of None \<Rightarrow> (NoManageNoSession path, WARNING) | Some _ \<Rightarrow> (NoManageEntityReadable path, SUCCESS)))))"

definition test_connection :: "'w component \<Rightarrow> ('w, validation_result) run" where
  "test_connection cp =
     (if has_no_credentials (cp_raw cp) then raise (user_exception NoCredentialsSet None)
      else bnd (checked_auth cp) (\<lambda>a.
           try_py (bnd (probe_management (action_env cp a no_source) (cp_admin cp)) (\<lambda>_. ret (ConnectedToNamespace, SUCCESS)))
             (\<lambda>e. if is_management_denial e then probe_entity_instead cp a e else raise e)))"

definition select_elements :: "'w component \<Rightarrow> list_kind \<Rightarrow> string option \<Rightarrow> ('w, string list) run" where
  "select_elements cp kind topic =
     bnd (checked_auth cp) (\<lambda>a. list_entity_names (action_env cp a no_source) (cp_admin cp) kind topic)"

text \<open>The model of \<^verbatim>\<open>listSubscriptions\<close> has the authentication block and the selected topic.\<close>

definition sync_topic :: "'w component \<Rightarrow> ('w, string option) run" where
  "sync_topic cp = bnd (checked_auth cp) (\<lambda>_. ret (cp_selected_topic cp))"

definition list_queues :: "'w component \<Rightarrow> ('w, string list) run" where
  "list_queues cp = select_elements cp Queues None"

definition list_topics :: "'w component \<Rightarrow> ('w, string list) run" where
  "list_topics cp = select_elements cp Topics None"

definition list_subscriptions :: "'w component \<Rightarrow> ('w, string list) run" where
  "list_subscriptions cp = bnd (sync_topic cp) (select_elements cp Subscriptions)"

definition list_action :: "'w component \<Rightarrow> list_kind \<Rightarrow> ('w, string list) run" where
  "list_action cp kind =
     (case kind of Queues \<Rightarrow> list_queues cp | Topics \<Rightarrow> list_topics cp | Subscriptions \<Rightarrow> list_subscriptions cp)"

definition PREVIEW_MESSAGE_COUNT :: int where "PREVIEW_MESSAGE_COUNT = 10"

definition preview_messages :: "'w component \<Rightarrow> ('w, validation_result) run" where
  "preview_messages cp =
     bnd (entity_parameters cp) (\<lambda>c.
     bnd (checked_auth cp) (\<lambda>a.
     bnd (peek_row_entity (action_env cp a (source c)) PREVIEW_MESSAGE_COUNT) (\<lambda>ms.
       ret (case ms of
          None \<Rightarrow> (NoMessagesToPreview, INFO)
        | Some ms \<Rightarrow> if ms = [] then (NoMessagesToPreview, INFO)
                     else (Preview (render_preview (cp_lib cp) (cp_preview_chars cp) ms), TABLE)))))"

end
