(* ===== verification/Component_Facts.thy ===== *)
theory Component_Facts
  imports Component Peek_Facts
begin

text \<open>
  What a whole run guarantees. A guarantee of the parts of a run, batches included, is lifted through the commit, the
  orphan scan, the receive loop and the pager. Two are: the order of writing and settling, and what becomes of the
  sections of the state.
\<close>

subsection \<open>Guarantees of the loop and the scan\<close>

sublocale world_frame \<subseteq> steps: batch_frame J W env
proof unfold_locales
  show "keeps J (process_batch env h ms g)" for h ms g by (rule keeps_process)
  show "keeps J (set_retries b)" for b unfolding set_retries_def by (rule keeps_on_handler)
qed

context world_frame begin

lemma keeps_receive: "lp_env lp = env \<Longrightarrow> keeps (pair_frame J) (receive_batch lp h n wait)"
  unfolding receive_batch_def note_all_def arm_output_def by (simp only:) (intro keeps_vars keeps_parts)

lemma keeps_drain: "lp_env lp = env \<Longrightarrow> keeps (pair_frame J) (stop_drain lp h failing)"
  unfolding stop_drain_def renew_loop_session_def abandon_drained_def
  by (simp only:) (intro keeps_vars keeps_parts keeps_links keeps_safe keeps_process keeps_receive, assumption)

lemma keeps_received: "lp_env lp = env \<Longrightarrow> keeps (pair_frame J) (process_received lp h ms)"
  unfolding process_received_def tracker_progress_def
  by (simp only:) (intro keeps_vars keeps_parts keeps_process keeps_drain, assumption)

lemma keeps_loop:
  assumes "lp_env lp = env" and "\<And>s. W (rs_world s) (snd (lp_state_size lp s))" and "keeps J (load_entity_info env (lp_admin lp))"
  shows "keeps J (receive_loop lp fuel)"
proof -
  have "loop_frame J W lp (pair_frame J) (\<lambda>_. ()) (\<lambda>_ _. True)"
  proof (intro loop_frame.intro loop_frame_axioms.intro)
    show "run_frame J W (lp_env lp)" unfolding assms(1) by unfold_locales
    show "frame (pair_frame J)" by unfold_locales
    show "wp (receive_batch lp h (batch_count lp (lv_taken (snd sx))) wait) (\<lambda>ms t. pair_frame J sx t \<and> (ms \<noteq> [] \<longrightarrow> True))
        (\<lambda>_. pair_frame J sx) sx" for h wait sx
      using keepsD [OF keeps_receive [OF assms(1)]] by simp
  qed (use assms(2) keepsD [OF keeps_receive [OF assms(1)]] keepsD [OF keeps_received [OF assms(1)]] keeps_drain [OF assms(1)]
    in \<open>auto simp: pair_frame_def frame_refl keeps_set_var\<close>)
  then have "keeps (pair_frame J) (run_loop lp fuel)"
    by (rule loop_frame.keeps_run_loop) (use assms(1,3) in auto)
  then show ?thesis unfolding receive_loop_def by (intro keeps_basic keeps_run_vars)
qed

end

subsection \<open>Guarantees of the commit\<close>

context run_frame begin

lemma keeps_each_chunk: "(\<And>qs. keeps J (trace (EvDeleted qs))) \<Longrightarrow> keeps (pair_frame J) (delete_chunks env h extra cs)"
proof (induction cs arbitrary: extra)
  case Nil
  then show ?case by (simp add: vars.keeps_ret)
next
  case (Cons c cs)
  show ?case
    unfolding delete_chunks.simps by (intro keeps_vars keeps_bisect keeps_basic Cons.prems Cons.IH)
qed

lemma keeps_attempt:
  assumes "\<And>qs. keeps J (trace (EvDeleted qs))"
  shows "keeps J (attempt_group env client ref g)"
proof (rule keepsI)
  fix s
  have "keeps (pair_frame J) (delete_group env client ref g)"
    unfolding delete_group_def open_group_receiver_def
    by (intro keeps_vars keeps_retry keeps_basic keeps_links keeps_each_chunk assms)
  from keeps_run [OF this, of "(s, 0)"] show "wp (attempt_group env client ref g) (\<lambda>_. J s) (\<lambda>_. J s) s"
    by (cases "delete_group env client ref g (s, 0)") (auto simp: wp_outcome attempt_group_def pair_frame_def split: prod.split sum.split)
qed

lemma keeps_groups:
  assumes "\<And>qs. keeps J (trace (EvDeleted qs))"
  shows "keeps J (commit_groups env client ref acc gs)"
proof (induction gs arbitrary: acc)
  case Nil
  then show ?case by (simp add: keeps_ret)
next
  case (Cons g gs)
  show ?case
    unfolding commit_groups.simps Let_def drop_stale_def
    by (intro keeps_basic keeps_attempt assms Cons.IH)
qed

lemma keeps_commit:
  assumes "\<And>qs. keeps J (trace (EvDeleted qs))"
  shows "keeps J (commit env ps)"
proof -
  have entity: "keeps J (commit_entity env client pe)" for client pe
    unfolding commit_entity_def by (cases "pe_entity_ref pe") (auto intro!: keeps_basic keeps_groups assms)
  have "keeps J (commit_entities env client pes)" for client pes
    by (induction pes) (auto intro!: keeps_basic entity)
  then show ?thesis unfolding commit_def Let_def by (intro keeps_basic keeps_links)
qed

end

subsection \<open>The steps of a run\<close>

context run_frame begin

text \<open>A guarantee of the deletions, the scan, the loop, the pager and the run's own changes is one of the whole row.\<close>

lemma keeps_run_steps:
  assumes deletes: "\<And>qs. is_destructive (mode_of env) \<Longrightarrow> keeps J (trace (EvDeleted qs))" and built: "keeps J build_processor"
    and carried: "\<And>b. keeps J (modify (\<lambda>s. s\<lparr>rs_pending := b\<rparr>) :: (exn, _, unit) py)"
    and scan: "mode_of env = DEFER_COMMIT \<Longrightarrow> keeps J (orphan_scan env)"
    and loop: "\<And>lp. is_destructive (mode_of env) \<Longrightarrow> lp_env lp = env \<Longrightarrow> keeps J (receive_loop lp fuel)"
    and peek: "\<And>pg. \<not> is_destructive (mode_of env) \<Longrightarrow> pg_env pg = env \<Longrightarrow> keeps J (peek_run pg fuel)"
  shows "keeps J (run_steps cp env rc fuel)"
proof -
  have "keeps J (case builder_carry kept b of Inl err \<Rightarrow> raise (builtin (dict_error_name err)) | Inr b' \<Rightarrow> modify (\<lambda>s. s\<lparr>rs_pending := b'\<rparr>))"
    for kept b by (simp add: keeps_raise carried split: sum.split)
  then have "keeps J (commit_pending env rc)" if "is_destructive (mode_of env)"
    unfolding commit_pending_def by (intro keeps_basic keeps_commit deletes that)
  moreover have "keeps J (consume_entity cp env rc fuel)" if "is_destructive (mode_of env)"
    unfolding consume_entity_def component_loop_def using that by (intro keeps_basic loop) simp_all
  moreover have "keeps J (peek_entity env rc fuel)" if "\<not> is_destructive (mode_of env)"
    unfolding peek_entity_def using that by (intro keeps_basic peek) simp_all
  ultimately show ?thesis
    unfolding run_steps_def require_registry_def reconcile_deferrals_def by (intro keeps_basic built scan keeps_probe)
qed

lemma keeps_run_row:
  assumes "\<And>qs. is_destructive (mode_of env) \<Longrightarrow> keeps J (trace (EvDeleted qs))" and "keeps J build_processor"
    and "\<And>b. keeps J (modify (\<lambda>s. s\<lparr>rs_pending := b\<rparr>) :: (exn, _, unit) py)"
    and "mode_of env = DEFER_COMMIT \<Longrightarrow> keeps J (orphan_scan env)"
    and "\<And>lp. is_destructive (mode_of env) \<Longrightarrow> lp_env lp = env \<Longrightarrow> keeps J (receive_loop lp fuel)"
    and "\<And>pg. \<not> is_destructive (mode_of env) \<Longrightarrow> pg_env pg = env \<Longrightarrow> keeps J (peek_run pg fuel)"
    and started: "keeps J (start_run cp env)"
    and table: "\<And>t. keeps J (modify (\<lambda>s. s\<lparr>rs_output := t\<rparr>) :: (exn, _, unit) py)"
  shows "keeps J (run_row cp env fuel)"
proof -
  have on_output: "keeps J (on_output m)" for m :: "(exn, output_table, 'c) py"
  proof (rule keepsI)
    fix s
    have "J s (s\<lparr>rs_output := t\<rparr>)" for t using keepsD [OF table [of t]] by (simp add: wp_simps)
    then show "wp (on_output m) (\<lambda>_. J s) (\<lambda>_. J s) s" unfolding wp_on_output by (intro wp_anything) auto
  qed
  have stats: "keeps J (modify (\<lambda>s. s\<lparr>rs_stats := f s\<rparr>))" for f by (rule keeps_modify) (rule frame_stats)
  show ?thesis
    unfolding run_row_def open_output_def finish_run_def projected_state_def
    by (intro keeps_basic started table on_output stats keeps_run_steps assms)
qed

lemma keeps_start:
  assumes "keeps J (load_entity_info env (cp_admin cp))"
    and "\<And>r b. keeps J (modify (\<lambda>s. s\<lparr>rs_registry := r, rs_pending := b\<rparr>) :: (exn, _, unit) py)"
  shows "keeps J (start_run cp env)"
proof -
  have stats: "keeps J (modify (\<lambda>s. s\<lparr>rs_stats := f s\<rparr>))" for f by (rule keeps_modify) (rule frame_stats)
  have "keeps J (check_sessions (env_config env) (env_entity env) info)" for info
    unfolding check_sessions_def by (intro keeps_basic)
  then show ?thesis
    unfolding start_run_def rejected_def
    by (cases "cp_loaded cp") (auto intro!: keeps_basic stats assms)
qed

end

subsection \<open>The trace of a run\<close>

lemma traced_row: "keeps batch_trace (run_row cp env fuel)"
proof (rule traced.keeps_run_row)
  show "keeps batch_trace (start_run cp env)"
    by (rule traced.keeps_start) (auto simp: keeps_def wp_simps batch_trace_def intro!: keepsD [OF keeps_entity_info, unfolded batch_trace_def])
  show "keeps batch_trace (peek_run pg fuel)" if "pg_env pg = env" for pg
    by (rule traced.keeps_pager [OF refl traced_process]) (auto simp: still_def same_trace_def batch_trace_def intro: traced_event)
qed (auto simp: keeps_def wp_simps batch_trace_def build_processor_def
  intro!: traced_receive_loop [unfolded keeps_def, rule_format] traced_scans.keeps_scan [unfolded keeps_def, rule_format])

text \<open>What the mode of the row adds.\<close>

definition by_mode :: "settlement_mode \<Rightarrow> event list \<Rightarrow> bool" where
  "by_mode mode new \<longleftrightarrow> (mode = RECEIVE_AND_DELETE \<longrightarrow> writes_armed False new) \<and> (mode = PEEK \<longrightarrow> list_all peek_event new)"

definition mode_frame :: "'w env \<Rightarrow> 'w run_state \<Rightarrow> 'w run_state \<Rightarrow> bool" where
  "mode_frame env s s' \<longleftrightarrow> (\<exists>new. rs_trace s' = rs_trace s @ new \<and> by_mode (mode_of env) new)"

lemma by_mode_append: "by_mode mode xs \<Longrightarrow> by_mode mode ys \<Longrightarrow> by_mode mode (xs @ ys)"
  by (cases "EvArm \<in> set xs") (auto simp: by_mode_def writes_armed_append)

lemma by_mode_Nil [simp]: "by_mode mode []"
  by (simp add: by_mode_def)

lemma mode_frame_same: "rs_trace s' = rs_trace s \<Longrightarrow> mode_frame env s s'"
  unfolding mode_frame_def by (intro exI [where x = "[]"]) simp

interpretation moded: run_frame "mode_frame env" "\<lambda>_ _. True" env for env :: "'w env"
proof unfold_locales
  show "mode_frame env s v" if "mode_frame env s t" "mode_frame env t v" for s t v :: "'w run_state"
  proof -
    from that obtain xs ys where "rs_trace v = rs_trace s @ xs @ ys" "by_mode (mode_of env) xs" "by_mode (mode_of env) ys"
      by (auto simp: mode_frame_def)
    then show ?thesis unfolding mode_frame_def using by_mode_append by blast
  qed
qed (simp_all add: mode_frame_same)

lemma moded_row: "keeps (mode_frame env) (run_row cp env fuel)"
proof (rule moded.keeps_run_row)
  show "keeps (mode_frame env) (start_run cp env)"
    by (rule moded.keeps_start) (auto intro!: keeps_entity_info moded.keeps_modify mode_frame_same)
  show "keeps (mode_frame env) (trace (EvDeleted qs))" if "is_destructive (mode_of env)" for qs
    using that by (auto simp: keeps_def wp_simps mode_frame_def by_mode_def is_destructive_def)
  show "keeps (mode_frame env) (orphan_scan env)" if "mode_of env = DEFER_COMMIT"
    by (rule keepsI, rule wp_imp [OF keepsD [OF traced_scans.keeps_scan]])
      (use that in \<open>auto simp: mode_frame_def by_mode_def batch_trace_def\<close>)
  show "keeps (mode_frame env) (receive_loop lp fuel)" if "is_destructive (mode_of env)" "lp_env lp = env" for lp :: "'a loop"
  proof (rule keepsI)
    fix s
    have "mode_frame env s (snd (receive_loop lp fuel s))"
    proof (cases "mode_of env = RECEIVE_AND_DELETE")
      case True
      then show ?thesis using receive_loop_armed [of lp fuel s] that(2) by (auto simp: mode_frame_def by_mode_def lp_mode_def)
    next
      case False
      then show ?thesis using keeps_run [OF traced_receive_loop, of s lp fuel] that(1)
        by (auto simp: mode_frame_def by_mode_def batch_trace_def is_destructive_def)
    qed
    then show "wp (receive_loop lp fuel) (\<lambda>_. mode_frame env s) (\<lambda>_. mode_frame env s) s" by (simp add: wp_outcome)
  qed
  show "keeps (mode_frame env) (peek_run pg fuel)" if "\<not> is_destructive (mode_of env)" "pg_env pg = env" for pg :: "'a pager"
  proof -
    have "mode_of env = PEEK" using that(1) by (cases "mode_of env") (simp_all add: is_destructive_def)
    then show ?thesis
      by (intro keepsI, intro wp_imp [OF keepsD [OF peeks_run]])
        (use that(2) in \<open>auto simp: mode_frame_def by_mode_def peeks_def extends_trace_def list_all_iff\<close>)
  qed
qed (auto simp: build_processor_def intro!: moded.keeps_modify mode_frame_same)

text \<open>C1: One run of a row, from its start to its end, whatever its configuration and stored state, whatever the SDK, the
  management plane and the platform do, and however it ends: every message it completes or defers has its row written before;
  in complete mode nothing is completed before \<^verbatim>\<open>write_always\<close> is armed; in receive-and-delete mode no row is
  written before it is armed; in peek mode nothing is settled, deleted, abandoned or dead-lettered at all.\<close>
theorem run_is_safe:
  "settles_after_write {} (rs_trace (snd (run_row cp env fuel (blank_run w)))) \<and>
   arms_first False (rs_trace (snd (run_row cp env fuel (blank_run w)))) \<and>
   by_mode (mode_of env) (rs_trace (snd (run_row cp env fuel (blank_run w))))"
  using keeps_run [OF traced_row, of "blank_run w" cp env fuel] keeps_run [OF moded_row, of env "blank_run w" cp fuel]
  by (auto simp: batch_trace_def mode_frame_def blank_run_def)

subsection \<open>The sections of the state\<close>

text \<open>The flatten section exists throughout a run or not at all, and the pending set only grows.\<close>

definition same_format :: "'w run_state \<Rightarrow> 'w run_state \<Rightarrow> bool" where
  "same_format s s' \<longleftrightarrow> (rs_registry s' = None \<longleftrightarrow> rs_registry s = None)"

definition sections :: "'w run_state \<Rightarrow> 'w run_state \<Rightarrow> bool" where
  "sections s s' \<longleftrightarrow> same_format s s' \<and>
     (builder_ok (rs_pending s) \<longrightarrow> builder_ok (rs_pending s') \<and> (\<forall>key. pending_of (rs_pending s) key \<subseteq> pending_of (rs_pending s') key))"

interpretation sections: world_frame "sections :: 'w run_state \<Rightarrow> 'w run_state \<Rightarrow> bool" "\<lambda>_ _. True" env for env :: "'w env"
proof unfold_locales
  show "sections s v" if "sections s t" "sections t v" for s t v :: "'w run_state"
    using that unfolding sections_def same_format_def by (meson order_trans)
qed (auto simp: sections_def same_format_def untouched_def builder_ok_add pending_of_add)

lemma sections_loop: "keeps sections (receive_loop lp fuel)"
  by (rule sections.keeps_loop [OF refl _ keeps_entity_info]) (simp_all add: sections_def same_format_def)

lemma sections_peek: "keeps sections (peek_run pg fuel)"
  by (rule sections.keeps_pager [OF refl sections.keeps_process _ sections.keeps_trace]) (simp add: still_def sections_def same_format_def)

interpretation format: run_frame "same_format :: 'w run_state \<Rightarrow> 'w run_state \<Rightarrow> bool" "\<lambda>_ _. True" env for env :: "'w env"
  by unfold_locales (auto simp: same_format_def)

lemma format_sections: "keeps sections m \<Longrightarrow> keeps same_format m"
  by (rule keepsI, rule wp_imp [OF keepsD]) (auto simp: sections_def)

lemma format_steps: "keeps same_format (run_steps cp env rc fuel)"
proof (rule format.keeps_run_steps)
  show "keeps same_format build_processor" "keeps same_format (modify (\<lambda>s. s\<lparr>rs_pending := b\<rparr>))" for b
    unfolding build_processor_def by (rule format.keeps_modify; simp add: same_format_def)+
qed (intro format_sections sections_loop sections_peek sections.steps.keeps_scan sections.keeps_trace)+

definition flattens :: "'w env \<Rightarrow> bool" where
  "flattens env \<longleftrightarrow> body_format (body (env_config env)) = JSON_FLATTEN"

lemma wp_start_run:
  "wp (start_run cp env) (\<lambda>rc s'. cp_loaded cp = Inr (rc_state rc) \<and> (rs_registry s' = None \<longleftrightarrow> \<not> flattens env) \<and>
    builder_ok (rs_pending s')) (\<lambda>_ _. True) s"
proof (cases "cp_loaded cp")
  case (Inr st)
  then show ?thesis
    unfolding start_run_def wp_bnd wp_clock Inr sum.case
    by (auto simp: wp_simps flattens_def check_sessions_def split: prod.split option.split intro!: wp_imp [OF wp_entity_info])
qed (auto simp: start_run_def wp_bnd rejected_def wp_simps split: prod.split)

lemma wp_any_output:
  "(\<And>x t. Q x (s\<lparr>rs_output := t\<rparr>)) \<Longrightarrow> (\<And>e t. E e (s\<lparr>rs_output := t\<rparr>)) \<Longrightarrow> wp (on_output m) Q E s"
  unfolding wp_on_output by (rule wp_anything)

text \<open>C4: The merge rule. The state a run writes differs from the one it loaded in the section of its mode only: a
  peek run leaves the pending set of earlier defer-commit runs, a run that is not an incremental peek leaves the peek cursor,
  and a run that does not flatten leaves the flatten columns.\<close>
theorem run_merges_state:
  assumes "fst (run_row cp env fuel s) = Inr (Some st')"
  shows "\<exists>st. cp_loaded cp = Inr st \<and>
    (mode_of env = PEEK \<longrightarrow> pending_commit st' = pending_commit st) \<and>
    (mode_of env \<noteq> PEEK \<or> fetch_mode (source (env_config env)) = FULL_FETCH \<longrightarrow> state_peek_cursor st' = state_peek_cursor st) \<and>
    (\<not> flattens env \<longrightarrow> flatten_columns st' = flatten_columns st)"
proof -
  define Q where "Q st' \<longleftrightarrow> (\<exists>st. cp_loaded cp = Inr st \<and> (mode_of env = PEEK \<longrightarrow> pending_commit st' = pending_commit st) \<and>
    (mode_of env \<noteq> PEEK \<or> fetch_mode (source (env_config env)) = FULL_FETCH \<longrightarrow> state_peek_cursor st' = state_peek_cursor st) \<and>
    (\<not> flattens env \<longrightarrow> flatten_columns st' = flatten_columns st))" for st' :: extractor_state
  have finish: "wp (finish_run cp env rc cursor) (\<lambda>st' _. Q st') (\<lambda>_ _. True) t"
    if "cp_loaded cp = Inr (rc_state rc)" "rs_registry t = None \<longleftrightarrow> \<not> flattens env" for rc cursor t
    using that unfolding Q_def finish_run_def projected_state_def is_destructive_def
    by (cases "mode_of env"; cases "rs_registry t") (auto simp: wp_simps wp_bnd split: prod.split)
  have ended: "wp (case r of None \<Rightarrow> ret None | Some cursor \<Rightarrow> bnd (finish_run cp env rc cursor) (\<lambda>st. ret (Some st)))
      (\<lambda>r _. \<forall>st'. r = Some st' \<longrightarrow> Q st') (\<lambda>_ _. True) t"
    if "cp_loaded cp = Inr (rc_state rc)" "rs_registry t = None \<longleftrightarrow> \<not> flattens env" for rc t r
    by (cases r) (simp_all add: wp_ret wp_bnd, rule wp_imp [OF finish [OF that]], auto simp only: wp_ret option.inject)
  have rest: "wp (bnd (finally_py (run_steps cp env rc fuel) (on_output close_table)) (\<lambda>r.
      case r of None \<Rightarrow> ret None | Some cursor \<Rightarrow> bnd (finish_run cp env rc cursor) (\<lambda>st. ret (Some st))))
      (\<lambda>r _. \<forall>st'. r = Some st' \<longrightarrow> Q st') (\<lambda>_ _. True) t"
    if "cp_loaded cp = Inr (rc_state rc)" "rs_registry t = None \<longleftrightarrow> \<not> flattens env" for rc t
    unfolding wp_bnd [of "finally_py m n" for m n] wp_finally
    by (rule wp_imp [OF keepsD [OF format_steps]]; intro conjI allI impI; rule wp_any_output)
      (use that in \<open>auto simp: same_format_def intro!: ended\<close>)
  have opened: "wp (open_output env) (\<lambda>_ t'. rs_registry t' = rs_registry t) (\<lambda>_ _. True) t" for t
    unfolding open_output_def wp_bnd wp_modify wp_gets by (rule wp_any_output) simp_all
  have "wp (run_row cp env fuel) (\<lambda>r _. \<forall>st'. r = Some st' \<longrightarrow> Q st') (\<lambda>_ _. True) s"
    unfolding run_row_def wp_bnd [of "start_run cp env"] wp_bnd [of "open_output env"]
    by (rule wp_imp [OF wp_start_run]; intro conjI allI impI; (rule wp_imp [OF opened])?) (auto intro!: rest)
  then show ?thesis using assms by (auto simp: wp_def Q_def split: prod.splits sum.splits)
qed

text \<open>What is left of the pending set goes into the state.\<close>

lemma commit_kept: "wp (commit env ps) (\<lambda>kept _. pe_entity ` set kept \<subseteq> pe_entity ` set ps) (\<lambda>_ _. True) s"
proof -
  have entities: "wp (commit_entities env client pes) (\<lambda>kept _. pe_entity ` set kept \<subseteq> pe_entity ` set pes) (\<lambda>_ _. True) t" for client pes t
  proof (induction pes arbitrary: t)
    case (Cons pe pes)
    have rest: "wp (bnd (commit_entities env client pes) (\<lambda>rest. ret ((if groups \<noteq> [] then [pe\<lparr>pe_groups := groups\<rparr>] else []) @ rest)))
        (\<lambda>kept _. pe_entity ` set kept \<subseteq> pe_entity ` set (pe # pes)) (\<lambda>_ _. True) v" for groups v
      unfolding wp_bnd by (rule wp_imp [OF Cons.IH]) (auto simp: wp_ret)
    show ?case unfolding commit_entities.simps wp_bnd [of "commit_entity env client pe"] by (rule wp_anything) (use rest in auto)
  qed (simp add: wp_ret)
  have closed: "wp (commit_entities env client (filter has_work ps)) (\<lambda>kept t. wp (close_handle env client)
      (\<lambda>_ _. pe_entity ` set kept \<subseteq> pe_entity ` set ps) (\<lambda>_ _. True) t)
      (\<lambda>e t. wp (close_handle env client) (\<lambda>_ _. True) (\<lambda>_ _. True) t) v" for client v
    by (rule wp_imp [OF entities]) (auto intro!: wp_anything)
  show ?thesis
    unfolding commit_def Let_def wp_if wp_ret wp_bnd [of "data_client env k" for k] wp_finally
    by (auto intro!: wp_anything [of _ _ "data_client env CommitClient"] closed)
qed

lemma wp_itself: "wp m (\<lambda>x t. m s = (Inr x, t)) (\<lambda>_ _. True) s"
  by (simp add: wp_def split: prod.split sum.split)

lemma wp_commit_pending:
  assumes "builder_ok (rs_pending s)" and "list_all well_stored (pending_commit (rc_state rc))"
  shows "wp (commit_pending env rc) (\<lambda>_ t. builder_ok (rs_pending t) \<and>
      (\<exists>kept v v'. commit env (pending_commit (rc_state rc)) v = (Inr kept, v') \<and>
        (\<forall>key. stored_pending kept key \<subseteq> pending_of (rs_pending t) key))) (\<lambda>_ _. True) s"
proof -
  let ?ps = "pending_commit (rc_state rc)"
  have carried: "wp (bnd (gets rs_pending) (\<lambda>b. case builder_carry kept b of Inl err \<Rightarrow> raise (builtin (dict_error_name err))
        | Inr b' \<Rightarrow> modify (\<lambda>s. s\<lparr>rs_pending := b'\<rparr>)))
      (\<lambda>_ t. builder_ok (rs_pending t) \<and> (\<exists>kept v v'. commit env ?ps v = (Inr kept, v') \<and>
        (\<forall>key. stored_pending kept key \<subseteq> pending_of (rs_pending t) key))) (\<lambda>_ _. True) t"
    if kept: "commit env ?ps s = (Inr kept, t)" "pe_entity ` set kept \<subseteq> pe_entity ` set ?ps" and t: "builder_ok (rs_pending t)" for kept t
  proof -
    have "well_stored pe" if "pe \<in> set kept" for pe
    proof -
      from that kept(2) obtain pe' where "pe' \<in> set ?ps" "pe_entity pe = pe_entity pe'" by blast
      with assms(2) show ?thesis by (auto simp: list_all_iff well_stored_def)
    qed
    then have "list_all well_stored kept" by (simp add: list_all_iff)
    from builder_carry_correct [OF t this] obtain b' where "builder_carry kept (rs_pending t) = Inr b'" "builder_ok b'"
      "\<And>key. pending_of b' key = pending_of (rs_pending t) key \<union> stored_pending kept key" by blast
    then show ?thesis using kept(1) by (auto simp: wp_simps)
  qed
  have "keeps sections (commit env ?ps)" by (intro sections.keeps_commit sections.keeps_trace)
  then show ?thesis
    unfolding commit_pending_def wp_bnd [of "commit env ps" for ps]
    by (intro wp_imp [OF wp_conj [OF wp_itself wp_conj [OF commit_kept keepsD]]]) (use carried assms(1) in \<open>auto simp: sections_def\<close>)
qed

lemma projected_pending:
  assumes "is_destructive (mode_of env)" and "builder_ok (rs_pending s)"
  shows "wp (finish_run cp env rc cursor) (\<lambda>st' _. list_all well_stored (pending_commit st') \<and>
    (\<forall>key. stored_pending (pending_commit st') key = pending_of (rs_pending s) key)) (\<lambda>_ _. True) s"
  using assms well_stored_build [OF assms(2)] stored_pending_build [OF assms(2)]
  unfolding finish_run_def projected_state_def
  by (auto simp: wp_simps wp_bnd split: prod.split option.split)

text \<open>What the commit of the stored set \<open>pes\<close> kept is in the builder, and is in the written state.\<close>

definition kept_in :: "'w env \<Rightarrow> pending_entity list \<Rightarrow> pending_builder \<Rightarrow> bool" where
  "kept_in env pes b \<longleftrightarrow> builder_ok b \<and> (\<exists>kept v v'. commit env pes v = (Inr kept, v') \<and>
     (\<forall>key. stored_pending kept key \<subseteq> pending_of b key))"

definition saved_in :: "'w env \<Rightarrow> pending_entity list \<Rightarrow> extractor_state \<Rightarrow> bool" where
  "saved_in env pes st' \<longleftrightarrow> list_all well_stored (pending_commit st') \<and>
     (\<exists>kept v v'. commit env pes v = (Inr kept, v') \<and>
        (\<forall>key. stored_pending kept key \<subseteq> stored_pending (pending_commit st') key))"

abbreviation saves :: "'w env \<Rightarrow> pending_entity list \<Rightarrow> extractor_state option \<Rightarrow> 's \<Rightarrow> bool" where
  "saves env pes r t \<equiv> \<forall>st'. r = Some st' \<longrightarrow> saved_in env pes st'"

lemma kept_in_grows: "kept_in env pes (rs_pending s) \<Longrightarrow> sections s t \<Longrightarrow> kept_in env pes (rs_pending t)"
  unfolding kept_in_def sections_def by (meson order_trans)

lemma consume_keeps_kept:
  assumes "kept_in env pes (rs_pending v)"
  shows "wp (bnd (reconcile_deferrals env) (\<lambda>_. bnd (consume_entity cp env rc fuel) (\<lambda>r.
      ret (case r of None \<Rightarrow> None | Some reason \<Rightarrow> Some (state_peek_cursor (rc_state rc))))))
      (\<lambda>_ t. kept_in env pes (rs_pending t)) (\<lambda>_ _. True) v"
proof -
  have "keeps sections (bnd (reconcile_deferrals env) (\<lambda>_. bnd (consume_entity cp env rc fuel) (\<lambda>r.
    ret (case r of None \<Rightarrow> None | Some reason \<Rightarrow> Some (state_peek_cursor (rc_state rc))))))"
    unfolding reconcile_deferrals_def consume_entity_def
    by (intro sections.keeps_basic sections.steps.keeps_scan sections.keeps_probe sections_loop)
  from keepsD [OF this] show ?thesis by (rule wp_imp) (auto intro: kept_in_grows assms)
qed

lemma run_steps_keep_kept:
  assumes "is_destructive (mode_of env)" "builder_ok (rs_pending v)" "list_all well_stored (pending_commit (rc_state rc))"
  shows "wp (run_steps cp env rc fuel) (\<lambda>_ t. kept_in env (pending_commit (rc_state rc)) (rs_pending t)) (\<lambda>_ _. True) v"
proof -
  have committed: "wp (commit_pending env rc) (\<lambda>_ t. kept_in env (pending_commit (rc_state rc)) (rs_pending t)) (\<lambda>_ _. True) t"
    if "builder_ok (rs_pending t)" for t
    by (rule wp_imp [OF wp_commit_pending [OF that]]) (use assms(3) in \<open>simp_all add: kept_in_def\<close>)
  show ?thesis
    unfolding run_steps_def if_P [OF assms(1)] build_processor_def require_registry_def wp_bnd [of "bnd m f" for m f]
      wp_bnd [of "gets f" for f] wp_bnd [of "modify f" for f] wp_gets wp_when wp_raise wp_modify wp_bnd [of "commit_pending env rc"]
    by (simp, intro impI, rule wp_imp [OF committed]) (auto intro: consume_keeps_kept assms(2))
qed

lemma finish_saves_kept:
  assumes "is_destructive (mode_of env)" "kept_in env pes (rs_pending t)"
  shows "wp (case r of None \<Rightarrow> ret None | Some cursor \<Rightarrow> bnd (finish_run cp env rc cursor) (\<lambda>st. ret (Some st)))
    (saves env pes) (\<lambda>_ _. True) t"
proof (cases r)
  case (Some cursor)
  from assms(2) obtain kept v v' where "builder_ok (rs_pending t)" "commit env pes v = (Inr kept, v')"
    "\<forall>key. stored_pending kept key \<subseteq> pending_of (rs_pending t) key" by (auto simp: kept_in_def)
  then show ?thesis
    unfolding Some option.case wp_bnd
    by (intro wp_imp [OF projected_pending [OF assms(1)]]) (auto simp: wp_ret saved_in_def)
qed (simp add: wp_ret)

lemma output_run_saves_kept:
  assumes "is_destructive (mode_of env)" "list_all well_stored (pending_commit (rc_state rc))" "builder_ok (rs_pending t)"
  shows "wp (bnd (open_output env) (\<lambda>_. bnd (finally_py (run_steps cp env rc fuel) (on_output close_table)) (\<lambda>r.
    case r of None \<Rightarrow> ret None | Some cursor \<Rightarrow> bnd (finish_run cp env rc cursor) (\<lambda>st. ret (Some st)))))
    (saves env (pending_commit (rc_state rc))) (\<lambda>_ _. True) t"
proof -
  let ?pes = "pending_commit (rc_state rc)"
  let ?finish = "\<lambda>r. case r of None \<Rightarrow> ret None | Some cursor \<Rightarrow> bnd (finish_run cp env rc cursor) (\<lambda>st. ret (Some st))"
  have closed: "wp (on_output close_table) (\<lambda>_. wp (?finish r) (saves env ?pes) (\<lambda>_ _. True)) (\<lambda>_ _. True) v"
    if "kept_in env ?pes (rs_pending v)" for r v
    by (rule wp_any_output) (use that assms(1) in \<open>auto intro: finish_saves_kept\<close>)
  have run: "wp (finally_py (run_steps cp env rc fuel) (on_output close_table))
      (\<lambda>r. wp (?finish r) (saves env ?pes) (\<lambda>_ _. True)) (\<lambda>_ _. True) v" if "builder_ok (rs_pending v)" for v
    unfolding wp_finally
    by (rule wp_imp [OF run_steps_keep_kept [OF assms(1) that assms(2)]]) (auto intro: closed wp_any_output)
  show ?thesis
    unfolding open_output_def wp_bnd [of "bnd m f" for m f] wp_bnd [of "modify f" for f] wp_bnd [of "gets f" for f] wp_modify wp_gets
      wp_bnd [of "finally_py m n" for m n]
    by (rule wp_any_output) (use assms(3) in \<open>auto intro: run\<close>)
qed


subsection \<open>Sync actions\<close>

text \<open>\<open>W\<close> relates the broker before and after; the operations an action may use respect it.\<close>

definition reading_keeps :: "('w \<Rightarrow> 'w \<Rightarrow> bool) \<Rightarrow> 'w sdk \<Rightarrow> 'w admin \<Rightarrow> bool" where
  "reading_keeps W sdk adm \<longleftrightarrow>
     (\<forall>w. W w w) \<and> (\<forall>u v w. W u v \<longrightarrow> W v w \<longrightarrow> W u w) \<and>
     keeps W (sdk_credential sdk) \<and> (\<forall>k. keeps W (sdk_client sdk k)) \<and> (\<forall>rq. keeps W (sdk_receiver sdk rq)) \<and>
     (\<forall>h. keeps W (sdk_enter sdk h)) \<and> (\<forall>h. keeps W (sdk_close sdk h)) \<and> (\<forall>h n q. keeps W (sdk_peek sdk h n q)) \<and>
     keeps W (adm_client adm) \<and> (\<forall>h. keeps W (adm_close adm h)) \<and> (\<forall>h. keeps W (adm_list_queues adm h)) \<and>
     (\<forall>h. keeps W (adm_list_topics adm h)) \<and> (\<forall>h t. keeps W (adm_list_subscriptions adm h t)) \<and>
     (\<forall>h. keeps W (adm_first_queue adm h))"

definition action_frame :: "('w \<Rightarrow> 'w \<Rightarrow> bool) \<Rightarrow> 'w component \<Rightarrow> 'w run_state \<Rightarrow> 'w run_state \<Rightarrow> bool" where
  "action_frame W cp s s' \<longleftrightarrow> (reading_keeps W (cp_sdk cp) (cp_admin cp) \<longrightarrow> (\<exists>w. s' = s\<lparr>rs_world := w\<rparr> \<and> W (rs_world s) w))"

interpretation action: frame "action_frame W cp" for W :: "'w \<Rightarrow> 'w \<Rightarrow> bool" and cp :: "'w component"
proof
  show "action_frame W cp s s" for s
    unfolding action_frame_def reading_keeps_def by (auto intro!: exI [where x = "rs_world s"])
  show "action_frame W cp s v" if st: "action_frame W cp s t" and tv: "action_frame W cp t v" for s t v
    unfolding action_frame_def
  proof
    assume reading: "reading_keeps W (cp_sdk cp) (cp_admin cp)"
    with st obtain w1 where w1: "t = s\<lparr>rs_world := w1\<rparr>" "W (rs_world s) w1" by (auto simp: action_frame_def)
    from reading tv obtain w2 where w2: "v = t\<lparr>rs_world := w2\<rparr>" "W (rs_world t) w2" by (auto simp: action_frame_def)
    from reading w1(2) w2(2) w1(1) have "W (rs_world s) w2" unfolding reading_keeps_def by (simp, blast?)
    with w1(1) w2(1) show "\<exists>w. v = s\<lparr>rs_world := w\<rparr> \<and> W (rs_world s) w" by auto
  qed
qed

lemma action_world:
  assumes "reading_keeps W (cp_sdk cp) (cp_admin cp) \<Longrightarrow> keeps W m"
  shows "keeps (action_frame W cp) (on_world m)"
proof (cases "reading_keeps W (cp_sdk cp) (cp_admin cp)")
  case True
  show ?thesis
    by (rule keepsI, unfold wp_on_world, rule wp_imp [OF keepsD [OF assms [OF True]]]) (auto simp: action_frame_def)
qed (auto simp: keeps_def action_frame_def intro: wp_anything)

lemma action_in_run: "keeps (action_frame W cp) m \<Longrightarrow> keeps (pair_frame (action_frame W cp)) (in_run m)"
  by (simp add: keeps_def pair_frame_def wp_simps)

lemma action_run_vars: "keeps (pair_frame (action_frame W cp)) n \<Longrightarrow> keeps (action_frame W cp) (run_vars x n)"
  by (rule keepsI, unfold wp_run_vars, rule wp_imp [OF keepsD]) (auto simp: pair_frame_def)

interpretation action_vars: frame "pair_frame (action_frame W cp)" for W :: "'w \<Rightarrow> 'w \<Rightarrow> bool" and cp :: "'w component"
  by unfold_locales (auto simp: pair_frame_def action.frame_refl intro: action.frame_trans)

lemma action_sdk [simp]: "env_sdk (action_env cp a src) = cp_sdk cp"
  by (simp add: action_env_def component_env_def)

lemma action_build: "keeps (action_frame W cp) (on_world c) \<Longrightarrow> keeps (action_frame W cp) (build_client (action_env cp a src) c)"
proof -
  have "keeps (action_frame W cp) (on_world (sdk_credential (cp_sdk cp)))" by (rule action_world) (simp add: reading_keeps_def)
  then show "keeps (action_frame W cp) (on_world c) \<Longrightarrow> ?thesis"
    unfolding build_client_def client_secret_credential_def action_sdk
    by (cases "effective_auth_type (env_config (action_env cp a src))") (simp_all, (intro action.keeps_rules; assumption)+)
qed

lemma action_admin:
  assumes "\<And>h. keeps (action_frame W cp) (f h)"
  shows "keeps (action_frame W cp) (with_admin (action_env cp a src) (cp_admin cp) f)"
  unfolding with_admin_def
  by (intro action.keeps_rules action_build action_world assms) (simp_all add: reading_keeps_def)

lemma action_peek: "keeps (action_frame W cp) (peek_row_entity (action_env cp a src) n)"
  unfolding peek_row_entity_def data_client_def open_receiver_def with_handle_def close_handle_def Let_def action_sdk
  by (intro action.keeps_rules action_vars.keeps_rules action_in_run action_run_vars action_build action_world) (simp_all add: reading_keeps_def)

lemma action_auth: "keeps (action_frame W cp) (checked_auth cp)"
  unfolding checked_auth_def rejected_def by (auto split: sum.split intro!: action.keeps_rules)

lemma action_entity: "keeps (action_frame W cp) (entity_parameters cp)"
  unfolding entity_parameters_def rejected_def by (auto split: sum.split option.split intro!: action.keeps_rules)

lemma action_probe: "keeps (action_frame W cp) (probe_management (action_env cp a src) (cp_admin cp))"
  unfolding probe_management_def
  by (intro action.keeps_rules action_admin action_world) (simp add: reading_keeps_def)

text \<open>C9: The sync actions only read: a connection test, a list of names and a preview, whether they succeed or fail, leave
  the state of a run alone, and they use of the SDK only credentials, connections, peeks and the management reads. So they
  preserve every relation between the broker before and after that those operations preserve: no message is
  received, locked, settled or deferred.\<close>
theorem actions_only_read:
  assumes "reading_keeps W (cp_sdk cp) (cp_admin cp)"
  shows "(\<exists>w. snd (test_connection cp s) = s\<lparr>rs_world := w\<rparr> \<and> W (rs_world s) w) \<and>
    (\<exists>w. snd (list_action cp kind s) = s\<lparr>rs_world := w\<rparr> \<and> W (rs_world s) w) \<and>
    (\<exists>w. snd (preview_messages cp s) = s\<lparr>rs_world := w\<rparr> \<and> W (rs_world s) w)"
proof -
  have "keeps (action_frame W cp) (list_names (cp_admin cp) kind topic h)" for topic h
    unfolding list_names_def
    by (cases kind) (simp_all, (rule action_world, simp add: reading_keeps_def)+)
  then have "keeps (action_frame W cp) (list_action cp kind)"
    unfolding list_action_def list_queues_def list_topics_def list_subscriptions_def select_elements_def sync_topic_def
      list_entity_names_def
    by (cases kind) (simp_all only: list_kind.case, (intro action.keeps_rules action_auth action_admin, assumption?)+)
  moreover have "keeps (action_frame W cp) (probe_entity_instead cp a e)" for a e
    unfolding probe_entity_instead_def entity_parameters_or_none_def Let_def
    by (intro action.keeps_rules action_entity action_peek)
  then have "keeps (action_frame W cp) (test_connection cp)"
    unfolding test_connection_def by (intro action.keeps_rules action_auth action_probe)
  moreover have "keeps (action_frame W cp) (preview_messages cp)"
    unfolding preview_messages_def by (intro action.keeps_rules action_auth action_entity action_peek)
  ultimately have "action_frame W cp s (snd (test_connection cp s))" "action_frame W cp s (snd (list_action cp kind s))"
    "action_frame W cp s (snd (preview_messages cp s))" by (auto intro: keeps_run)
  then show ?thesis using assms unfolding action_frame_def by blast
qed

subsection \<open>Witnesses\<close>

text \<open>A row that settles messages, stopped by its deadline at once, with a state of all three sections.\<close>

definition stored_state :: extractor_state where
  "stored_state = empty_state\<lparr>state_peek_cursor := Some \<lparr>cursor_entity_path = entity_path sample_ref, last_sequence_number = 41\<rparr>, pending_commit := sample_pending\<rparr>"

definition session_locked :: exn where
  "session_locked = Exn (SB SessionCannotBeLockedError) [] None None False"

definition locked_sdk :: "int sdk" where
  "locked_sdk = ticking_sdk\<lparr>sdk_enter := (\<lambda>h. raise session_locked)\<rparr>"

definition deadline_env :: "int env" where
  "deadline_env = \<lparr>env_sdk = locked_sdk, env_lib = sample_lib, env_config = sample_configuration
       \<lparr>source := (source sample_configuration)\<lparr>settlement_mode := COMPLETE, session_enabled := True\<rparr>,
        advanced := default_advanced\<lparr>max_duration_seconds := 0\<rparr>\<rparr>,
     env_entity = sample_ref, env_text = ascii_text, env_secrets = []\<rparr>"

definition no_admin :: "int admin" where
  "no_admin = \<lparr>adm_client = raise (builtin ''OSError''), adm_close = (\<lambda>h. ret ()), adm_queue = (\<lambda>h q. raise (builtin ''OSError'')),
     adm_queue_runtime = (\<lambda>h q. raise (builtin ''OSError'')), adm_subscription = (\<lambda>h t q. raise (builtin ''OSError'')),
     adm_topic = (\<lambda>h t. raise (builtin ''OSError'')), adm_subscription_runtime = (\<lambda>h t q. raise (builtin ''OSError'')),
     adm_list_queues = (\<lambda>h. ret [''orders'']), adm_list_topics = (\<lambda>h. ret []), adm_list_subscriptions = (\<lambda>h t. ret []),
     adm_first_queue = (\<lambda>h. ret ())\<rparr>"

definition sample_component :: "int component" where
  "sample_component = \<lparr>cp_sdk = locked_sdk, cp_admin = no_admin, cp_lib = sample_lib, cp_text = ascii_text, cp_raw = Map.empty,
     cp_auth = \<lparr>auth_type = CONNECTION_STRING, connection_string = ''Endpoint=sb://x'', tenant_id = [], client_id = [],
       client_secret = [], fully_qualified_namespace = [], row_connection_string = []\<rparr>, cp_row = None, cp_full = None, cp_selected_topic = None, cp_loaded = Inr stored_state,
     cp_legacy_queue = False, cp_throttled = (\<lambda>_. 0), cp_duration = (\<lambda>_. []), cp_preview_chars = 0\<rparr>"

definition deadline_loop :: "run_context \<Rightarrow> int loop" where
  "deadline_loop rc = component_loop sample_component deadline_env rc"

lemma deadline_facts [simp]:
  "lp_env (deadline_loop rc) = deadline_env" "lp_mode (deadline_loop rc) = COMPLETE" "lp_sessions (deadline_loop rc)"
  "lp_limit (deadline_loop rc) = 0" "max_duration_seconds (lp_advanced (deadline_loop rc)) = 0"
  "mode_of deadline_env = COMPLETE" "session_enabled (source (env_config deadline_env))" "env_entity deadline_env = sample_ref"
  "sdk_monotonic (env_sdk deadline_env) w = (w, w + 1)" "sdk_clock (env_sdk deadline_env) w = (w, w)"
  "body_format (body (env_config deadline_env)) = TEXT" "effective_auth_type (env_config deadline_env) = CONNECTION_STRING"
  "sdk_client (env_sdk deadline_env) k = ret 0" "sdk_receiver (env_sdk deadline_env) rq = ret 0"
  "sdk_close (env_sdk deadline_env) h = ret ()" "sdk_enter (env_sdk deadline_env) h = raise session_locked"
  "sdk_sleep (env_sdk deadline_env) n w = w + max 0 n"
  by (simp_all add: deadline_loop_def component_loop_def deadline_env_def lp_mode_def mode_of_def lp_sessions_def lp_limit_def
      lp_advanced_def sample_configuration_def locked_sdk_def ticking_sdk_def effective_auth_type_def uses_row_connection_string_def)

lemma deadline_stops: "wp (receive_loop (deadline_loop rc) 1) (\<lambda>r _. r = Some MAX_DURATION) (\<lambda>_ _. False) s"
proof -
  have consumed: "wp (consume (deadline_loop rc) 1 None) (\<lambda>r _. r = Some MAX_DURATION) (\<lambda>_ _. False) (t, v)"
    if "lv_receiver v = None" "lv_deadline v \<le> rs_world t" for t v
    using that by (simp add: guarded_step_def step_def stop_check_def wp_bnd wp_try wp_var wp_in_run wp_monotonic wp_ret)
  have body: "wp (loop_body (deadline_loop rc) 1) (\<lambda>r _. r = Some MAX_DURATION) (\<lambda>_ _. False) (t, v)"
    if "lv_receiver v = None" "lv_deadline v \<le> rs_world t" for t v
    unfolding loop_body_def wp_bnd [of "consume lp n c" for lp n c]
    by (rule wp_imp [OF consumed [OF that]])
      (auto simp: catch_up_due_def warn_if_messages_remain_def wp_bnd wp_var wp_ret wp_try wp_when wp_in_run wp_on_stats
        intro!: wp_anything)
  have closed: "wp (close_loop (deadline_loop rc) b) (\<lambda>_ _. True) (\<lambda>_ _. False) t" for b t
    unfolding close_loop_def close_option_def close_quietly_def close_handle_def
    by (simp add: wp_bnd wp_var wp_set_var wp_in_run wp_try wp_on_world wp_ret split: option.split)
  have "wp (run_loop (deadline_loop rc) 1) (\<lambda>r _. r = Some MAX_DURATION) (\<lambda>_ _. False) (s, initial_vars (deadline_loop rc))"
    unfolding run_loop_def wp_bnd [of "in_run m" for m] wp_bnd [of "set_var f" for f] wp_bnd [of "finally_py m n" for m n] wp_in_run wp_set_var wp_monotonic wp_finally
    by (simp only: deadline_facts prod.case fst_conv snd_conv, rule wp_imp [OF body])
      (auto simp: wp_bnd wp_ret wp_in_run wp_on_stats initial_vars_def seconds_def intro!: wp_imp [OF closed])
  then show ?thesis by (simp add: receive_loop_def wp_run_vars wp_if)
qed

lemma locked_open: "wp (open_group_receiver deadline_env c ref sid) (\<lambda>_ _. False) (\<lambda>e _. e = session_locked) s"
  unfolding open_group_receiver_def open_receiver_def close_handle_def
  by (simp add: wp_bnd wp_try wp_on_world wp_ret wp_raise)

lemma locked_retries: "wp (retry_delays deadline_env cls (open_group_receiver deadline_env c ref sid) ds) (\<lambda>_ _. False) (\<lambda>e _. e = session_locked) s"
proof (induction ds arbitrary: s)
  case Nil
  then show ?case by (simp add: locked_open)
next
  case (Cons d ds)
  show ?case
    unfolding retry_delays.simps wp_try
    by (rule wp_imp [OF locked_open]) (auto simp: wp_bnd wp_sleep wp_raise Cons.IH)
qed

lemma locked_group: "wp (attempt_group deadline_env c ref g) (\<lambda>r _. r = (Some session_locked, 0)) (\<lambda>_ _. False) s"
proof -
  have "wp (delete_group deadline_env c ref g) (\<lambda>_ _. False) (\<lambda>e sx. e = session_locked \<and> snd sx = 0) (s, 0)"
    unfolding delete_group_def with_transient_retry_def wp_bnd wp_in_run
    by (rule wp_imp [OF locked_retries]) auto
  then show ?thesis
    by (cases "delete_group deadline_env c ref g (s, 0)") (auto simp: wp_def attempt_group_def split: sum.splits)
qed

lemma locked_commit:
  "wp (commit deadline_env sample_pending) (\<lambda>kept _. list_all well_stored kept) (\<lambda>_ _. False) s"
proof -
  have "has_sb_class [SessionCannotBeLockedError] session_locked" by (simp add: has_sb_class_def session_locked_def)
  then have groups: "wp (commit_groups deadline_env c ref acc [g]) (\<lambda>_ _. True) (\<lambda>_ _. False) t" for c ref acc g t
    unfolding commit_groups.simps wp_bnd
    by (intro wp_imp [OF locked_group]) (auto simp: wp_bnd wp_on_stats wp_ret Let_def)
  have entity: "wp (commit_entity deadline_env c \<lparr>pe_entity = to_dict sample_ref, pe_groups = [g], pe_deferred_at_utc = []\<rparr>)
      (\<lambda>_ _. True) (\<lambda>_ _. False) t" if "g_ranges g \<noteq> []" for c t g
    using that unfolding commit_entity_def
    by (auto simp: pe_entity_ref_def wp_bnd wp_when wp_on_stats wp_ret simp del: commit_groups.simps intro!: wp_imp [OF groups])
  have "wp (commit deadline_env sample_pending) (\<lambda>_ _. True) (\<lambda>_ _. False) s"
    unfolding commit_def Let_def sample_pending_def data_client_def build_client_def
    by (simp add: has_work_def wp_bnd wp_try wp_on_world wp_ret wp_finally close_handle_def) (rule wp_imp [OF entity], simp_all add: wp_bnd wp_ret wp_on_world)
  from wp_conj [OF this commit_kept]
  show ?thesis
    by (rule wp_imp) (auto simp: list_all_iff well_stored_def sample_pending_def)
qed

lemma deadline_steps:
  assumes "builder_ok (rs_pending s)" and "rc_state rc = stored_state"
  shows "wp (run_steps sample_component deadline_env rc 1) (\<lambda>r t. r \<noteq> None) (\<lambda>_ _. False) s"
proof -
  have "wp (consume_entity sample_component deadline_env rc 1) (\<lambda>r _. r = Some MAX_DURATION) (\<lambda>_ _. False) t" for t
    unfolding consume_entity_def wp_bnd wp_when wp_on_stats wp_ret deadline_loop_def [symmetric]
    using deadline_stops by simp
  then have rest: "wp (bnd (reconcile_deferrals deadline_env) (\<lambda>_. bnd (consume_entity sample_component deadline_env rc 1) (\<lambda>r.
      ret (case r of None \<Rightarrow> None | Some reason \<Rightarrow> Some (state_peek_cursor (rc_state rc))))))
      (\<lambda>r _. r \<noteq> None) (\<lambda>_ _. False) t" for t
    unfolding reconcile_deferrals_def foreign_probe_def wp_bnd
    by (simp add: wp_ret) (rule wp_imp, assumption, auto simp: wp_ret)
  have committed: "wp (commit_pending deadline_env rc) (\<lambda>_ _. True) (\<lambda>_ _. False) t" if t: "builder_ok (rs_pending t)" for t
  proof -
    have "keeps sections (commit deadline_env sample_pending)" by (intro sections.keeps_commit sections.keeps_trace)
    from wp_conj [OF locked_commit keepsD [OF this, of t]]
    have commits: "wp (commit deadline_env sample_pending) (\<lambda>kept v. list_all well_stored kept \<and> builder_ok (rs_pending v)) (\<lambda>_ _. False) t"
      by (rule wp_imp) (use t in \<open>auto simp: sections_def\<close>)
    have carries: "wp (bnd (gets rs_pending) (\<lambda>b. case builder_carry kept b of Inl err \<Rightarrow> raise (builtin (dict_error_name err))
        | Inr b' \<Rightarrow> modify (\<lambda>s. s\<lparr>rs_pending := b'\<rparr>))) (\<lambda>_ _. True) (\<lambda>_ _. False) v"
      if "list_all well_stored kept" "builder_ok (rs_pending v)" for kept v
      using builder_carry_correct [OF that(2,1)] by (auto simp: wp_simps)
    have "pending_commit (rc_state rc) = sample_pending" using assms(2) by (simp add: stored_state_def)
    then show ?thesis
      unfolding commit_pending_def wp_bnd [of "commit env ps" for env ps]
      by (simp only:) (rule wp_imp [OF commits], use carries in auto)
  qed
  show ?thesis
    unfolding run_steps_def build_processor_def require_registry_def wp_bnd [of "bnd m f" for m f] wp_bnd [of "gets f" for f]
      wp_bnd [of "modify f" for f] wp_gets wp_when wp_modify wp_bnd [of "commit_pending env rc" for env] wp_if
    by (simp add: is_destructive_def del: not_None_eq One_nat_def)
      (rule wp_imp [OF committed], use assms(1) rest in \<open>simp_all del: not_None_eq One_nat_def\<close>)
qed

lemma deadline_returns: "\<exists>st'. fst (run_row sample_component deadline_env 1 (blank_run 0)) = Inr (Some st')"
proof -
  have finish: "wp (finish_run sample_component deadline_env rc cursor) (\<lambda>_ _. True) (\<lambda>_ _. False) s" for rc cursor s
    unfolding finish_run_def projected_state_def
    by (auto simp: wp_bnd wp_if wp_clock wp_gets wp_ret wp_modify split: option.split)
  have closed: "wp (on_output close_table) Q E s" if "\<And>x t. Q x t" for Q E and s :: "int run_state"
    using that by (simp add: wp_on_output close_table_def wp_modify)
  have opened: "wp (open_output deadline_env) (\<lambda>_ t. rs_pending t = rs_pending s) (\<lambda>_ _. False) s" if "rs_registry s = None" for s
  proof -
    have "fixed_columns None (new_output_table n d TEXT) = Inr (metadata_column_names @ [BODY_COLUMN])" for n d
      by (simp add: fixed_columns_def new_output_table_def)
    from open_table_eq [OF this] have "wp (open_table None) (\<lambda>_ _. True) (\<lambda>_ _. False) (new_output_table n d TEXT)" for n d
      by (simp add: wp_def Let_def)
    then show ?thesis
      unfolding open_output_def wp_bnd wp_modify wp_gets wp_on_output
      by (simp add: that)
  qed
  have info: "wp (load_entity_info deadline_env no_admin) (\<lambda>info _. info = default_entity_info) (\<lambda>_ _. False) s" for s
    unfolding load_entity_info_def with_admin_def build_client_def
    by (simp add: no_admin_def wp_bnd wp_try wp_on_world wp_raise wp_ret is_value_error_def builtin_def)
  have started: "wp (start_run sample_component deadline_env)
      (\<lambda>rc t. rc_state rc = stored_state \<and> rs_registry t = None \<and> rs_pending t = empty_builder) (\<lambda>_ _. False) s" for s
    unfolding start_run_def wp_bnd [of "clock env" for env] wp_clock
    by (simp add: sample_component_def wp_bnd wp_modify)
      (rule wp_imp [OF info], auto simp: wp_simps check_sessions_def default_entity_info_def)
  have rest: "wp (finally_py (run_steps sample_component deadline_env rc 1) (on_output close_table)) (\<lambda>r. wp (case r of None \<Rightarrow> ret None
      | Some cursor \<Rightarrow> bnd (finish_run sample_component deadline_env rc cursor) (\<lambda>st. ret (Some st))) (\<lambda>r _. r \<noteq> None) (\<lambda>_ _. False))
      (\<lambda>_ _. False) t" if "builder_ok (rs_pending t)" "rc_state rc = stored_state" for rc t
  proof -
    have "wp (case r of None \<Rightarrow> ret None | Some cursor \<Rightarrow> bnd (finish_run sample_component deadline_env rc cursor) (\<lambda>st. ret (Some st)))
        (\<lambda>r _. r \<noteq> None) (\<lambda>_ _. False) v" if "r \<noteq> None" for r v
      using that by (cases r) (auto simp: wp_bnd wp_ret intro!: wp_imp [OF finish])
    then show ?thesis
      unfolding wp_finally by (intro wp_imp [OF deadline_steps [OF that]]) (auto intro!: closed)
  qed
  have "wp (run_row sample_component deadline_env 1) (\<lambda>r _. r \<noteq> None) (\<lambda>_ _. False) (blank_run 0)"
    unfolding run_row_def wp_bnd
    by (rule wp_imp [OF started]) (auto intro!: wp_imp [OF opened] rest simp del: not_None_eq One_nat_def)
  then show ?thesis by (auto simp: wp_def split: prod.splits sum.splits)
qed

theorem run_merges_state_witness:
  "\<exists>st'. fst (run_row sample_component deadline_env 1 (blank_run 0)) = Inr (Some st') \<and>
     state_peek_cursor st' = Some \<lparr>cursor_entity_path = entity_path sample_ref, last_sequence_number = 41\<rparr> \<and> flatten_columns st' = []"
proof -
  obtain st' where run: "fst (run_row sample_component deadline_env 1 (blank_run 0)) = Inr (Some st')"
    using deadline_returns by blast
  from run_merges_state [OF run] run show ?thesis
    by (auto simp: sample_component_def stored_state_def flattens_def empty_state_def)
qed


theorem actions_only_read_witness:
  "(\<exists>w. snd (test_connection sample_component (blank_run 5)) = (blank_run 5)\<lparr>rs_world := w\<rparr> \<and> 5 = w) \<and>
   (\<exists>w. snd (list_action sample_component Queues (blank_run 5)) = (blank_run 5)\<lparr>rs_world := w\<rparr> \<and> 5 = w) \<and>
   (\<exists>w. snd (preview_messages sample_component (blank_run 5)) = (blank_run 5)\<lparr>rs_world := w\<rparr> \<and> 5 = w)"
proof -
  have "reading_keeps (=) (cp_sdk sample_component) (cp_admin sample_component)"
    by (simp add: reading_keeps_def sample_component_def locked_sdk_def ticking_sdk_def no_admin_def keeps_def wp_ret wp_raise)
  from actions_only_read [OF this, of "blank_run 5" Queues] show ?thesis by (simp add: blank_run_def)
qed

end
