(* ===== verification/Run_Ends.thy ===== *)
theory Run_Ends
  imports Peek_Facts Component_Facts
begin

text \<open>
  Every run ends. The pager's two loops read the monotonic clock in every round, as the receive loop does, so with
  one unit of fuel per microsecond of \<^verbatim>\<open>max_duration_seconds\<close> none of them runs out of it; the
  bound the configuration puts on that field gives one fuel that is enough for every accepted row.
\<close>

subsection \<open>The clock of the pager\<close>

interpretation passing: world_frame "later (ticking now (env_sdk env)) now" "forward (ticking now (env_sdk env)) now" env
  for env :: "'w env" and now
  by (rule clock_frame)

definition pager_frame :: "'w pager \<Rightarrow> ('w \<Rightarrow> int) \<Rightarrow> 'w run_state \<times> pager_vars \<Rightarrow> 'w run_state \<times> pager_vars \<Rightarrow> bool" where
  "pager_frame pg now = deadline_frame (ticking now (env_sdk (pg_env pg))) now pv_deadline"

lemma frame_pager: "frame (pager_frame pg now)"
  unfolding pager_frame_def by (rule frame_deadline)

lemma pager_run: "keeps (later (ticking now (env_sdk (pg_env pg))) now) m \<Longrightarrow> keeps (pager_frame pg now) (in_run m)"
  unfolding pager_frame_def by (rule deadline_run)

lemma pager_vars: "(\<And>v. pv_deadline (f v) = pv_deadline v) \<Longrightarrow> keeps (pager_frame pg now) (set_var f)"
    "keeps (pager_frame pg now) (var g)"
  unfolding pager_frame_def by (intro deadline_vars; simp)+

lemma later_set_retries: "keeps (later tk now) (set_retries b)"
  by (simp add: set_retries_def on_handler_def keeps_def wp_simps later_def forward_def)

lemmas pager_rules = frame.keeps_rules [OF frame_pager] pager_run pager_vars later_set_retries passing.keeps_parts
  passing.keeps_links passing.keeps_process

lemma pager_links: "keeps (link_frame (later (ticking now (env_sdk (pg_env pg))) now)) m \<Longrightarrow> keeps (pager_frame pg now) m"
  by (rule keepsI, rule wp_mono [OF keepsD], assumption)
    (auto simp: link_frame_def pager_frame_def deadline_frame_def dest: unlinked_fields)

lemmas pager_parts = passing.link_parts [OF refl, THEN pager_links]

lemmas pager_opens = pager_parts(2,3) and pager_closes = pager_parts(4,5) and pager_recovers = pager_parts(6)
  and pager_reveals = passing.link_reveals [THEN pager_links]

lemma pager_exports: "keeps (pager_frame pg now) (export_page pg h page)"
proof -
  have mark: "keeps (pager_frame pg now) (mark_processed q)" for q
    unfolding mark_processed_def by (intro pager_rules) simp
  have select: "keeps (pager_frame pg now) (select_messages pg t ms sel)" for t ms sel
  proof (induction ms arbitrary: sel)
    case Nil
    then show ?case by (simp add: frame.keeps_ret [OF frame_pager])
  next
    case (Cons m ms)
    show ?case unfolding select_messages.simps by (intro pager_rules mark Cons.IH)
  qed
  have "keeps (pager_frame pg now) (process_page pg h ms)" for ms
    unfolding process_page_def mark_taken_def page_progress_def by (intro pager_rules mark) simp_all
  moreover have "keeps (pager_frame pg now) (set_var (\<lambda>v. v\<lparr>pv_outstanding := q\<rparr>))" for q
    by (rule pager_vars) simp
  ultimately show ?thesis
    unfolding export_page_def by (intro frame.keeps_rules [OF frame_pager] pager_run passing.keeps_parts select) simp_all
qed

lemma pager_follows: "keeps (pager_frame pg now) (after_page pg page r)"
  unfolding after_page_def by (intro pager_rules pager_closes) simp_all

subsection \<open>Its rounds\<close>

text \<open>A round that goes on began before the deadline, and the clock has moved since; an exception leaves the same. A
  round of the session loop may use up the fuel of its session only when that is little.\<close>

lemma pager_stop_ticks:
  assumes "ticking now (env_sdk (pg_env pg))"
  shows "wp (pager_stop pg) (\<lambda>r t. r = None \<longrightarrow> advanced_clock now pv_deadline sx t) (\<lambda>_. advanced_clock now pv_deadline sx) sx"
proof -
  obtain w where "sdk_monotonic (env_sdk (pg_env pg)) (rs_world (fst sx)) = (now (rs_world (fst sx)), w)"
      "now (rs_world (fst sx)) < now w"
    by (rule ticks_monotonic [OF assms])
  then show ?thesis
    by (auto simp: pager_stop_def wp_simps wp_if advanced_clock_def)
qed

lemma wp_pager_moved:
  assumes "ticking now (env_sdk (pg_env pg))" and "keeps (pager_frame pg now) m" and "advanced_clock now pv_deadline sx t"
  shows "wp m (\<lambda>_. advanced_clock now pv_deadline sx) (\<lambda>_. advanced_clock now pv_deadline sx) t"
  using wp_advanced [OF assms(1) assms(2) [unfolded pager_frame_def] assms(3)] .

text \<open>What a round leaves, \<open>n\<close> being the fuel of a session.\<close>

definition round_end :: "('w \<Rightarrow> int) \<Rightarrow> nat \<Rightarrow> 'w run_state \<times> pager_vars \<Rightarrow> pager_step \<Rightarrow> 'w run_state \<times> pager_vars \<Rightarrow> bool" where
  "round_end now n sx r t \<longleftrightarrow>
     (case r of Continue \<Rightarrow> advanced_clock now pv_deadline sx t | Stopped reason \<Rightarrow> True
      | Exhausted \<Rightarrow> int n \<le> max 0 (pv_deadline (snd sx) - now (rs_world (fst sx))))"

text \<open>The rest of a round, after its check.\<close>

definition rounds ::
  "'w pager \<Rightarrow> ('w \<Rightarrow> int) \<Rightarrow> nat \<Rightarrow> 'w run_state \<times> pager_vars \<Rightarrow> ('w, pager_step) paging \<Rightarrow> bool" where
  "rounds pg now n sx m \<longleftrightarrow> ticking now (env_sdk (pg_env pg)) \<longrightarrow>
     (\<forall>t. advanced_clock now pv_deadline sx t \<longrightarrow> wp m (round_end now n sx) (\<lambda>_. advanced_clock now pv_deadline sx) t)"

lemma roundsI:
  "(\<And>t. ticking now (env_sdk (pg_env pg)) \<Longrightarrow> advanced_clock now pv_deadline sx t \<Longrightarrow>
      wp m (round_end now n sx) (\<lambda>_. advanced_clock now pv_deadline sx) t) \<Longrightarrow> rounds pg now n sx m"
  by (simp add: rounds_def del: split_paired_All)

lemma roundsD:
  "rounds pg now n sx m \<Longrightarrow> ticking now (env_sdk (pg_env pg)) \<Longrightarrow> advanced_clock now pv_deadline sx t \<Longrightarrow>
     wp m (round_end now n sx) (\<lambda>_. advanced_clock now pv_deadline sx) t"
  by (simp add: rounds_def del: split_paired_All)

lemma rounds_ret: "r \<noteq> Exhausted \<Longrightarrow> rounds pg now n sx (ret r)"
  by (cases r) (simp_all add: rounds_def round_end_def wp_ret)

lemma rounds_raise: "rounds pg now n sx (raise e)"
  by (simp add: rounds_def wp_raise)

lemma rounds_bnd: "keeps (pager_frame pg now) m \<Longrightarrow> (\<And>x. rounds pg now n sx (f x)) \<Longrightarrow> rounds pg now n sx (bnd m f)"
  by (intro roundsI, unfold wp_bnd, rule wp_imp [OF wp_pager_moved]) (auto intro: roundsD)

lemma rounds_if: "(b \<Longrightarrow> rounds pg now n sx m) \<Longrightarrow> (\<not> b \<Longrightarrow> rounds pg now n sx m') \<Longrightarrow> rounds pg now n sx (if b then m else m')"
  by simp

lemma rounds_option:
  "rounds pg now n sx m \<Longrightarrow> (\<And>x. rounds pg now n sx (f x)) \<Longrightarrow> rounds pg now n sx (case v of None \<Rightarrow> m | Some x \<Rightarrow> f x)"
  by (simp split: option.split)

lemma rounds_prod: "(\<And>x y. rounds pg now n sx (f x y)) \<Longrightarrow> rounds pg now n sx (case v of (x, y) \<Rightarrow> f x y)"
  by (simp split: prod.split)

lemmas rounds_rules = rounds_ret rounds_raise rounds_bnd rounds_if rounds_option rounds_prod

lemma checked_round:
  assumes "ticking now (env_sdk (pg_env pg))" and "\<And>sx. rounds pg now n sx m"
  shows "wp (bnd (pager_stop pg) (\<lambda>stop. case stop of Some reason \<Rightarrow> ret (Stopped reason) | None \<Rightarrow> m))
    (round_end now n sx) (\<lambda>_. advanced_clock now pv_deadline sx) sx"
  unfolding wp_bnd
  by (rule wp_imp [OF pager_stop_ticks [OF assms(1)]])
    (use assms in \<open>auto simp: rounds_def round_end_def wp_ret split: option.split\<close>)

lemma rounds_after: "rounds pg now n sx (after_page pg page r)"
proof -
  have "keeps (pager_frame pg now) (when_py (pg_incremental pg) (set_var (\<lambda>v. v\<lparr>pv_processed := {}\<rparr>)))"
    by (intro pager_rules) simp
  then show ?thesis
    unfolding after_page_def
    by (intro rounds_rules pager_closes pager_vars pager_run passing.keeps_on_stats) simp_all
qed

lemma page_step_ticks:
  assumes "ticking now (env_sdk (pg_env pg))"
  shows "wp (page_step pg) (round_end now n sx) (\<lambda>_. advanced_clock now pv_deadline sx) sx"
  unfolding page_step_def
  by (rule checked_round [OF assms],
      intro rounds_rules pager_opens pager_closes pager_reveals pager_exports rounds_after pager_rules) simp_all

text \<open>A handler that recovers from anything but a user error and goes on.\<close>

lemma guarded_ticks:
  assumes "ticking now (env_sdk (pg_env pg))"
    and "wp m (round_end now n sx) (\<lambda>_. advanced_clock now pv_deadline sx) sx"
    and "\<And>e. h e = raise e \<or> rounds pg now n sx (h e)"
  shows "wp (try_py m h) (round_end now n sx) (\<lambda>_ _. True) sx"
proof -
  have "wp (h e) (round_end now n sx) (\<lambda>_ _. True) t" if "advanced_clock now pv_deadline sx t" for e t
    using assms(3) [of e]
  proof
    assume "rounds pg now n sx (h e)"
    then show ?thesis by (rule wp_mono [OF roundsD [OF _ assms(1) that]]) simp_all
  qed (simp add: wp_raise)
  then show ?thesis unfolding wp_try by (intro wp_imp [OF assms(2)]) auto
qed

lemma guarded_page_ticks:
  assumes "ticking now (env_sdk (pg_env pg))"
  shows "wp (guarded_page pg) (round_end now n sx) (\<lambda>_ _. True) sx"
  unfolding guarded_page_def
  by (rule guarded_ticks [OF assms page_step_ticks [OF assms]]) (auto intro!: rounds_rules pager_recovers)

text \<open>The fuel of a loop after a round that goes on.\<close>

lemma fuelled_round:
  "fuelled now pv_deadline (Suc n) sx \<Longrightarrow> advanced_clock now pv_deadline sx t \<Longrightarrow> fuelled now pv_deadline n t"
  by (auto simp: fuelled_def advanced_clock_def)

lemma page_loop_ends:
  assumes "ticking now (env_sdk (pg_env pg))"
  shows "fuelled now pv_deadline n sx \<Longrightarrow> wp (page_loop pg n) (\<lambda>r _. r \<noteq> None) (\<lambda>_ _. True) sx"
proof (induction n arbitrary: sx)
  case (Suc n)
  have "wp (case r of Continue \<Rightarrow> page_loop pg n | Stopped reason \<Rightarrow> ret (Some reason) | Exhausted \<Rightarrow> ret None)
      (\<lambda>r _. r \<noteq> None) (\<lambda>_ _. True) t" if "round_end now (Suc n) sx r t" for r t
    using that Suc.IH [OF fuelled_round [OF Suc.prems]] Suc.prems
    by (cases r) (auto simp: round_end_def fuelled_def wp_ret)
  then show ?case
    unfolding page_loop.simps wp_bnd by (intro wp_imp [OF guarded_page_ticks [OF assms]]) auto
qed (simp add: fuelled_def)

subsection \<open>Its sessions\<close>

text \<open>A round within a round: \<open>n\<close> counts the fuel that is left.\<close>

lemma round_end_shift:
  "advanced_clock now pv_deadline sx t \<Longrightarrow> round_end now n t r v \<Longrightarrow> round_end now (Suc n) sx r v"
  by (cases r) (auto simp: round_end_def advanced_clock_def)

lemma advanced_clock_trans:
  "advanced_clock now dl sx t \<Longrightarrow> advanced_clock now dl t v \<Longrightarrow> advanced_clock now dl sx v"
  by (auto simp: advanced_clock_def)

lemma rounds_peek_session: "rounds pg now n sx (peek_session pg h n q)"
proof (induction n arbitrary: q sx)
  case 0
  then show ?case by (intro roundsI) (simp add: wp_ret round_end_def)
next
  case (Suc n)
  have renewed: "keeps (pager_frame pg now) (in_run (bnd (clock (pg_env pg)) (renew_session_if_needed (pg_env pg) h)))"
    by (intro pager_rules)
  show ?case
  proof (rule roundsI)
    fix t assume tk: "ticking now (env_sdk (pg_env pg))" and t: "advanced_clock now pv_deadline sx t"
    show "wp (peek_session pg h (Suc n) q) (round_end now (Suc n) sx) (\<lambda>_. advanced_clock now pv_deadline sx) t"
      unfolding peek_session.simps split_beta
      by (rule wp_mono, rule checked_round [where n = n, OF tk])
        (auto intro!: rounds_rules renewed pager_exports pager_run passing.keeps_sdk Suc.IH
          intro: round_end_shift [OF t] advanced_clock_trans [OF t] split: if_splits)
  qed
qed

lemma session_step_ticks:
  assumes "ticking now (env_sdk (pg_env pg))"
  shows "wp (session_step pg n) (round_end now n sx) (\<lambda>_. advanced_clock now pv_deadline sx) sx"
proof -
  have vars: "keeps (pager_frame pg now) (set_var (\<lambda>v. v\<lparr>pv_held := pv_held v @ [h]\<rparr>))"
    "keeps (pager_frame pg now) (set_var (\<lambda>v. v\<lparr>pv_seen := insert i (pv_seen v)\<rparr>))" for h i
    by (intro pager_vars; simp)+
  have opens: "keeps (pager_frame pg now) (try_py (bnd (open_pager pg True) (\<lambda>h. ret (Some h)))
      (\<lambda>e. if has_sb_class [OperationTimeoutError] e then ret None else raise e))"
    by (intro pager_rules pager_opens)
  show ?thesis
    unfolding session_step_def
    by (rule checked_round [OF assms], intro rounds_rules opens vars pager_run passing.keeps_gets pager_vars(2) rounds_peek_session)
      simp_all
qed

lemma guarded_session_ticks:
  assumes "ticking now (env_sdk (pg_env pg))"
  shows "wp (guarded_session pg n) (round_end now n sx) (\<lambda>_ _. True) sx"
proof -
  have "keeps (pager_frame pg now) (set_var (\<lambda>v. v\<lparr>pv_seen := {}\<rparr>))" by (intro pager_vars) simp
  then show ?thesis
    unfolding guarded_session_def
    by (intro guarded_ticks [OF assms session_step_ticks [OF assms]]) (auto intro!: rounds_rules pager_recovers)
qed

lemma session_loop_ends:
  assumes "ticking now (env_sdk (pg_env pg))"
  shows "fuelled now pv_deadline n sx \<Longrightarrow> fuelled now pv_deadline m sx \<Longrightarrow>
    wp (session_loop pg m n) (\<lambda>r _. r \<noteq> None) (\<lambda>_ _. True) sx"
proof (induction n arbitrary: sx)
  case (Suc n)
  have "fuelled now pv_deadline m t" if "advanced_clock now pv_deadline sx t" for t
    using that Suc.prems(2) by (auto simp: fuelled_def advanced_clock_def)
  then have "wp (case r of Continue \<Rightarrow> session_loop pg m n | Stopped reason \<Rightarrow> ret (Some reason) | Exhausted \<Rightarrow> ret None)
      (\<lambda>r _. r \<noteq> None) (\<lambda>_ _. True) t" if "round_end now m sx r t" for r t
    using that Suc.IH [OF fuelled_round [OF Suc.prems(1)]] Suc.prems
    by (cases r) (auto simp: round_end_def fuelled_def wp_ret)
  then show ?case
    unfolding session_loop.simps wp_bnd by (intro wp_imp [OF guarded_session_ticks [OF assms]]) auto
qed (simp add: fuelled_def)

subsection \<open>The pager ends\<close>

lemma pager_body_ends:
  assumes "ticking now (env_sdk (pg_env pg))" and "0 < n"
    and "seconds (max_duration_seconds (advanced (env_config (pg_env pg)))) \<le> int n"
  shows "wp (pager_body pg start n) (\<lambda>r _. r \<noteq> None) (\<lambda>_ _. True) sx"
proof -
  obtain w where w: "sdk_monotonic (env_sdk (pg_env pg)) (rs_world (fst sx)) = (now (rs_world (fst sx)), w)" "now (rs_world (fst sx)) < now w"
    by (rule ticks_monotonic [OF assms(1)])
  have closes: "wp m (\<lambda>_ _. r \<noteq> None) (\<lambda>_ _. True) t" if "r \<noteq> (None :: stop_reason option)" for m :: "('a, unit) paging" and r t
    using that by (auto intro: wp_anything)
  have ended: "wp m (\<lambda>_ _. True) (\<lambda>_ _. True) t" for m :: "('a, unit) paging" and t
    by (simp add: wp_anything)
  have pages: "wp (run_pages pg start n) (\<lambda>r _. r \<noteq> None) (\<lambda>_ _. True) t" if "fuelled now pv_deadline n t" for t
    using that unfolding run_pages_def set_retries_def on_handler_def
    by (simp add: wp_bnd wp_when wp_in_run wp_gets wp_modify wp_set_var fuelled_def del: not_None_eq)
      (intro conjI impI page_loop_ends [OF assms(1)], simp_all add: fuelled_def)
  have sessions: "wp (run_sessions pg n) (\<lambda>r _. r \<noteq> None) (\<lambda>_ _. True) t" if "fuelled now pv_deadline n t" for t
    using that unfolding run_sessions_def set_retries_def on_handler_def
    by (simp add: wp_bnd wp_in_run wp_modify wp_on_stats del: not_None_eq)
      (intro session_loop_ends [OF assms(1)], simp_all add: fuelled_def)
  have "wp (finally_py (if pg_sessions pg then run_sessions pg n else run_pages pg start n) fin) (\<lambda>r _. r \<noteq> None) (\<lambda>_ _. True) t"
    if "fuelled now pv_deadline n t" for fin t
    unfolding wp_finally wp_if
    by (cases "pg_sessions pg")
      (simp_all del: not_None_eq, (rule wp_imp [OF pages [OF that]] wp_imp [OF sessions [OF that]], auto intro: closes ended simp del: not_None_eq)+)
  then show ?thesis
    unfolding pager_body_def wp_bnd [of "in_run m" for m] wp_in_run wp_monotonic wp_bnd [of "set_var f" for f] wp_set_var wp_gets
    using assms(2,3) w by (simp add: fuelled_def del: not_None_eq)
qed

lemma peek_run_ends:
  assumes "ticking now (env_sdk (pg_env pg))" and "0 < n"
    and "seconds (max_duration_seconds (advanced (env_config (pg_env pg)))) \<le> int n"
  shows "wp (peek_run pg n) (\<lambda>r _. r \<noteq> None) (\<lambda>_ _. True) s"
  unfolding peek_run_def Let_def wp_bnd [of "gets f" for f] wp_gets wp_if wp_raise wp_run_vars wp_bnd [of "pager_body pg q n" for q]
  by (auto simp: wp_bnd wp_ret wp_in_run wp_on_stats wp_var intro!: wp_imp [OF pager_body_ends [OF assms]])

subsection \<open>Every run ends\<close>

lemma component_loop_ticks: "ticking now (env_sdk env) \<Longrightarrow> loop_ticks (component_loop cp env rc) now"
proof -
  assume tk: "ticking now (env_sdk env)"
  have "keeps (later (ticking now (env_sdk env)) now) (projected_state env rc cursor)" for cursor
    unfolding projected_state_def by (intro passing.keeps_parts)
  from keeps_run [OF this] tk have "now (rs_world s) \<le> now (snd (projected_size cp env rc s))" for s
    by (auto simp: projected_size_def later_def forward_def split: prod.split sum.split)
      (metis snd_conv)+
  with tk show ?thesis by (simp add: loop_ticks_def component_loop_def)
qed

lemma run_row_ends:
  assumes "ticking now (env_sdk env)" and "0 < fuel"
    and "seconds (max_duration_seconds (advanced (env_config env))) \<le> int fuel"
  shows "wp (run_row cp env fuel) (\<lambda>r _. r \<noteq> None) (\<lambda>_ _. True) s"
proof -
  have "wp (receive_loop (component_loop cp env rc) fuel) (\<lambda>r _. r \<noteq> None) (\<lambda>_ _. True) t" for rc t
    by (rule receive_loop_ends [OF component_loop_ticks [OF assms(1)]])
      (use assms(2,3) in \<open>simp_all add: lp_advanced_def component_loop_def\<close>)
  then have consume: "wp (consume_entity cp env rc fuel) (\<lambda>r _. r \<noteq> None) (\<lambda>_ _. True) t" for rc t
    by (simp add: consume_entity_def wp_bnd wp_when wp_on_stats del: not_None_eq)
  have peek: "wp (peek_entity env rc fuel) (\<lambda>r _. r \<noteq> None) (\<lambda>_ _. True) t" for rc t
    unfolding peek_entity_def wp_bnd wp_when wp_on_stats
    using peek_run_ends [of now "\<lparr>pg_env = env, pg_cursor = c, pg_t0 = d\<rparr>" for c d] assms by (simp del: not_None_eq)
  have later: "wp (bnd m f) (\<lambda>r _. r \<noteq> None) (\<lambda>_ _. True) t" if "\<And>x t. wp (f x) (\<lambda>r _. r \<noteq> None) (\<lambda>_ _. True) t"
    for m :: "('a, 'b) run" and f :: "'b \<Rightarrow> ('a, 'c option) run" and t
    unfolding wp_bnd by (rule wp_anything) (use that in simp_all)
  have "wp (run_steps cp env rc fuel) (\<lambda>r _. r \<noteq> None) (\<lambda>_ _. True) t" for rc t
  proof -
    have "wp (bnd (consume_entity cp env rc fuel) (\<lambda>r.
        ret (case r of None \<Rightarrow> None | Some reason \<Rightarrow> Some (state_peek_cursor (rc_state rc))))) (\<lambda>r _. r \<noteq> None) (\<lambda>_ _. True) v" for v
      unfolding wp_bnd by (rule wp_imp [OF consume]) (auto simp: wp_ret)
    then show ?thesis
      unfolding run_steps_def by (intro later) (auto intro: later peek simp del: not_None_eq)
  qed
  then have "wp (finally_py (run_steps cp env rc fuel) fin) (\<lambda>r _. r \<noteq> None) (\<lambda>_ _. True) t" for rc fin t
    unfolding wp_finally by (rule wp_imp) (auto intro: wp_anything)
  then have steps: "wp (bnd (finally_py (run_steps cp env rc fuel) fin) (\<lambda>r. case r of None \<Rightarrow> ret None
      | Some cursor \<Rightarrow> bnd (finish_run cp env rc cursor) (\<lambda>st. ret (Some st)))) (\<lambda>r _. r \<noteq> None) (\<lambda>_ _. True) t" for rc fin t
    unfolding wp_bnd [of "finally_py m f" for m f]
    by (rule wp_imp) (auto simp: wp_ret simp del: not_None_eq split: option.split intro!: later)
  show ?thesis unfolding run_row_def by (rule later, rule later, rule steps)
qed

text \<open>The longest run the configuration allows, in microseconds.\<close>

definition MAX_RUN :: nat where "MAX_RUN = 43200 * 1000000"

text \<open>C14: Every run ends. Suppose every reading of the monotonic clock is later than the one before it and nothing turns
  the clock back. Then no accepted row, whatever its mode and its stored state and whatever the SDK does, keeps the
  process in the receive loop, in its catch-up, in the peek pager's page loop or in a session for ever: with one unit of
  fuel per microsecond of the longest \<^verbatim>\<open>max_duration_seconds\<close> the configuration allows, the run returns a
  state or raises, it never runs out of fuel.\<close>
theorem run_ends:
  assumes "ticking now (cp_sdk cp)" and "MAX_RUN \<le> fuel"
  shows "fst (run_component cp fuel s) \<noteq> Inr None"
proof -
  have row: "wp (run_row cp (component_env cp c') fuel) (\<lambda>r _. r \<noteq> None) (\<lambda>_ _. True) t" if "configuration_ok c'" for c' t
  proof (rule run_row_ends)
    have "max_duration_seconds (advanced c') \<le> 43200" using that by (simp add: configuration_ok_def bounds_defs)
    then show "seconds (max_duration_seconds (advanced (env_config (component_env cp c')))) \<le> int fuel"
      using assms(2) by (simp add: component_env_def seconds_def MAX_RUN_def)
  qed (use assms in \<open>auto simp: component_env_def MAX_RUN_def\<close>)
  have "wp (load_run_config cp) (\<lambda>c' _. configuration_ok c') (\<lambda>_ _. True) s"
    unfolding load_run_config_def checked_auth_def rejected_def
    by (auto simp: wp_simps split: sum.split option.split dest: validate_configuration_ok)
  then have "wp (run_component cp fuel) (\<lambda>r _. r \<noteq> None) (\<lambda>_ _. True) s"
    unfolding run_component_def wp_bnd by (rule wp_imp) (use row in \<open>auto simp del: not_None_eq\<close>)
  then show ?thesis by (auto simp: wp_def split: prod.splits sum.splits)
qed

theorem run_ends_witness:
  "fst (run_component (sample_component\<lparr>cp_full := Some sample_configuration\<rparr>) MAX_RUN (blank_run 0)) \<noteq> Inr None"
proof (rule run_ends [where now = "\<lambda>w. w"])
  show "ticking (\<lambda>w. w) (cp_sdk (sample_component\<lparr>cp_full := Some sample_configuration\<rparr>))"
    by (simp add: ticking_def sample_component_def locked_sdk_def ticking_sdk_def sdk_respects_def keeps_def wp_ret wp_raise)
qed simp

end
